(* ===== verification/Prelude.thy ===== *)
theory Prelude
  imports Main "HOL-Library.AList" "HOL-Library.Word" "HOL-Library.Sublist"
begin

text \<open>
  What every component shares: Go's strings, maps and 64-bit integers, decimal text, and the
  loops of the evaluator that stop early and may not return.

  \<^item> A Go \<open>string\<close> is a byte sequence; Isabelle's \<open>string\<close> is a list of 8-bit characters, so the
    two agree byte for byte.
  \<^item> A Go map with string keys is a \<open>gomap\<close>: the list of its entries in the order an iteration
    visits them. Go leaves that order open, so no theorem depends on it except where it says so.
  \<^item> A Go \<open>int\<close> (64 bits) is an \<open>int\<close>; \<open>wrap64\<close> writes out the wrap-around where an addition
    can overflow.
  \<^item> A computation that may not return has an \<open>option\<close> result; \<open>None\<close> is not returning.
\<close>

section \<open>Maps\<close>

type_synonym 'v gomap = "(string \<times> 'v) list"

abbreviation mget :: "'v gomap \<Rightarrow> string \<Rightarrow> 'v option" where
  "mget m k \<equiv> map_of m k"

abbreviation mput :: "string \<Rightarrow> 'v \<Rightarrow> 'v gomap \<Rightarrow> 'v gomap" where
  "mput k v m \<equiv> AList.update k v m"

abbreviation mdel :: "string \<Rightarrow> 'v gomap \<Rightarrow> 'v gomap" where
  "mdel k m \<equiv> AList.delete k m"

abbreviation mkeys :: "'v gomap \<Rightarrow> string list" where
  "mkeys m \<equiv> map fst m"

text \<open>A map holds each key once.\<close>

definition wf_map :: "'v gomap \<Rightarrow> bool" where
  "wf_map m \<longleftrightarrow> distinct (mkeys m)"

named_theorems map_simps "lookup after insert and delete, and well-formedness of maps"

lemma mget_mput [map_simps]: "mget (mput k v m) k' = (if k' = k then Some v else mget m k')"
  by (simp add: update_conv')

lemma mget_mdel [map_simps]: "mget (mdel k m) k' = (if k' = k then None else mget m k')"
  by (simp add: delete_conv')

lemma wf_map_Nil [map_simps, simp]: "wf_map []"
  by (simp add: wf_map_def)

lemma wf_map_mput [map_simps]: "wf_map m \<Longrightarrow> wf_map (mput k v m)"
  by (simp add: wf_map_def distinct_update)

lemma wf_map_mdel [map_simps]: "wf_map m \<Longrightarrow> wf_map (mdel k m)"
  by (simp add: wf_map_def distinct_delete)

lemma mget_in: "wf_map m \<Longrightarrow> (k, v) \<in> set m \<longleftrightarrow> mget m k = Some v"
  by (auto simp: wf_map_def dest: map_of_SomeD)

text \<open>A list of values under the keys they carry, and the range over a map.\<close>

lemma map_of_keyed:
  "distinct (map key vs) \<Longrightarrow> map_of (map (\<lambda>v. (key v, v)) vs) k = Some v \<longleftrightarrow> v \<in> set vs \<and> key v = k"
  by (induction vs) (auto simp: rev_image_eqI)

lemma opt_ext: "(\<And>v. a = Some v \<longleftrightarrow> b = Some v) \<Longrightarrow> a = b"
  by (cases a; cases b) auto

section \<open>Results\<close>

text \<open>A call that fails returns \<open>Inl\<close> of its error; \<open>ok\<close> forgets which.\<close>

fun ok :: "'e + 'a \<Rightarrow> 'a option" where
  "ok (Inl e) = None"
| "ok (Inr x) = Some x"

lemma ok_Some [simp]: "ok r = Some x \<longleftrightarrow> r = Inr x"
  by (cases r) auto

lemma ok_None: "ok r = None \<longleftrightarrow> (\<exists>e. r = Inl e)"
  by (cases r) auto

section \<open>64-bit integers\<close>

definition wrap64 :: "int \<Rightarrow> int" where
  "wrap64 x = (x + 2 ^ 63) mod 2 ^ 64 - 2 ^ 63"

definition int64_range :: "int \<Rightarrow> bool" where
  "int64_range x \<longleftrightarrow> - (2 ^ 63) \<le> x \<and> x < 2 ^ 63"

lemma wrap64_range: "int64_range (wrap64 x)"
  by (simp add: wrap64_def int64_range_def)

lemma wrap64_id: "int64_range x \<Longrightarrow> wrap64 x = x"
  by (simp add: wrap64_def int64_range_def)

lemma wrap64_add: "wrap64 (wrap64 x + y) = wrap64 (x + y)"
proof -
  have "(wrap64 x + y + 2 ^ 63) mod 2 ^ 64 = ((x + 2 ^ 63) mod 2 ^ 64 + y) mod 2 ^ 64"
    by (simp add: wrap64_def algebra_simps)
  also have "\<dots> = (x + 2 ^ 63 + y) mod 2 ^ 64"
    by (rule mod_add_left_eq)
  finally show ?thesis by (simp add: wrap64_def algebra_simps)
qed

section \<open>Decimal text\<close>

text \<open>\<open>strconv.Itoa\<close>, \<open>strconv.FormatInt(_, 10)\<close> and the verb \<open>%d\<close> of \<open>fmt\<close>.\<close>

definition digit_char :: "nat \<Rightarrow> char" where
  "digit_char d = char_of (48 + d)"

fun nat_digits :: "nat \<Rightarrow> string" where
  "nat_digits n = (if n < 10 then [digit_char n] else nat_digits (n div 10) @ [digit_char (n mod 10)])"

declare nat_digits.simps [simp del]

definition itoa :: "int \<Rightarrow> string" where
  "itoa i = (if i < 0 then CHR ''-'' # nat_digits (nat (- i)) else nat_digits (nat i))"

text \<open>
  \<open>strconv.Atoi\<close>: an optional sign, at least one digit, only digits, and a value in the range of
  \<open>int\<close>; anything else is an error (\<open>None\<close>).
\<close>

definition digit_val :: "char \<Rightarrow> nat option" where
  "digit_val c = (let n = of_char c :: nat in if 48 \<le> n \<and> n \<le> 57 then Some (n - 48) else None)"

fun dec_val :: "nat \<Rightarrow> string \<Rightarrow> nat option" where
  "dec_val acc [] = Some acc"
| "dec_val acc (c # cs) =
     (case digit_val c of None \<Rightarrow> None | Some d \<Rightarrow> dec_val (10 * acc + d) cs)"

definition atoi :: "string \<Rightarrow> int option" where
  "atoi s =
     (let (neg, body) = (case s of [] \<Rightarrow> (False, [])
        | c # cs \<Rightarrow> if c = CHR ''-'' then (True, cs)
                    else if c = CHR ''+'' then (False, cs) else (False, s))
      in if body = [] then None
         else case dec_val 0 body of None \<Rightarrow> None
           | Some n \<Rightarrow> let v = (if neg then - int n else int n)
                     in if int64_range v then Some v else None)"

lemma dec_val_append:
  "dec_val acc (xs @ ys) = (case dec_val acc xs of None \<Rightarrow> None | Some a \<Rightarrow> dec_val a ys)"
  by (induction acc xs rule: dec_val.induct) (auto split: option.splits)

lemma digit_val_char: "d < 10 \<Longrightarrow> digit_val (digit_char d) = Some d"
  by (simp add: digit_val_def digit_char_def Let_def)

lemma dec_val_digits: "dec_val 0 (nat_digits n) = Some n"
proof (induction n rule: nat_digits.induct)
  case (1 n)
  show ?case
    by (subst nat_digits.simps) (use 1 in \<open>auto simp: dec_val_append digit_val_char\<close>)
qed

lemma nat_digits_nonempty [simp]: "nat_digits n \<noteq> []"
  by (subst nat_digits.simps) simp

lemma hd_nat_digits: "\<exists>d < 10. hd (nat_digits n) = digit_char d"
proof (induction n rule: nat_digits.induct)
  case (1 n)
  then show ?case by (subst nat_digits.simps) auto
qed

lemma digit_char_neq [simp]: "d < 10 \<Longrightarrow> digit_char d \<noteq> CHR ''-''" "d < 10 \<Longrightarrow> digit_char d \<noteq> CHR ''+''"
  by (auto simp: digit_char_def dest!: arg_cong [where f = "of_char :: char \<Rightarrow> nat"])

lemma atoi_itoa: "int64_range i \<Longrightarrow> atoi (itoa i) = Some i"
proof (cases "i < 0")
  case True
  then show "int64_range i \<Longrightarrow> atoi (itoa i) = Some i"
    by (simp add: atoi_def itoa_def dec_val_digits)
next
  case False
  obtain d cs where d: "d < 10" "nat_digits (nat i) = digit_char d # cs"
    using hd_nat_digits [of "nat i"] by (metis list.collapse nat_digits_nonempty)
  have v: "dec_val 0 (digit_char d # cs) = Some (nat i)"
    using dec_val_digits [of "nat i"] d by simp
  show "int64_range i \<Longrightarrow> atoi (itoa i) = Some i"
    using False d v by (simp add: atoi_def itoa_def)
qed

lemma nat_digits_inject: "nat_digits m = nat_digits n \<longleftrightarrow> m = n"
  by (metis dec_val_digits option.inject)

lemma itoa_inject: "itoa i = itoa j \<longleftrightarrow> i = j"
proof
  assume eq: "itoa i = itoa j"
  have no: "\<And>n cs. nat_digits n = CHR ''-'' # cs \<Longrightarrow> False"
    using hd_nat_digits by (metis digit_char_neq(1) list.sel(1))
  show "i = j"
    using eq no by (auto simp: itoa_def nat_digits_inject split: if_splits) (metis no)+
qed simp

section \<open>Loops that may not return\<close>

text \<open>
  \<open>any_opt p xs\<close> is a loop that returns true at the first element where \<open>p\<close> holds, and
  \<open>all_opt p xs\<close> one that returns false at the first where it fails. Either does not return if
  it reaches an element on which \<open>p\<close> does not return.
\<close>

fun any_opt :: "('a \<Rightarrow> bool option) \<Rightarrow> 'a list \<Rightarrow> bool option" where
  "any_opt p [] = Some False"
| "any_opt p (x # xs) =
     (case p x of None \<Rightarrow> None | Some b \<Rightarrow> if b then Some True else any_opt p xs)"

fun all_opt :: "('a \<Rightarrow> bool option) \<Rightarrow> 'a list \<Rightarrow> bool option" where
  "all_opt p [] = Some True"
| "all_opt p (x # xs) =
     (case p x of None \<Rightarrow> None | Some b \<Rightarrow> if b then all_opt p xs else Some False)"

lemma any_opt_cong [fundef_cong]:
  "xs = ys \<Longrightarrow> (\<And>x. x \<in> set ys \<Longrightarrow> p x = q x) \<Longrightarrow> any_opt p xs = any_opt q ys"
  by (induction ys arbitrary: xs) (auto split: option.splits)

lemma all_opt_cong [fundef_cong]:
  "xs = ys \<Longrightarrow> (\<And>x. x \<in> set ys \<Longrightarrow> p x = q x) \<Longrightarrow> all_opt p xs = all_opt q ys"
  by (induction ys arbitrary: xs) (auto split: option.splits)

lemma any_opt_returns: "(\<And>x. x \<in> set xs \<Longrightarrow> p x \<noteq> None) \<Longrightarrow> any_opt p xs \<noteq> None"
  by (induction xs) (auto split: option.splits)

lemma all_opt_returns: "(\<And>x. x \<in> set xs \<Longrightarrow> p x \<noteq> None) \<Longrightarrow> all_opt p xs \<noteq> None"
  by (induction xs) (auto split: option.splits)

lemma any_opt_Some: "any_opt (\<lambda>x. Some (q x)) xs = Some (\<exists>x \<in> set xs. q x)"
  by (induction xs) auto

lemma all_opt_Some: "all_opt (\<lambda>x. Some (q x)) xs = Some (\<forall>x \<in> set xs. q x)"
  by (induction xs) auto

text \<open>More fuel in the loop body never changes a result already reached.\<close>

lemma any_opt_mono:
  "(\<And>x b. x \<in> set xs \<Longrightarrow> p x = Some b \<Longrightarrow> q x = Some b) \<Longrightarrow> any_opt p xs = Some r \<Longrightarrow> any_opt q xs = Some r"
  by (induction xs) (auto split: option.splits if_splits)

lemma all_opt_mono:
  "(\<And>x b. x \<in> set xs \<Longrightarrow> p x = Some b \<Longrightarrow> q x = Some b) \<Longrightarrow> all_opt p xs = Some r \<Longrightarrow> all_opt q xs = Some r"
  by (induction xs) (auto split: option.splits if_splits)

lemma all_opt_True_iff: "all_opt p xs = Some True \<longleftrightarrow> (\<forall>x \<in> set xs. p x = Some True)"
  by (induction xs) (auto split: option.splits)

end
