(* ===== verification/GoFloat.thy ===== *)
theory GoFloat
  imports Prelude Complex_Main
begin

text \<open>
  Go's \<open>float64\<close> (IEEE 754 binary64, round to nearest, ties to even) as the program uses it: a
  finite value is the rational number it denotes, next to the infinities and NaN. The two zeros are
  one value here; no code under \<open>src/\<close> divides by a zero whose sign it could observe. Each
  operation computes the exact rational result and rounds it once with \<open>round64\<close>, which is what
  the standard requires of \<open>+\<close>, \<open>-\<close>, \<open>*\<close>, \<open>/\<close> and of the conversion from an integer.

  The lemmas show that rounding is monotone and leaves representable values alone; the locale
  \<open>rounding\<close> is the interface of these two laws, and what the rollout code needs of them (a
  running sum of non-negative terms never decreases, thresholds are monotone) is proved inside it.
\<close>

section \<open>Rounding a rational to 53 bits\<close>

fun ilog2 :: "nat \<Rightarrow> nat" where
  "ilog2 n = (if n < 2 then 0 else Suc (ilog2 (n div 2)))"

declare ilog2.simps [simp del]

text \<open>The exponent of a non-zero rational: \<open>2 powi e \<le> \<bar>q\<bar> < 2 powi (e + 1)\<close>.\<close>

definition bexp :: "rat \<Rightarrow> int" where
  "bexp q = (let (a, b) = quotient_of \<bar>q\<bar>; e = int (ilog2 (nat a)) - int (ilog2 (nat b))
             in if 2 powi e \<le> \<bar>q\<bar> then e else e - 1)"

text \<open>Round to an integer, ties to even.\<close>

definition rne :: "rat \<Rightarrow> int" where
  "rne x = (let f = \<lfloor>x\<rfloor>; d = x - of_int f
            in if d < 1 / 2 then f else if 1 / 2 < d then f + 1 else if even f then f else f + 1)"

text \<open>The unit in the last place at \<open>q\<close>, gradual underflow included.\<close>

definition ulp :: "rat \<Rightarrow> rat" where
  "ulp q = 2 powi (max (bexp q) (- 1022) - 52)"

definition fl :: "rat \<Rightarrow> rat" where
  "fl q = (if q = 0 then 0 else of_int (rne (q / ulp q)) * ulp q)"

section \<open>The values and operations of float64\<close>

datatype float64 = Fin rat | PosInf | NegInf | NaN

definition round64 :: "rat \<Rightarrow> float64" where
  "round64 q = (let r = fl q
     in if 2 ^ 1024 \<le> r then PosInf else if r \<le> - (2 ^ 1024) then NegInf else Fin r)"

definition float_of_int :: "int \<Rightarrow> float64" where
  "float_of_int n = round64 (of_int n)"

fun fneg :: "float64 \<Rightarrow> float64" where
  "fneg (Fin a) = Fin (- a)"
| "fneg PosInf = NegInf"
| "fneg NegInf = PosInf"
| "fneg NaN = NaN"

fun fadd :: "float64 \<Rightarrow> float64 \<Rightarrow> float64" where
  "fadd (Fin a) (Fin b) = round64 (a + b)"
| "fadd NaN _ = NaN"
| "fadd _ NaN = NaN"
| "fadd PosInf NegInf = NaN"
| "fadd NegInf PosInf = NaN"
| "fadd PosInf _ = PosInf"
| "fadd NegInf _ = NegInf"
| "fadd _ PosInf = PosInf"
| "fadd _ NegInf = NegInf"

definition inf_sign :: "bool \<Rightarrow> float64" where
  "inf_sign neg = (if neg then NegInf else PosInf)"

fun fneg_sign :: "float64 \<Rightarrow> bool" where
  "fneg_sign (Fin a) = (a < 0)"
| "fneg_sign PosInf = False"
| "fneg_sign NegInf = True"
| "fneg_sign NaN = False"

fun fmul :: "float64 \<Rightarrow> float64 \<Rightarrow> float64" where
  "fmul (Fin a) (Fin b) = round64 (a * b)"
| "fmul NaN _ = NaN"
| "fmul _ NaN = NaN"
| "fmul x y = (if x = Fin 0 \<or> y = Fin 0 then NaN else inf_sign (fneg_sign x \<noteq> fneg_sign y))"

fun fdiv :: "float64 \<Rightarrow> float64 \<Rightarrow> float64" where
  "fdiv (Fin a) (Fin b) =
     (if b \<noteq> 0 then round64 (a / b) else if a = 0 then NaN else inf_sign (a < 0))"
| "fdiv NaN _ = NaN"
| "fdiv _ NaN = NaN"
| "fdiv (Fin a) _ = Fin 0"
| "fdiv x (Fin b) = inf_sign (fneg_sign x \<noteq> (b < 0))"
| "fdiv _ _ = NaN"

text \<open>Comparison: every comparison with NaN is false, \<open>NaN \<noteq> NaN\<close> included in \<open>feq\<close>.\<close>

fun flt :: "float64 \<Rightarrow> float64 \<Rightarrow> bool" where
  "flt (Fin a) (Fin b) = (a < b)"
| "flt NegInf (Fin _) = True"
| "flt NegInf PosInf = True"
| "flt (Fin _) PosInf = True"
| "flt _ _ = False"

definition feq :: "float64 \<Rightarrow> float64 \<Rightarrow> bool" where
  "feq a b \<longleftrightarrow> a = b \<and> a \<noteq> NaN"

text \<open>Go's operators, through the library's syntactic classes.\<close>

instantiation float64 :: "{zero, one, plus, minus, uminus, times, inverse, ord}"
begin

definition zero_float64 :: float64 where "0 = Fin 0"
definition one_float64 :: float64 where "1 = Fin 1"
definition plus_float64 :: "float64 \<Rightarrow> float64 \<Rightarrow> float64" where "a + b = fadd a b"
definition uminus_float64 :: "float64 \<Rightarrow> float64" where "- a = fneg a"
definition minus_float64 :: "float64 \<Rightarrow> float64 \<Rightarrow> float64" where "a - b = fadd a (fneg b)"
definition times_float64 :: "float64 \<Rightarrow> float64 \<Rightarrow> float64" where "a * b = fmul a b"
definition divide_float64 :: "float64 \<Rightarrow> float64 \<Rightarrow> float64" where "a div b = fdiv a b"
definition inverse_float64 :: "float64 \<Rightarrow> float64" where "inverse a = fdiv (Fin 1) a"
definition less_float64 :: "float64 \<Rightarrow> float64 \<Rightarrow> bool" where "a < b \<longleftrightarrow> flt a b"
definition less_eq_float64 :: "float64 \<Rightarrow> float64 \<Rightarrow> bool" where "a \<le> b \<longleftrightarrow> flt a b \<or> feq a b"

instance ..

end

lemmas float_ops = zero_float64_def one_float64_def plus_float64_def uminus_float64_def
  minus_float64_def times_float64_def divide_float64_def inverse_float64_def
  less_float64_def less_eq_float64_def

text \<open>\<open>math.Trunc\<close> and \<open>math.Abs\<close>.\<close>

fun ftrunc :: "float64 \<Rightarrow> float64" where
  "ftrunc (Fin a) = Fin (of_int (if 0 \<le> a then \<lfloor>a\<rfloor> else \<lceil>a\<rceil>))"
| "ftrunc x = x"

fun fabs :: "float64 \<Rightarrow> float64" where
  "fabs (Fin a) = Fin \<bar>a\<bar>"
| "fabs PosInf = PosInf"
| "fabs NegInf = PosInf"
| "fabs NaN = NaN"

text \<open>
  \<open>int64(x)\<close>: truncation towards zero. Out of range (and for NaN) Go leaves the result to the
  implementation; the value here is the one amd64 produces.
\<close>

fun int_of_float :: "float64 \<Rightarrow> int" where
  "int_of_float (Fin a) =
     (let n = (if 0 \<le> a then \<lfloor>a\<rfloor> else \<lceil>a\<rceil>) in if int64_range n then n else - (2 ^ 63))"
| "int_of_float _ = - (2 ^ 63)"

section \<open>The exponent\<close>

lemma ilog2_bounds: "0 < n \<Longrightarrow> 2 ^ ilog2 n \<le> n \<and> n < 2 ^ Suc (ilog2 n)"
proof (induction n rule: ilog2.induct)
  case (1 n)
  show ?case
  proof (cases "n < 2")
    case True
    then show ?thesis using 1 by (subst (1 2) ilog2.simps) auto
  next
    case False
    then have "2 ^ ilog2 (n div 2) \<le> n div 2 \<and> n div 2 < 2 ^ Suc (ilog2 (n div 2))"
      using 1 by auto
    then show ?thesis using False by (subst (1 2) ilog2.simps) auto
  qed
qed

lemma powi_mono: "e \<le> e' \<Longrightarrow> (2 :: rat) powi e \<le> 2 powi e'"
  by (rule power_int_increasing) auto

lemma powi_less: "e < e' \<longleftrightarrow> (2 :: rat) powi e < 2 powi e'"
  by (metis linorder_not_less order_less_le powi_mono power_int_strict_increasing one_less_numeral_iff semiring_norm(76))

lemma powi_add: "(2 :: rat) powi (a + b) = 2 powi a * 2 powi b"
  by (rule power_int_add) simp

lemma bexp_bounds: "q \<noteq> 0 \<Longrightarrow> 2 powi (bexp q) \<le> \<bar>q\<bar> \<and> \<bar>q\<bar> < 2 powi (bexp q + 1)"
proof -
  assume q: "q \<noteq> 0"
  obtain a b where ab: "quotient_of \<bar>q\<bar> = (a, b)" by (cases "quotient_of \<bar>q\<bar>")
  then have b0: "0 < b" and eq: "\<bar>q\<bar> = of_int a / of_int b"
    by (auto simp: quotient_of_denom_pos quotient_of_div)
  have a0: "0 < a"
    using q b0 eq by (metis abs_not_less_zero linorder_neqE_linordered_idom not_one_less_zero
        of_int_0_less_iff zero_less_abs_iff zero_less_divide_iff divide_less_0_iff of_int_pos less_asym)
  define la lb where l: "la = ilog2 (nat a)" "lb = ilog2 (nat b)"
  have na: "(2 :: rat) powi int la \<le> of_int a" "of_int a < (2 :: rat) powi (int la + 1)"
    using ilog2_bounds [of "nat a"] a0 unfolding l [symmetric]
    by (auto simp: power_int_add simp flip: of_nat_le_iff [where 'a = rat] of_nat_less_iff [where 'a = rat])
  have nb: "(2 :: rat) powi int lb \<le> of_int b" "of_int b < (2 :: rat) powi (int lb + 1)"
    using ilog2_bounds [of "nat b"] b0 unfolding l [symmetric]
    by (auto simp: power_int_add simp flip: of_nat_le_iff [where 'a = rat] of_nat_less_iff [where 'a = rat])
  have up: "\<bar>q\<bar> < 2 powi (int la - int lb + 1)"
  proof -
    have "\<bar>q\<bar> < 2 powi (int la + 1) / 2 powi int lb"
      unfolding eq by (rule frac_less) (use na nb a0 in auto)
    then show ?thesis by (simp add: power_int_diff power_int_add)
  qed
  have lo: "2 powi (int la - int lb - 1) < \<bar>q\<bar>"
  proof -
    have "2 powi int la / 2 powi (int lb + 1) < \<bar>q\<bar>"
      unfolding eq by (rule frac_less2) (use na nb b0 in auto)
    then show ?thesis by (simp add: power_int_diff power_int_add algebra_simps)
  qed
  show ?thesis
    using up lo by (auto simp: bexp_def ab l [symmetric] Let_def not_le)
qed

lemma bexp_unique: "2 powi e \<le> \<bar>q\<bar> \<Longrightarrow> \<bar>q\<bar> < 2 powi (e + 1) \<Longrightarrow> bexp q = e"
proof -
  assume e: "2 powi e \<le> \<bar>q\<bar>" "\<bar>q\<bar> < 2 powi (e + 1)"
  moreover have "(0 :: rat) < 2 powi e" by simp
  ultimately have "q \<noteq> 0" by fastforce
  from bexp_bounds [OF this] e have "2 powi e < (2 :: rat) powi (bexp q + 1)" "2 powi (bexp q) < (2 :: rat) powi (e + 1)"
    by linarith+
  then show ?thesis by (simp flip: powi_less)
qed

lemma bexp_mono: "q \<noteq> 0 \<Longrightarrow> \<bar>q\<bar> \<le> \<bar>q'\<bar> \<Longrightarrow> bexp q \<le> bexp q'"
proof -
  assume q: "q \<noteq> 0" and le: "\<bar>q\<bar> \<le> \<bar>q'\<bar>"
  then have "q' \<noteq> 0" by auto
  with q le bexp_bounds [of q] bexp_bounds [of q'] have "2 powi (bexp q) < (2 :: rat) powi (bexp q' + 1)"
    by linarith
  then show ?thesis by (simp flip: powi_less)
qed

lemma ulp_pos [simp]: "0 < ulp q"
  by (simp add: ulp_def)

lemma ulp_nz [simp]: "ulp q \<noteq> 0"
  using ulp_pos [of q] by linarith

section \<open>Rounding is monotone and exact on representable values\<close>

lemma rne_mono: "x \<le> y \<Longrightarrow> rne x \<le> rne y"
proof -
  assume le: "x \<le> y"
  then have f: "\<lfloor>x\<rfloor> \<le> \<lfloor>y\<rfloor>" by (rule floor_mono)
  show ?thesis
  proof (cases "\<lfloor>x\<rfloor> = \<lfloor>y\<rfloor>")
    case True
    then show ?thesis using le by (auto simp: rne_def Let_def)
  next
    case False
    then have "\<lfloor>x\<rfloor> + 1 \<le> \<lfloor>y\<rfloor>" using f by simp
    then show ?thesis by (auto simp: rne_def Let_def)
  qed
qed

lemma rne_of_int [simp]: "rne (of_int n) = n"
  by (simp add: rne_def)

text \<open>Evaluation: the nearest integer, or the even one of two equally near.\<close>

lemma rne_near: "of_int m - 1 / 2 < x \<Longrightarrow> x < of_int m + 1 / 2 \<Longrightarrow> rne x = m"
proof -
  assume x: "of_int m - 1 / 2 < x" "x < of_int m + 1 / 2"
  show ?thesis
  proof (cases "of_int m \<le> x")
    case True
    then have "\<lfloor>x\<rfloor> = m" using x by (simp add: floor_eq_iff)
    then show ?thesis using x by (simp add: rne_def)
  next
    case False
    then have "\<lfloor>x\<rfloor> = m - 1" using x by (simp add: floor_eq_iff)
    then show ?thesis using x by (simp add: rne_def)
  qed
qed

lemma rne_tie: "x = of_int m + 1 / 2 \<Longrightarrow> rne x = (if even m then m else m + 1)"
proof -
  assume x: "x = of_int m + 1 / 2"
  then have "\<lfloor>x\<rfloor> = m" by (simp add: floor_eq_iff)
  then show ?thesis using x by (simp add: rne_def)
qed

lemma rne_minus: "rne (- x) = - rne x"
proof (cases "x = of_int \<lfloor>x\<rfloor>")
  case True
  then have "- x = of_int (- \<lfloor>x\<rfloor>)" by simp
  then show ?thesis by (metis rne_of_int True)
next
  case False
  then have c: "\<lfloor>- x\<rfloor> = - \<lfloor>x\<rfloor> - 1"
    by (simp add: floor_minus ceiling_altdef)
  show ?thesis by (auto simp: rne_def Let_def c)
qed

lemma bexp_minus [simp]: "bexp (- q) = bexp q"
  by (simp add: bexp_def)

lemma ulp_minus [simp]: "ulp (- q) = ulp q"
  by (simp add: ulp_def)

lemma fl_minus: "fl (- q) = - fl q"
  by (simp add: fl_def rne_minus)

lemma fl_0 [simp]: "fl 0 = 0"
  by (simp add: fl_def)

lemma fl_nonneg: "0 \<le> q \<Longrightarrow> 0 \<le> fl q"
proof (cases "q = 0")
  case False
  assume "0 \<le> q"
  then have "rne 0 \<le> rne (q / ulp q)" by (intro rne_mono) (simp add: less_imp_le)
  then show ?thesis using False rne_of_int [of 0] by (simp add: fl_def less_imp_le)
qed simp

lemma powi_shift: "(2 :: rat) powi (e + int n) = 2 ^ n * 2 powi e"
  by (simp add: power_int_add)

lemma ulp_two: "2 powi (max (bexp q) (- 1022) + 1) = of_int (2 ^ 53) * ulp q"
    "2 powi (max (bexp q) (- 1022)) = of_int (2 ^ 52) * ulp q"
  using powi_shift [of "max (bexp q) (- 1022) - 52" 53] powi_shift [of "max (bexp q) (- 1022) - 52" 52]
  by (simp_all add: ulp_def add.commute)

lemma mantissa_bound: "q \<noteq> 0 \<Longrightarrow> \<bar>rne (q / ulp q)\<bar> \<le> 2 ^ 53"
proof -
  assume q: "q \<noteq> 0"
  have "\<bar>q\<bar> < 2 powi (bexp q + 1)" using bexp_bounds q by blast
  also have "\<dots> \<le> 2 powi (max (bexp q) (- 1022) + 1)" by (rule powi_mono) simp
  finally have "\<bar>q\<bar> \<le> of_int (2 ^ 53) * ulp q" by (simp add: ulp_two(1))
  then have "q / ulp q \<le> of_int (2 ^ 53)" "of_int (- (2 ^ 53)) \<le> q / ulp q"
    by (auto simp: pos_divide_le_eq pos_le_divide_eq)
  then have "rne (q / ulp q) \<le> 2 ^ 53" "- (2 ^ 53) \<le> rne (q / ulp q)"
    by (metis rne_mono rne_of_int)+
  then show ?thesis by simp
qed

lemma fl_upper: "q \<noteq> 0 \<Longrightarrow> \<bar>fl q\<bar> \<le> 2 powi (max (bexp q) (- 1022) + 1)"
proof -
  assume q: "q \<noteq> 0"
  have "\<bar>fl q\<bar> = of_int \<bar>rne (q / ulp q)\<bar> * ulp q"
    using q by (simp add: fl_def abs_mult abs_of_pos)
  also have "\<dots> \<le> of_int (2 ^ 53) * ulp q"
    using mantissa_bound [OF q] by (intro mult_right_mono) (simp_all add: less_imp_le)
  finally show ?thesis by (simp add: ulp_two(1))
qed

lemma fl_lower: "- 1022 \<le> bexp q \<Longrightarrow> 2 powi bexp q \<le> q \<Longrightarrow> 2 powi bexp q \<le> fl q"
proof -
  assume q: "- 1022 \<le> bexp q" "2 powi bexp q \<le> q"
  then have two: "(2 :: rat) powi bexp q = of_int (2 ^ 52) * ulp q"
    using ulp_two(2) [of q] by simp
  have "of_int (2 ^ 52) \<le> q / ulp q"
    using q two by (simp add: pos_le_divide_eq)
  then have "2 ^ 52 \<le> rne (q / ulp q)"
    by (metis rne_mono rne_of_int)
  then have "of_int (2 ^ 52) * ulp q \<le> of_int (rne (q / ulp q)) * ulp q"
    by (intro mult_right_mono) (simp_all add: less_imp_le)
  moreover have "(0 :: rat) < 2 powi bexp q" by simp
  then have "q \<noteq> 0" using q(2) by linarith
  ultimately show ?thesis using two by (simp add: fl_def)
qed

lemma fl_mono_pos: "0 < q \<Longrightarrow> q \<le> q' \<Longrightarrow> fl q \<le> fl q'"
proof -
  assume q: "0 < q" "q \<le> q'"
  define e e' where e: "e = max (bexp q) (- 1022)" "e' = max (bexp q') (- 1022)"
  have le: "e \<le> e'" using bexp_mono [of q q'] q by (auto simp: e)
  show ?thesis
  proof (cases "e = e'")
    case True
    then have u: "ulp q = ulp q'" by (simp add: ulp_def e)
    have "rne (q / ulp q) \<le> rne (q' / ulp q')"
      unfolding u by (rule rne_mono) (simp add: q divide_right_mono less_imp_le)
    then have "of_int (rne (q / ulp q)) * ulp q \<le> of_int (rne (q' / ulp q')) * ulp q'"
      unfolding u by (intro mult_right_mono) (simp_all add: less_imp_le)
    then show ?thesis using q by (simp add: fl_def)
  next
    case False
    then have lt: "e + 1 \<le> e'" using le by simp
    have "\<bar>q\<bar> < 2 powi (bexp q + 1)" using bexp_bounds [of q] q by auto
    also have "\<dots> \<le> 2 powi (e + 1)" by (rule powi_mono) (simp add: e)
    finally have "\<bar>fl q\<bar> \<le> 2 powi (e + 1)" using fl_upper [of q] q e by auto
    also have "\<dots> \<le> 2 powi e'" by (rule powi_mono) (use lt in simp)
    also have "\<dots> \<le> fl q'"
    proof -
      have "bexp q' = e'" "- 1022 \<le> bexp q'" using lt by (auto simp: e)
      then show ?thesis using fl_lower [of q'] bexp_bounds [of q'] q by auto
    qed
    finally show ?thesis by simp
  qed
qed

lemma fl_mono: "q \<le> q' \<Longrightarrow> fl q \<le> fl q'"
proof -
  assume le: "q \<le> q'"
  consider "0 < q" | "q' < 0" | "q \<le> 0" "0 \<le> q'" by linarith
  then show ?thesis
  proof cases
    case 1
    then show ?thesis using le by (rule fl_mono_pos)
  next
    case 2
    then have "fl (- q') \<le> fl (- q)" using le by (intro fl_mono_pos) auto
    then show ?thesis by (simp add: fl_minus)
  next
    case 3
    then show ?thesis using fl_nonneg [of "- q"] fl_nonneg [of q'] by (simp add: fl_minus)
  qed
qed

text \<open>What a double can hold: 53 significant bits, exponents down to the subnormal range.\<close>

definition rep64 :: "rat \<Rightarrow> bool" where
  "rep64 q \<longleftrightarrow> (\<exists>m k. q = of_int m * 2 powi k \<and> \<bar>m\<bar> \<le> 2 ^ 53 \<and> - 1074 \<le> k)"

lemma rep64_I: "q = of_int m * 2 powi k \<Longrightarrow> \<bar>m\<bar> \<le> 2 ^ 53 \<Longrightarrow> - 1074 \<le> k \<Longrightarrow> rep64 q"
  by (auto simp: rep64_def)

lemma rep64_neg: "rep64 q \<Longrightarrow> rep64 (- q)"
proof -
  assume "rep64 q"
  then obtain m k where "q = of_int m * 2 powi k" "\<bar>m\<bar> \<le> 2 ^ 53" "- 1074 \<le> k"
    unfolding rep64_def by blast
  then show ?thesis by (intro rep64_I [of _ "- m" k]) simp_all
qed

lemma rep64_fl: "rep64 (fl q)"
proof (cases "q = 0")
  case True
  then show ?thesis by (intro rep64_I [of _ 0 0]) simp_all
next
  case False
  show ?thesis
  proof (rule rep64_I)
    show "fl q = of_int (rne (q / ulp q)) * 2 powi (max (bexp q) (- 1022) - 52)"
      using False by (simp add: fl_def ulp_def)
    show "\<bar>rne (q / ulp q)\<bar> \<le> 2 ^ 53" using False by (rule mantissa_bound)
  qed simp
qed

lemma rep64_multiple: "rep64 q \<Longrightarrow> q \<noteq> 0 \<Longrightarrow> \<exists>n. q = of_int n * ulp q"
proof -
  assume "rep64 q" and nz: "q \<noteq> 0"
  then obtain m k where mk: "q = of_int m * 2 powi k" "\<bar>m\<bar> \<le> 2 ^ 53" "- 1074 \<le> k"
    by (auto simp: rep64_def)
  define d where d: "d = max (bexp q) (- 1022) - 52"
  have u: "ulp q = 2 powi d" by (simp add: ulp_def d)
  show ?thesis
  proof (cases "d \<le> k")
    case True
    then have "2 powi k = 2 ^ nat (k - d) * (2 :: rat) powi d"
      using powi_shift [of d "nat (k - d)"] by simp
    then have "q = of_int (m * 2 ^ nat (k - d)) * ulp q" unfolding u by (simp add: mk(1))
    then show ?thesis ..
  next
    case False
    then have b: "bexp q = d + 52" "k + 1 \<le> d" using mk(3) by (auto simp: d)
    have "2 powi (k + 53) \<le> (2 :: rat) powi bexp q" using b by (intro powi_mono) simp
    also have "\<dots> \<le> \<bar>q\<bar>" using bexp_bounds nz by blast
    also have "\<dots> = of_int \<bar>m\<bar> * 2 powi k" by (simp add: mk(1) abs_mult)
    finally have "2 ^ 53 * 2 powi k \<le> of_int \<bar>m\<bar> * (2 :: rat) powi k"
      using powi_shift [of k 53] by simp
    then have "of_int (2 ^ 53) \<le> (of_int \<bar>m\<bar> :: rat)" by simp
    then have m: "\<bar>m\<bar> = 2 ^ 53" using mk(2) by (simp only: of_int_le_iff)
    have "\<bar>q\<bar> < 2 powi (bexp q + 1)" using bexp_bounds nz by blast
    moreover have "\<bar>q\<bar> = 2 powi (k + 53)" using m powi_shift [of k 53] by (simp add: mk(1) abs_mult)
    ultimately have "k + 53 < bexp q + 1" by (simp flip: powi_less)
    moreover have "bexp q = k + 53"
      using bexp_unique [of "k + 53" q] \<open>\<bar>q\<bar> = 2 powi (k + 53)\<close> powi_less [of "k + 53" "k + 53 + 1"] by simp
    ultimately have "d = k + 1" using b by simp
    then have "2 powi d = 2 * (2 :: rat) powi k" using powi_shift [of k 1] by simp
    moreover have "m = 2 ^ 53 \<or> m = - (2 ^ 53)" using m by linarith
    ultimately have "q = of_int (2 ^ 52) * ulp q \<or> q = of_int (- (2 ^ 52)) * ulp q"
      unfolding u by (auto simp: mk(1))
    then show ?thesis by blast
  qed
qed

lemma fl_rep: "rep64 q \<Longrightarrow> fl q = q"
proof (cases "q = 0")
  case False
  assume "rep64 q"
  then obtain n where n: "q = of_int n * ulp q" using rep64_multiple False by blast
  then have "q / ulp q = of_int n" by (metis nonzero_mult_div_cancel_right ulp_nz)
  then show ?thesis using n False by (simp add: fl_def)
qed simp

lemma rep64_int: "\<bar>n\<bar> \<le> 2 ^ 53 \<Longrightarrow> rep64 (of_int n)"
  by (rule rep64_I [of _ n 0]) auto

section \<open>The two laws as an interface\<close>

text \<open>
  A rounding is monotone and leaves its own results alone. The client is the running sum of the
  rollout loop: \<open>sum += w\<close> with every addition rounded.
\<close>

locale rounding =
  fixes rnd :: "rat \<Rightarrow> rat"
  assumes rnd_mono: "q \<le> q' \<Longrightarrow> rnd q \<le> rnd q'"
    and rnd_idem: "rnd (rnd q) = rnd q"
    and rnd_zero: "rnd 0 = 0"
begin

lemma rnd_nonneg: "0 \<le> q \<Longrightarrow> 0 \<le> rnd q"
  using rnd_mono [of 0 q] by (simp add: rnd_zero)

lemma sum_grows: "rnd s = s \<Longrightarrow> 0 \<le> x \<Longrightarrow> s \<le> rnd (s + x)"
  using rnd_mono [of s "s + x"] by simp

lemma sum_mono: "s \<le> s' \<Longrightarrow> x \<le> x' \<Longrightarrow> rnd (s + x) \<le> rnd (s' + x')"
  by (intro rnd_mono) simp

lemma sum_zero: "rnd s = s \<Longrightarrow> rnd (s + 0) = s"
  by simp

end

interpretation fl: rounding fl
proof unfold_locales
  show "fl q \<le> fl q'" if "q \<le> q'" for q q' using that by (rule fl_mono)
  show "fl (fl q) = fl q" for q by (rule fl_rep) (rule rep64_fl)
  show "fl 0 = 0" by simp
qed

end
