(* ===== verification/Values.thy ===== *)
theory Values
  imports GoFloat
begin

text \<open>
  Go values of type \<open>any\<close> and the JSON documents the program decodes into them.

  A \<open>json.RawMessage\<close> is modelled by what \<open>encoding/json\<close> reads in it: \<open>Some j\<close> for a well-formed
  document with syntax tree \<open>j\<close>, \<open>None\<close> for empty or malformed bytes. A number literal is the
  rational it denotes; the decoder rounds it to \<open>float64\<close> and reports an error when it overflows.
  Object members are listed in source order (a later duplicate wins).
\<close>

datatype json =
    JNull
  | JBool bool
  | JNum rat
  | JStr string
  | JArr "json list"
  | JObj "(string \<times> json) list"

type_synonym raw = "json option"

text \<open>
  The dynamic type of a Go \<open>any\<close>. JSON only produces \<open>ANil\<close>, \<open>ABool\<close>, \<open>AFloat\<close>, \<open>AStr\<close>, \<open>AArr\<close>
  and \<open>AObj\<close>; a caller of the Go SDK can also put an \<open>int\<close>, an \<open>int64\<close> or a value of any other
  type (\<open>AOther\<close>, with its type's name) into a context.
\<close>

datatype any =
    ANil
  | ABool bool
  | AInt int
  | AInt64 int
  | AFloat float64
  | AStr string
  | AArr "any list"
  | AObj "(string \<times> any) list"
  | AOther string

section \<open>json.Unmarshal\<close>

text \<open>
  Into a variable of type \<open>any\<close>: the value left in the variable and whether there was no error.
  An overflowing number is an error and leaves \<open>nil\<close> in its place; decoding goes on.
\<close>

definition num_fits :: "rat \<Rightarrow> bool" where
  "num_fits q = (case round64 q of Fin _ \<Rightarrow> True | _ \<Rightarrow> False)"

fun decode_any :: "json \<Rightarrow> any" where
  "decode_any JNull = ANil"
| "decode_any (JBool b) = ABool b"
| "decode_any (JNum q) = (if num_fits q then AFloat (round64 q) else ANil)"
| "decode_any (JStr s) = AStr s"
| "decode_any (JArr js) = AArr (map decode_any js)"
| "decode_any (JObj ms) = AObj (map (\<lambda>(k, j). (k, decode_any j)) ms)"

fun decodes_ok :: "json \<Rightarrow> bool" where
  "decodes_ok (JNum q) = num_fits q"
| "decodes_ok (JArr js) = (\<forall>j \<in> set js. decodes_ok j)"
| "decodes_ok (JObj ms) = (\<forall>m \<in> set ms. decodes_ok (snd m))"
| "decodes_ok _ = True"

definition unmarshal_any :: "raw \<Rightarrow> any \<times> bool" where
  "unmarshal_any r = (case r of None \<Rightarrow> (ANil, False) | Some j \<Rightarrow> (decode_any j, decodes_ok j))"

text \<open>
  Into a \<open>string\<close> and into a \<open>float64\<close>; \<open>None\<close> is an error. JSON \<open>null\<close> is no error: it leaves the
  zero value the variable was declared with.
\<close>

definition unmarshal_string :: "raw \<Rightarrow> string option" where
  "unmarshal_string r = (case r of Some (JStr s) \<Rightarrow> Some s | Some JNull \<Rightarrow> Some [] | _ \<Rightarrow> None)"

definition unmarshal_float :: "raw \<Rightarrow> float64 option" where
  "unmarshal_float r =
     (case r of Some (JNum q) \<Rightarrow> if num_fits q then Some (round64 q) else None
      | Some JNull \<Rightarrow> Some (Fin 0) | _ \<Rightarrow> None)"

text \<open>The standard library's parsers that stay parameters of the model, and the semver package.\<close>

record libs =
  lib_regexp :: "string \<Rightarrow> (string \<Rightarrow> bool) option"
    \<comment> \<open>\<open>regexp.Compile\<close>: \<open>None\<close> on error, else the \<open>MatchString\<close> of the result\<close>
  lib_parse_float :: "string \<Rightarrow> float64 option"
    \<comment> \<open>\<open>strconv.ParseFloat(_, 64)\<close>\<close>
  lib_rfc3339 :: "string \<Rightarrow> int option"
    \<comment> \<open>\<open>time.Parse(time.RFC3339, _)\<close>, as nanoseconds since the epoch\<close>
  lib_semver :: "string \<Rightarrow> nat option"
    \<comment> \<open>\<open>semver.NewVersion\<close>, as the version's rank in semver precedence: \<open>Equal\<close>, \<open>LessThan\<close> and
        \<open>GreaterThan\<close> compare ranks\<close>

text \<open>Libraries that reject every input, for examples that do not need them.\<close>

definition no_libs :: libs where
  "no_libs = \<lparr>lib_regexp = (\<lambda>_. None), lib_parse_float = (\<lambda>_. None), lib_rfc3339 = (\<lambda>_. None),
     lib_semver = (\<lambda>_. None)\<rparr>"

end
