(* ===== verification/Model.thy ===== *)
theory Model
  imports Values
begin

text \<open>
  The data model, \<open>internal/model\<close>: flags with their per-environment configurations, segments,
  contexts, reasons, projects; \<open>Flag.Validate\<close>, \<open>Segment.Validate\<close> and \<open>Context.GetAttribute\<close>.

  Structs are records with the fields in the source's order, each field prefixed with the struct's
  short name. A pointer field is an \<open>option\<close>; a time is an instant in nanoseconds. The lemmas
  characterise what validation accepts, on every branch, and that acceptance does not depend on
  the order in which Go visits the environments.
\<close>

section \<open>clause.go\<close>

datatype operator =
    OpIn | OpEndsWith | OpStartsWith | OpMatches | OpContains
  | OpLessThan | OpLessThanOrEq | OpGreaterThan | OpGreaterThanOrEq
  | OpBefore | OpAfter | OpSemVerEqual | OpSemVerLessThan | OpSemVerGreaterThan
  | OpSegmentMatch
  | OpUnknown string \<comment> \<open>any other string\<close>

record clause =
  cl_attribute :: string
  cl_op :: operator
  cl_values :: "raw list"
  cl_negate :: bool

section \<open>context.go\<close>

record eval_context =
  ctx_kind :: string
  ctx_key :: string
  ctx_anonymous :: bool
  ctx_attributes :: "any gomap"
  ctx_private :: "string list"

definition get_attribute :: "eval_context \<Rightarrow> string \<Rightarrow> any option" where
  "get_attribute c name =
     (if name = ''key'' then Some (AStr (ctx_key c))
      else if name = ''kind'' then Some (AStr (ctx_kind c))
      else if name = ''anonymous'' then Some (ABool (ctx_anonymous c))
      else mget (ctx_attributes c) name)"

section \<open>flag.go\<close>

datatype variation_type = TypeBoolean | TypeString | TypeNumber | TypeJSON | TypeOther string

record variation =
  var_id :: string
  var_name :: string
  var_description :: string
  var_value :: raw

record weighted_variation =
  wv_variation :: int
  wv_weight :: int

record rollout =
  ro_variations :: "weighted_variation list"
  ro_bucket_by :: string
  ro_seed :: "int option"
  ro_is_experiment :: bool

record variation_or_rollout =
  vr_variation :: "int option"
  vr_rollout :: "rollout option"

record rule =
  rule_id :: string
  rule_description :: string
  rule_clauses :: "clause list"
  rule_serve :: variation_or_rollout

record target =
  tg_variation :: int
  tg_context_keys :: "string list"

record prerequisite =
  pq_flag_key :: string
  pq_variation :: int

record flag_config =
  cfg_on :: bool
  cfg_prerequisites :: "prerequisite list"
  cfg_targets :: "target list"
  cfg_rules :: "rule list"
  cfg_fallthrough :: variation_or_rollout
  cfg_off_variation :: "int option"
  cfg_salt :: string
  cfg_track_events :: bool
  cfg_version :: int

record flag =
  flag_key :: string
  flag_name :: string
  flag_description :: string
  flag_type :: variation_type
  flag_variations :: "variation list"
  flag_tags :: "string list"
  flag_temporary :: bool
  flag_archived :: bool
  flag_created_at :: int
  flag_updated_at :: int
  flag_environments :: "flag_config option gomap"

section \<open>segment.go, reason.go, environment.go\<close>

record segment_rule =
  sr_id :: string
  sr_clauses :: "clause list"
  sr_weight :: "int option"
  sr_bucket_by :: string

record segment =
  seg_key :: string
  seg_name :: string
  seg_description :: string
  seg_included :: "string list"
  seg_excluded :: "string list"
  seg_rules :: "segment_rule list"
  seg_salt :: string
  seg_version :: int

datatype reason_kind =
    ReasonOff | ReasonFallthrough | ReasonTargetMatch | ReasonRuleMatch
  | ReasonPrerequisiteFailed | ReasonError

datatype error_kind =
    ErrFlagNotFound | ErrMalformedFlag | ErrWrongType | ErrClientNotReady | ErrPrereqCycle

record reason =
  rs_kind :: reason_kind
  rs_rule_index :: "int option"
  rs_rule_id :: string
  rs_prerequisite_key :: string
  rs_error_kind :: "error_kind option"
  rs_in_experiment :: bool

text \<open>The composite literal \<open>model.Reason{Kind: k}\<close>: every other field is its zero value.\<close>

definition reason_of :: "reason_kind \<Rightarrow> reason" where
  "reason_of k = \<lparr>rs_kind = k, rs_rule_index = None, rs_rule_id = [], rs_prerequisite_key = [],
                  rs_error_kind = None, rs_in_experiment = False\<rparr>"

definition error_reason :: "error_kind \<Rightarrow> reason" where
  "error_reason e = (reason_of ReasonError)\<lparr>rs_error_kind := Some e\<rparr>"

datatype sdk_key_type = SDKKeyServer | SDKKeyClient | SDKKeyMobile | SDKKeyOther string

record sdk_key =
  sk_value :: string
  sk_type :: sdk_key_type
  sk_created_at :: int

record environment =
  env_key :: string
  env_name :: string
  env_color :: string
  env_project_key :: string
  env_sdk_keys :: "sdk_key list"
  env_version :: int

record project =
  proj_key :: string
  proj_name :: string
  proj_description :: string
  proj_environments :: "environment list"

section \<open>Validation\<close>

text \<open>The outcome of a check: accepted, rejected with an error, or a nil dereference.\<close>

datatype 'e check = Accept | Reject 'e | NilPanic

fun and_then :: "'e check \<Rightarrow> 'e check \<Rightarrow> 'e check" where
  "and_then Accept c = c"
| "and_then c _ = c"

datatype validate_error =
    TooFewVariations nat
  | OffVariationRange int
  | EmptyRuleID nat
  | DuplicateRuleID string
  | RuleVariationRange string int
  | RolloutVariationRange string int
  | RolloutWeightSum string int
  | IncludedAndExcluded string

definition in_range :: "nat \<Rightarrow> int \<Rightarrow> bool" where
  "in_range n i \<longleftrightarrow> 0 \<le> i \<and> i < int n"

text \<open>\<open>validateRollout\<close>: the weights are added in \<open>int\<close>, so the sum wraps around.\<close>

fun rollout_loop :: "nat \<Rightarrow> string \<Rightarrow> weighted_variation list \<Rightarrow> int \<Rightarrow> validate_error check" where
  "rollout_loop n rid [] acc = (if acc \<noteq> 100000 then Reject (RolloutWeightSum rid acc) else Accept)"
| "rollout_loop n rid (wv # wvs) acc =
     (if \<not> in_range n (wv_variation wv) then Reject (RolloutVariationRange rid (wv_variation wv))
      else rollout_loop n rid wvs (wrap64 (acc + wv_weight wv)))"

definition validate_rollout :: "nat \<Rightarrow> string \<Rightarrow> rollout \<Rightarrow> validate_error check" where
  "validate_rollout n rid ro = rollout_loop n rid (ro_variations ro) 0"

text \<open>The body of the loop over \<open>cfg.Rules\<close> in \<open>validateFlagConfig\<close>.\<close>

definition validate_rule :: "nat \<Rightarrow> nat \<Rightarrow> string list \<Rightarrow> rule \<Rightarrow> validate_error check" where
  "validate_rule n i seen r =
     (if rule_id r = [] then Reject (EmptyRuleID i)
      else if rule_id r \<in> set seen then Reject (DuplicateRuleID (rule_id r))
      else and_then
        (case vr_variation (rule_serve r) of None \<Rightarrow> Accept
         | Some v \<Rightarrow> if in_range n v then Accept else Reject (RuleVariationRange (rule_id r) v))
        (case vr_rollout (rule_serve r) of None \<Rightarrow> Accept
         | Some ro \<Rightarrow> validate_rollout n (rule_id r) ro))"

fun rules_loop :: "nat \<Rightarrow> nat \<Rightarrow> string list \<Rightarrow> rule list \<Rightarrow> validate_error check" where
  "rules_loop n i seen [] = Accept"
| "rules_loop n i seen (r # rs) =
     and_then (validate_rule n i seen r) (rules_loop n (Suc i) (rule_id r # seen) rs)"

definition validate_flag_config :: "nat \<Rightarrow> flag_config option \<Rightarrow> validate_error check" where
  "validate_flag_config n c =
     (case c of None \<Rightarrow> NilPanic
      | Some cfg \<Rightarrow>
          and_then
            (case cfg_off_variation cfg of None \<Rightarrow> Accept
             | Some v \<Rightarrow> if in_range n v then Accept else Reject (OffVariationRange v))
            (and_then (rules_loop n 0 [] (cfg_rules cfg))
              (case vr_rollout (cfg_fallthrough cfg) of None \<Rightarrow> Accept
               | Some ro \<Rightarrow> validate_rollout n ''fallthrough'' ro)))"

fun envs_loop :: "nat \<Rightarrow> flag_config option gomap \<Rightarrow> validate_error check" where
  "envs_loop n [] = Accept"
| "envs_loop n ((k, c) # es) = and_then (validate_flag_config n c) (envs_loop n es)"

definition flag_validate :: "flag \<Rightarrow> validate_error check" where
  "flag_validate f =
     (let n = length (flag_variations f)
      in if n < 2 then Reject (TooFewVariations n) else envs_loop n (flag_environments f))"

definition segment_validate :: "segment \<Rightarrow> validate_error check" where
  "segment_validate s =
     (case List.find (\<lambda>k. k \<in> set (seg_excluded s)) (seg_included s) of
        None \<Rightarrow> Accept | Some k \<Rightarrow> Reject (IncludedAndExcluded k))"

section \<open>What validation accepts\<close>

lemma and_then_Accept [simp]: "and_then a b = Accept \<longleftrightarrow> a = Accept \<and> b = Accept"
  by (cases a) auto

definition weight_sum :: "weighted_variation list \<Rightarrow> int" where
  "weight_sum wvs = sum_list (map wv_weight wvs)"

lemma weight_sum_simps [simp]:
  "weight_sum [] = 0" "weight_sum (wv # wvs) = wv_weight wv + weight_sum wvs"
  by (simp_all add: weight_sum_def)

definition valid_rollout :: "nat \<Rightarrow> rollout \<Rightarrow> bool" where
  "valid_rollout n ro \<longleftrightarrow>
     (\<forall>wv \<in> set (ro_variations ro). in_range n (wv_variation wv)) \<and>
     wrap64 (weight_sum (ro_variations ro)) = 100000"

definition valid_serve :: "nat \<Rightarrow> variation_or_rollout \<Rightarrow> bool" where
  "valid_serve n vr \<longleftrightarrow>
     (\<forall>v \<in> set_option (vr_variation vr). in_range n v) \<and>
     (\<forall>ro \<in> set_option (vr_rollout vr). valid_rollout n ro)"

text \<open>The specification of an acceptable configuration; \<open>cfg_fallthrough\<close>'s fixed variation and
  the variations of the targets are not part of it, because the code does not look at them.\<close>

definition valid_config :: "nat \<Rightarrow> flag_config \<Rightarrow> bool" where
  "valid_config n cfg \<longleftrightarrow>
     (\<forall>v \<in> set_option (cfg_off_variation cfg). in_range n v) \<and>
     distinct (map rule_id (cfg_rules cfg)) \<and>
     (\<forall>r \<in> set (cfg_rules cfg). rule_id r \<noteq> [] \<and> valid_serve n (rule_serve r)) \<and>
     (\<forall>ro \<in> set_option (vr_rollout (cfg_fallthrough cfg)). valid_rollout n ro)"

lemma rollout_loop_Accept:
  "rollout_loop n rid wvs acc = Accept \<longleftrightarrow>
     (\<forall>wv \<in> set wvs. in_range n (wv_variation wv)) \<and>
     (if wvs = [] then acc else wrap64 (acc + weight_sum wvs)) = 100000"
proof (induction wvs arbitrary: acc)
  case Nil
  then show ?case by simp
next
  case (Cons wv wvs)
  then show ?case by (auto simp: wrap64_add add.assoc)
qed

lemma validate_rollout_Accept: "validate_rollout n rid ro = Accept \<longleftrightarrow> valid_rollout n ro"
  by (auto simp: validate_rollout_def valid_rollout_def rollout_loop_Accept wrap64_def)

lemma validate_rule_Accept:
  "validate_rule n i seen r = Accept \<longleftrightarrow>
     rule_id r \<noteq> [] \<and> rule_id r \<notin> set seen \<and> valid_serve n (rule_serve r)"
  by (auto simp: validate_rule_def valid_serve_def validate_rollout_Accept split: option.splits)

lemma rules_loop_Accept:
  "rules_loop n i seen rs = Accept \<longleftrightarrow>
     distinct (map rule_id rs) \<and> set (map rule_id rs) \<inter> set seen = {} \<and>
     (\<forall>r \<in> set rs. rule_id r \<noteq> [] \<and> valid_serve n (rule_serve r))"
  by (induction rs arbitrary: i seen) (auto simp: validate_rule_Accept)

lemma validate_flag_config_Accept:
  "validate_flag_config n c = Accept \<longleftrightarrow> (\<exists>cfg. c = Some cfg \<and> valid_config n cfg)"
  by (auto simp: validate_flag_config_def valid_config_def rules_loop_Accept validate_rollout_Accept
      split: option.splits)

lemma envs_loop_Accept:
  "envs_loop n es = Accept \<longleftrightarrow> (\<forall>(k, c) \<in> set es. \<exists>cfg. c = Some cfg \<and> valid_config n cfg)"
  by (induction n es rule: envs_loop.induct) (auto simp: validate_flag_config_Accept)

text \<open>
  \<open>Flag.Validate\<close> accepts a flag exactly when it has at least two variations and every
  environment holds a non-nil configuration whose off variation, rule variations and rollouts are
  in range, whose rule IDs are non-empty and distinct and whose rollout weights sum, in 64-bit
  arithmetic, to 100000.
\<close>

theorem flag_validate_iff:
  "flag_validate f = Accept \<longleftrightarrow>
     2 \<le> length (flag_variations f) \<and>
     (\<forall>(k, c) \<in> set (flag_environments f).
        \<exists>cfg. c = Some cfg \<and> valid_config (length (flag_variations f)) cfg)"
  by (auto simp: flag_validate_def Let_def envs_loop_Accept)

definition serve_fixed :: "int \<Rightarrow> variation_or_rollout" where
  "serve_fixed v = \<lparr>vr_variation = Some v, vr_rollout = None\<rparr>"

definition serve_split :: "(int \<times> int) list \<Rightarrow> variation_or_rollout" where
  "serve_split vws = \<lparr>vr_variation = None, vr_rollout = Some \<lparr>
     ro_variations = map (\<lambda>(v, w). \<lparr>wv_variation = v, wv_weight = w\<rparr>) vws,
     ro_bucket_by = ''key'', ro_seed = None, ro_is_experiment = False\<rparr>\<rparr>"

text \<open>A boolean flag and a configuration that splits its users evenly.\<close>

definition sample_config :: flag_config where
  "sample_config = \<lparr>cfg_on = True, cfg_prerequisites = [], cfg_targets = [], cfg_rules = [],
     cfg_fallthrough = serve_split [(0, 50000), (1, 50000)], cfg_off_variation = Some 0,
     cfg_salt = ''salt'', cfg_track_events = False, cfg_version = 1\<rparr>"

definition bool_flag :: "string \<Rightarrow> flag_config option gomap \<Rightarrow> flag" where
  "bool_flag k envs = \<lparr>flag_key = k, flag_name = k, flag_description = [], flag_type = TypeBoolean,
     flag_variations =
       [\<lparr>var_id = ''v0'', var_name = [], var_description = [], var_value = Some (JBool False)\<rparr>,
        \<lparr>var_id = ''v1'', var_name = [], var_description = [], var_value = Some (JBool True)\<rparr>],
     flag_tags = [], flag_temporary = False, flag_archived = False, flag_created_at = 0,
     flag_updated_at = 0, flag_environments = envs\<rparr>"

lemma flag_validate_iff_witness:
  "flag_validate (bool_flag ''f'' [(''prod'', Some sample_config)]) = Accept"
  by (simp add: flag_validate_iff bool_flag_def valid_config_def sample_config_def serve_split_def
      valid_rollout_def in_range_def wrap64_def)

text \<open>A nil configuration is dereferenced: nothing but an earlier error avoids the panic.\<close>

lemma flag_validate_nil_config:
  "2 \<le> length (flag_variations f) \<Longrightarrow> flag_environments f = [(k, None)] \<Longrightarrow> flag_validate f = NilPanic"
  by (simp add: flag_validate_def Let_def validate_flag_config_def)

lemma segment_validate_iff:
  "segment_validate s = Accept \<longleftrightarrow> set (seg_included s) \<inter> set (seg_excluded s) = {}"
  by (auto simp: segment_validate_def find_None_iff find_Some_iff split: option.splits dest: nth_mem)

end
