(* ===== verification/Operators.thy ===== *)
theory Operators
  imports Model
begin

text \<open>
  The clause operators, \<open>internal/eval/operators.go\<close>: \<open>matchOperator\<close> and the matchers it
  dispatches to, over a decoded attribute value and the raw clause value.

  The regular-expression cache is left out: a pattern is compiled to the same matcher each time, so
  a cached matcher and a fresh one agree. The lemmas describe the operators that the conformance
  fixtures exercise and the zero value that a JSON \<open>null\<close> stands for.
\<close>

fun json_values_equal :: "any \<Rightarrow> any \<Rightarrow> bool" where
  "json_values_equal (AStr a) b = (case b of AStr b' \<Rightarrow> a = b' | _ \<Rightarrow> False)"
| "json_values_equal (AFloat a) b = (case b of AFloat b' \<Rightarrow> feq a b' | _ \<Rightarrow> False)"
| "json_values_equal (ABool a) b = (case b of ABool b' \<Rightarrow> a = b' | _ \<Rightarrow> False)"
| "json_values_equal ANil b = (b = ANil)"
| "json_values_equal _ _ = False"

definition match_in :: "any \<Rightarrow> raw \<Rightarrow> bool" where
  "match_in av cv = (let (v, ok) = unmarshal_any cv in ok \<and> json_values_equal av v)"

definition match_string_op :: "any \<Rightarrow> raw \<Rightarrow> (string \<Rightarrow> string \<Rightarrow> bool) \<Rightarrow> bool" where
  "match_string_op av cv fn =
     (case av of AStr a \<Rightarrow> (case unmarshal_string cv of None \<Rightarrow> False | Some c \<Rightarrow> fn a c) | _ \<Rightarrow> False)"

definition match_regex :: "libs \<Rightarrow> any \<Rightarrow> raw \<Rightarrow> bool" where
  "match_regex L av cv =
     (case av of AStr a \<Rightarrow>
        (case unmarshal_string cv of None \<Rightarrow> False
         | Some pattern \<Rightarrow> (case lib_regexp L pattern of None \<Rightarrow> False | Some match \<Rightarrow> match a))
      | _ \<Rightarrow> False)"

definition to_float64 :: "libs \<Rightarrow> any \<Rightarrow> float64 option" where
  "to_float64 L v =
     (case v of AFloat x \<Rightarrow> Some x
      | AInt i \<Rightarrow> Some (float_of_int i)
      | AInt64 i \<Rightarrow> Some (float_of_int i)
      | AStr s \<Rightarrow> lib_parse_float L s
      | _ \<Rightarrow> None)"

definition match_numeric :: "libs \<Rightarrow> any \<Rightarrow> raw \<Rightarrow> (float64 \<Rightarrow> float64 \<Rightarrow> bool) \<Rightarrow> bool" where
  "match_numeric L av cv fn =
     (case to_float64 L av of None \<Rightarrow> False
      | Some a \<Rightarrow> (case unmarshal_float cv of None \<Rightarrow> False | Some c \<Rightarrow> fn a c))"

text \<open>\<open>time.UnixMilli(int64(t))\<close> as an instant in nanoseconds.\<close>

definition unix_milli :: "float64 \<Rightarrow> int" where
  "unix_milli t = int_of_float t * 1000000"

definition parse_time :: "libs \<Rightarrow> any \<Rightarrow> int option" where
  "parse_time L v =
     (case v of AStr s \<Rightarrow> lib_rfc3339 L s | AFloat t \<Rightarrow> Some (unix_milli t) | _ \<Rightarrow> None)"

text \<open>A string that is not a time falls through to the second decoding, into a \<open>float64\<close>.\<close>

definition parse_time_from_json :: "libs \<Rightarrow> raw \<Rightarrow> int option" where
  "parse_time_from_json L r =
     (case Option.bind (unmarshal_string r) (lib_rfc3339 L) of Some t \<Rightarrow> Some t
      | None \<Rightarrow> map_option unix_milli (unmarshal_float r))"

definition match_datetime :: "libs \<Rightarrow> any \<Rightarrow> raw \<Rightarrow> (int \<Rightarrow> int \<Rightarrow> bool) \<Rightarrow> bool" where
  "match_datetime L av cv fn =
     (case parse_time L av of None \<Rightarrow> False
      | Some a \<Rightarrow> (case parse_time_from_json L cv of None \<Rightarrow> False | Some b \<Rightarrow> fn a b))"

definition match_semver :: "libs \<Rightarrow> any \<Rightarrow> raw \<Rightarrow> (nat \<Rightarrow> nat \<Rightarrow> bool) \<Rightarrow> bool" where
  "match_semver L av cv fn =
     (case av of AStr s \<Rightarrow>
        (case lib_semver L s of None \<Rightarrow> False
         | Some a \<Rightarrow>
             (case unmarshal_string cv of None \<Rightarrow> False
              | Some bs \<Rightarrow> (case lib_semver L bs of None \<Rightarrow> False | Some b \<Rightarrow> fn a b)))
      | _ \<Rightarrow> False)"

fun match_operator :: "libs \<Rightarrow> operator \<Rightarrow> any \<Rightarrow> raw \<Rightarrow> bool" where
  "match_operator L OpIn av cv = match_in av cv"
| "match_operator L OpStartsWith av cv = match_string_op av cv (\<lambda>a c. prefix c a)"
| "match_operator L OpEndsWith av cv = match_string_op av cv (\<lambda>a c. suffix c a)"
| "match_operator L OpContains av cv = match_string_op av cv (\<lambda>a c. sublist c a)"
| "match_operator L OpMatches av cv = match_regex L av cv"
| "match_operator L OpLessThan av cv = match_numeric L av cv (\<lambda>a b. a < b)"
| "match_operator L OpLessThanOrEq av cv = match_numeric L av cv (\<lambda>a b. a \<le> b)"
| "match_operator L OpGreaterThan av cv = match_numeric L av cv (\<lambda>a b. b < a)"
| "match_operator L OpGreaterThanOrEq av cv = match_numeric L av cv (\<lambda>a b. b \<le> a)"
| "match_operator L OpBefore av cv = match_datetime L av cv (\<lambda>a b. a < b)"
| "match_operator L OpAfter av cv = match_datetime L av cv (\<lambda>a b. b < a)"
| "match_operator L OpSemVerEqual av cv = match_semver L av cv (\<lambda>a b. a = b)"
| "match_operator L OpSemVerLessThan av cv = match_semver L av cv (\<lambda>a b. a < b)"
| "match_operator L OpSemVerGreaterThan av cv = match_semver L av cv (\<lambda>a b. b < a)"
| "match_operator L OpSegmentMatch av cv = False"
| "match_operator L (OpUnknown s) av cv = False"

section \<open>Lemmas\<close>

lemmas match_defs = match_in_def match_string_op_def match_regex_def match_numeric_def
  match_datetime_def match_semver_def

lemma json_values_equal_scalar:
  "json_values_equal a b \<Longrightarrow>
     (\<exists>s. a = AStr s \<and> b = AStr s) \<or> (\<exists>q. a = AFloat q \<and> b = AFloat q \<and> q \<noteq> NaN) \<or>
     (\<exists>p. a = ABool p \<and> b = ABool p) \<or> (a = ANil \<and> b = ANil)"
  by (induction a b rule: json_values_equal.induct) (auto simp: feq_def split: any.splits)

text \<open>
  The order operators exclude each other, whatever the two values are: no context is both
  before and after, or both less and greater.
\<close>

lemma flt_asym: "flt a b \<Longrightarrow> \<not> flt b a"
  by (induction a b rule: flt.induct) auto

text \<open>Each matcher holds exactly when both sides decode and the comparison holds of the results.\<close>

lemma match_numeric_iff:
  "match_numeric L av cv p \<longleftrightarrow>
     (\<exists>a b. to_float64 L av = Some a \<and> unmarshal_float cv = Some b \<and> p a b)"
  by (auto simp: match_numeric_def split: option.splits)

lemma match_datetime_iff:
  "match_datetime L av cv p \<longleftrightarrow>
     (\<exists>a b. parse_time L av = Some a \<and> parse_time_from_json L cv = Some b \<and> p a b)"
  by (auto simp: match_datetime_def split: option.splits)

lemma match_semver_iff:
  "match_semver L av cv p \<longleftrightarrow>
     (\<exists>s t a b. av = AStr s \<and> lib_semver L s = Some a \<and> unmarshal_string cv = Some t \<and>
        lib_semver L t = Some b \<and> p a b)"
  by (cases av; cases "unmarshal_string cv") (auto simp: match_semver_def split: option.splits)

lemmas match_iffs = match_numeric_iff match_datetime_iff match_semver_iff

lemma float_order_exclusive: "a < b \<Longrightarrow> \<not> b < a" "a < b \<Longrightarrow> \<not> b \<le> a" for a b :: float64
  by (auto simp: float_ops feq_def dest: flt_asym)

text \<open>
  The order operators are strict and mutually exclusive on every pair of values (NaN, strings
  and unparsable values included): a value is never both less than and greater than, before and
  after, or semver-less and semver-greater than the same clause value, and \<open>lessThan\<close> excludes
  \<open>greaterThanOrEqual\<close>.
\<close>

theorem order_operators_exclusive:
  "\<not> (match_operator L OpLessThan av cv \<and> match_operator L OpGreaterThan av cv) \<and>
   \<not> (match_operator L OpLessThan av cv \<and> match_operator L OpGreaterThanOrEq av cv) \<and>
   \<not> (match_operator L OpBefore av cv \<and> match_operator L OpAfter av cv) \<and>
   \<not> (match_operator L OpSemVerLessThan av cv \<and> match_operator L OpSemVerGreaterThan av cv) \<and>
   \<not> (match_operator L OpSemVerLessThan av cv \<and> match_operator L OpSemVerEqual av cv)"
  by (auto simp: match_iffs dest: float_order_exclusive)

lemma null_is_the_empty_string:
  "match_operator L OpStartsWith (AStr s) (Some JNull)"
  "match_operator L OpContains (AStr s) (Some JNull)"
  by (simp_all add: match_defs unmarshal_string_def)

end
