(* ===== verification/Bucket.thy ===== *)
theory Bucket
  imports Operators Sha1
begin

text \<open>
  Bucketing, \<open>internal/eval/bucket.go\<close>: the hash input, the first fifteen hexadecimal digits of its
  SHA-1 digest, the number they denote and its quotient by \<open>BucketScale\<close> in \<open>float64\<close>.

  The lemmas show that the parse never fails, that the number is the digest's first sixty bits, and
  that a bucket lies between 0.0 and 1.0, both ends included.
\<close>

section \<open>The code\<close>

definition bucket_scale :: int where
  "bucket_scale = 0xFFFFFFFFFFFFFFF"

definition stringify_bucket_value :: "any \<Rightarrow> string option" where
  "stringify_bucket_value v =
     (case v of AStr s \<Rightarrow> Some s
      | AInt i \<Rightarrow> Some (itoa i)
      | AInt64 i \<Rightarrow> Some (itoa i)
      | AFloat x \<Rightarrow>
          if feq x (ftrunc x) \<and> fabs x < Fin 1000000000000000 then Some (itoa (int_of_float x)) else None
      | _ \<Rightarrow> None)"

definition hash_input :: "string \<Rightarrow> string \<Rightarrow> int option \<Rightarrow> string \<Rightarrow> string" where
  "hash_input key salt seed id_str =
     (case seed of Some sd \<Rightarrow> itoa sd @ ''.'' @ id_str
      | None \<Rightarrow> key @ ''.'' @ salt @ ''.'' @ id_str)"

text \<open>From the digest to the bucket.\<close>

definition digest_bucket :: "int list \<Rightarrow> float64" where
  "digest_bucket dg =
     (case parse_int_hex (take 15 (hex_encode dg)) of None \<Rightarrow> Fin 0
      | Some n \<Rightarrow> float_of_int n / float_of_int bucket_scale)"

definition default_key :: "string \<Rightarrow> string" where
  "default_key bucket_by = (if bucket_by = [] then ''key'' else bucket_by)"

definition compute_bucket :: "eval_context \<Rightarrow> string \<Rightarrow> string \<Rightarrow> string \<Rightarrow> int option \<Rightarrow> float64" where
  "compute_bucket c bucket_by key salt seed =
     (case get_attribute c (default_key bucket_by) of None \<Rightarrow> Fin 0
      | Some id_value \<Rightarrow>
          (case stringify_bucket_value id_value of None \<Rightarrow> Fin 0
           | Some id_str \<Rightarrow> digest_bucket (sha1_sum (hash_input key salt seed id_str))))"

section \<open>The digest\<close>

lemma be_bytes_length [simp]: "length (be_bytes k x) = k"
  by (induction k arbitrary: x) auto

lemma be_bytes_range: "b \<in> set (be_bytes k x) \<Longrightarrow> 0 \<le> b \<and> b < 256"
  by (induction k arbitrary: x) auto

lemma sha_bytes_props: "length (sha_bytes s) = 20 \<and> (\<forall>b \<in> set (sha_bytes s). 0 \<le> b \<and> b < 256)"
  by (cases s) (auto dest: be_bytes_range)

lemma sha1_sum_props:
  "length (sha1_sum s) = 20" "b \<in> set (sha1_sum s) \<Longrightarrow> 0 \<le> b \<and> b < 256"
  using sha_bytes_props by (simp_all add: sha1_sum_def)

lemma hex_val_char: "0 \<le> d \<Longrightarrow> d < 16 \<Longrightarrow> hex_val (hex_char d) = Some d"
proof -
  assume d: "0 \<le> d" "d < 16"
  then have "d \<in> {0, 1, 2, 3, 4, 5, 6, 7, 8, 9, 10, 11, 12, 13, 14, 15}" by (simp; presburger)
  then show ?thesis by (auto simp: hex_val_def hex_char_def byte_def Let_def)
qed

lemma hex_char_not_sign: "0 \<le> d \<Longrightarrow> d < 16 \<Longrightarrow> hex_char d \<noteq> CHR ''-'' \<and> hex_char d \<noteq> CHR ''+''"
proof -
  assume "0 \<le> d" "d < 16"
  then have "hex_val (hex_char d) = Some d" by (rule hex_val_char)
  moreover have "hex_val (CHR ''-'') = None" "hex_val (CHR ''+'') = None"
    by (simp_all add: hex_val_def byte_def)
  ultimately show ?thesis by auto
qed

definition is_digest :: "int list \<Rightarrow> bool" where
  "is_digest dg \<longleftrightarrow> length dg = 20 \<and> (\<forall>b \<in> set dg. 0 \<le> b \<and> b < 256)"

lemma is_digest_sha1: "is_digest (sha1_sum s)"
  by (simp add: is_digest_def sha1_sum_props)

definition be_number :: "int list \<Rightarrow> int" where
  "be_number bs = foldl (\<lambda>a b. 256 * a + b) 0 bs"

text \<open>The first sixty bits of a digest, big-endian.\<close>

definition digest_bits :: "int list \<Rightarrow> int" where
  "digest_bits dg = be_number (take 8 dg) div 16"

lemma hex_encode_simps [simp]:
  "hex_encode [] = []"
  "hex_encode (b # bs) = hex_char (b div 16) # hex_char (b mod 16) # hex_encode bs"
  by (simp_all add: hex_encode_def)

lemma hex_encode_append: "hex_encode (xs @ ys) = hex_encode xs @ hex_encode ys"
  by (simp add: hex_encode_def)

lemma hex_encode_length: "length (hex_encode bs) = 2 * length bs"
  by (induction bs) auto

lemma hex_digits_encode:
  "\<forall>b \<in> set bs. 0 \<le> b \<and> b < 256 \<Longrightarrow>
   hex_digits acc (hex_encode bs @ cs) = hex_digits (foldl (\<lambda>a b. 256 * a + b) acc bs) cs"
proof (induction bs arbitrary: acc)
  case (Cons b bs)
  then have "16 * (16 * acc + b div 16) + b mod 16 = 256 * acc + b" by simp
  moreover have "hex_val (hex_char (b div 16)) = Some (b div 16)" "hex_val (hex_char (b mod 16)) = Some (b mod 16)"
    using Cons.prems by (auto intro!: hex_val_char)
  ultimately show ?case using Cons by (simp add: add.commute)
qed simp

lemma be_number_range:
  "\<forall>b \<in> set bs. 0 \<le> b \<and> b < 256 \<Longrightarrow> 0 \<le> be_number bs \<and> be_number bs < 256 ^ length bs"
proof (induction bs rule: rev_induct)
  case (snoc b bs)
  then show ?case by (auto simp: be_number_def)
qed (simp add: be_number_def)

lemma digest_split:
  assumes "is_digest dg"
  obtains xs b ys where "dg = xs @ b # ys" "length xs = 7" "take 8 dg = xs @ [b]"
proof
  show "dg = take 7 dg @ dg ! 7 # drop 8 dg"
    using assms id_take_nth_drop [of 7 dg] by (simp add: is_digest_def)
  then show "take 8 dg = take 7 dg @ [dg ! 7]"
    using assms take_Suc_conv_app_nth [of 7 dg] by (simp add: is_digest_def)
qed (use assms in \<open>simp add: is_digest_def\<close>)

lemma digest_bits_range: "is_digest dg \<Longrightarrow> 0 \<le> digest_bits dg \<and> digest_bits dg < 2 ^ 60"
proof -
  assume d: "is_digest dg"
  then have "\<forall>b \<in> set (take 8 dg). 0 \<le> b \<and> b < 256" by (auto simp: is_digest_def dest: in_set_takeD)
  from be_number_range [OF this] d
  have "0 \<le> be_number (take 8 dg)" "be_number (take 8 dg) < 16 * 2 ^ 60"
    by (simp_all add: is_digest_def)
  then show ?thesis unfolding digest_bits_def by linarith
qed

lemma parse_digest: "is_digest dg \<Longrightarrow> parse_int_hex (take 15 (hex_encode dg)) = Some (digest_bits dg)"
proof -
  assume d: "is_digest dg"
  then obtain xs b ys where dg: "dg = xs @ b # ys" "length xs = 7" "take 8 dg = xs @ [b]"
    by (rule digest_split)
  have rng: "\<forall>x \<in> set xs. 0 \<le> x \<and> x < 256" "0 \<le> b" "b < 256"
    using d unfolding is_digest_def dg by auto
  have t: "take 15 (hex_encode dg) = hex_encode xs @ [hex_char (b div 16)]"
    using dg(2) by (simp add: dg(1) hex_encode_append hex_encode_length)
  have v: "hex_digits 0 (take 15 (hex_encode dg)) = Some (16 * be_number xs + b div 16)"
    unfolding t using hex_digits_encode [OF rng(1), of 0 "[hex_char (b div 16)]"] rng
    by (simp add: be_number_def hex_val_char)
  have eq: "digest_bits dg = 16 * be_number xs + b div 16"
    unfolding digest_bits_def dg(3) by (simp add: be_number_def)
  obtain c cs where c: "take 15 (hex_encode dg) = c # cs" "c \<noteq> CHR ''-''" "c \<noteq> CHR ''+''"
    using rng dg(2) hex_char_not_sign unfolding t by (cases xs) auto
  have "int64_range (digest_bits dg)"
    using digest_bits_range [OF d] by (simp add: int64_range_def)
  then show ?thesis using v c by (simp add: parse_int_hex_def eq)
qed

section \<open>The bucket\<close>

lemma fl_at:
  assumes "2 powi e \<le> \<bar>q\<bar>" "\<bar>q\<bar> < 2 powi (e + 1)" "- 1022 \<le> e"
  shows "fl q = of_int (rne (q / 2 powi (e - 52))) * 2 powi (e - 52)"
proof -
  have "bexp q = e" using assms by (intro bexp_unique)
  moreover have "(0 :: rat) < 2 powi e" by simp
  then have "q \<noteq> 0" using assms(1) by (metis abs_zero linorder_not_le)
  ultimately show ?thesis using assms(3) by (simp add: fl_def ulp_def)
qed

lemma round64_small: "\<bar>q\<bar> \<le> 2 ^ 1023 \<Longrightarrow> round64 q = Fin (fl q)"
proof -
  assume q: "\<bar>q\<bar> \<le> 2 ^ 1023"
  have big: "fl (2 ^ 1023) = 2 ^ 1023"
    by (rule fl_rep, rule rep64_I [of _ 1 1023]) simp_all
  have "fl q \<le> 2 ^ 1023" "- (2 ^ 1023) \<le> fl q"
    using fl_mono [of q "2 ^ 1023"] fl_mono [of "- (2 ^ 1023)" q] q unfolding fl_minus big by auto
  then show ?thesis by (simp add: round64_def Let_def)
qed

lemma fl_scale: "fl (of_int bucket_scale) = 2 ^ 60"
proof -
  have "rne (1152921504606846975 / 128) = 9007199254740992" by (rule rne_near) simp_all
  then show ?thesis by (subst fl_at [of 59]) (simp_all add: bucket_scale_def)
qed

lemma rep64_scaled: "rep64 (fl (of_int n) / 2 ^ 60)"
proof (cases "n = 0")
  case True
  then show ?thesis by (intro rep64_I [of _ 0 0]) simp_all
next
  case False
  then have "1 \<le> \<bar>of_int n :: rat\<bar>" by linarith
  then have "bexp 1 \<le> bexp (of_int n)" by (intro bexp_mono) simp_all
  moreover have "bexp 1 = 0" by (rule bexp_unique) simp_all
  ultimately have e: "0 \<le> bexp (of_int n)" by simp
  define d where d: "d = bexp (of_int n) - 52"
  have u: "ulp (of_int n) = 2 powi d" using e by (simp add: ulp_def d)
  have "(2 :: rat) powi d = 2 ^ 60 * 2 powi (d - 60)" using powi_shift [of "d - 60" 60] by simp
  then have "fl (of_int n) / 2 ^ 60 = of_int (rne (of_int n / ulp (of_int n))) * 2 powi (d - 60)"
    using False by (simp add: fl_def u)
  then show ?thesis
    using mantissa_bound [of "of_int n"] False e by (intro rep64_I) (auto simp: d)
qed

lemma scaled_bounds: "0 \<le> n \<Longrightarrow> n \<le> 2 ^ 60 \<Longrightarrow> 0 \<le> fl (of_int n) \<and> fl (of_int n) \<le> 2 ^ 60"
proof -
  assume n: "0 \<le> n" "n \<le> 2 ^ 60"
  have "fl (2 ^ 60) = 2 ^ 60" by (rule fl_rep, rule rep64_I [of _ 1 60]) simp_all
  moreover have "fl (of_int n) \<le> fl (2 ^ 60)" using n by (intro fl_mono) simp
  ultimately show ?thesis using n by (simp add: fl_nonneg)
qed

lemma bucket_quotient:
  "0 \<le> n \<Longrightarrow> n \<le> 2 ^ 60 \<Longrightarrow>
   float_of_int n / float_of_int bucket_scale = Fin (fl (of_int n) / 2 ^ 60)"
proof -
  assume n: "0 \<le> n" "n \<le> 2 ^ 60"
  have "float_of_int n = Fin (fl (of_int n))"
    unfolding float_of_int_def using n by (intro round64_small) simp
  moreover have "float_of_int bucket_scale = Fin (2 ^ 60)"
    unfolding float_of_int_def fl_scale [symmetric]
    by (rule round64_small) (simp add: bucket_scale_def)
  moreover have "round64 (fl (of_int n) / 2 ^ 60) = Fin (fl (of_int n) / 2 ^ 60)"
    using scaled_bounds [OF n] fl_rep [OF rep64_scaled, of n] by (subst round64_small) auto
  ultimately show ?thesis by (simp add: divide_float64_def)
qed

lemma digest_bucket_value:
  "is_digest dg \<Longrightarrow> digest_bucket dg = Fin (fl (of_int (digest_bits dg)) / 2 ^ 60)"
  using digest_bits_range [of dg] by (simp add: digest_bucket_def parse_digest bucket_quotient)

lemma compute_bucket_range:
  "\<exists>b. compute_bucket c bucket_by key salt seed = Fin b \<and> rep64 b \<and> 0 \<le> b \<and> b \<le> 1"
proof -
  have dg: "\<exists>b. digest_bucket (sha1_sum s) = Fin b \<and> rep64 b \<and> 0 \<le> b \<and> b \<le> 1" for s
  proof (intro exI conjI)
    define n where "n = digest_bits (sha1_sum s)"
    have n: "0 \<le> n" "n \<le> 2 ^ 60"
      using digest_bits_range [OF is_digest_sha1, of s] by (simp_all add: n_def)
    show "digest_bucket (sha1_sum s) = Fin (fl (of_int n) / 2 ^ 60)"
      by (simp add: digest_bucket_value is_digest_sha1 n_def)
    show "rep64 (fl (of_int n) / 2 ^ 60)" by (rule rep64_scaled)
    show "0 \<le> fl (of_int n) / 2 ^ 60" "fl (of_int n) / 2 ^ 60 \<le> 1"
      using scaled_bounds [OF n] by simp_all
  qed
  have "rep64 0" by (intro rep64_I [of _ 0 0]) simp_all
  then show ?thesis using dg by (auto simp: compute_bucket_def split: option.splits)
qed

text \<open>
  A bucket is a finite double between 0.0 and 1.0, both ends included, for every context,
  attribute, key, salt and seed: the hexadecimal parse never fails, and neither does the division.
\<close>

theorem compute_bucket_unit:
  "\<exists>b. compute_bucket c bucket_by key salt seed = Fin b \<and> rep64 b \<and> 0 \<le> b \<and> b \<le> 1"
  by (rule compute_bucket_range)

text \<open>Where the upper end is reached: the conversion of the digest's bits to \<open>float64\<close> rounds up.\<close>

lemma fl_top: "fl (2 ^ 60 - 64) = 2 ^ 60" "fl (2 ^ 60 - 65) = 2 ^ 60 - 128"
proof -
  have "rne ((2 ^ 60 - 64) / 128) = 2 ^ 53"
    by (subst rne_tie [of _ "2 ^ 53 - 1"]) simp_all
  then show "fl (2 ^ 60 - 64) = 2 ^ 60" by (subst fl_at [of 59]) simp_all
  have "rne ((2 ^ 60 - 65) / 128) = 2 ^ 53 - 1" by (rule rne_near) simp_all
  then show "fl (2 ^ 60 - 65) = 2 ^ 60 - 128" by (subst fl_at [of 59]) simp_all
qed

lemma bucket_one_iff:
  assumes "is_digest dg"
  shows "digest_bucket dg = Fin 1 \<longleftrightarrow> 2 ^ 60 - 64 \<le> digest_bits dg"
proof -
  define n where "n = digest_bits dg"
  have n: "0 \<le> n" "n \<le> 2 ^ 60" using digest_bits_range [OF assms] by (simp_all add: n_def)
  have one: "digest_bucket dg = Fin 1 \<longleftrightarrow> fl (of_int n) = 2 ^ 60"
    by (simp add: digest_bucket_value assms n_def)
  show ?thesis
  proof (cases "2 ^ 60 - 64 \<le> n")
    case True
    then have "of_int (2 ^ 60 - 64) \<le> (of_int n :: rat)" by (simp only: of_int_le_iff)
    then have "(2 :: rat) ^ 60 - 64 \<le> of_int n" by simp
    then have "2 ^ 60 \<le> fl (of_int n)" using fl_mono fl_top(1) by metis
    then show ?thesis using True scaled_bounds [OF n] one unfolding n_def by linarith
  next
    case False
    then have "n \<le> 2 ^ 60 - 65" by simp
    then have "(of_int n :: rat) \<le> of_int (2 ^ 60 - 65)" by (simp only: of_int_le_iff)
    then have "of_int n \<le> (2 :: rat) ^ 60 - 65" by simp
    then have "fl (of_int n) \<le> 2 ^ 60 - 128" using fl_mono fl_top(2) by metis
    then show ?thesis using False one unfolding n_def by linarith
  qed
qed

text \<open>
  The bucket is exactly 1.0 when the digest's first sixty bits are one of the 64 largest
  values, and below 1.0 otherwise.
\<close>

theorem digest_bucket_one:
  assumes "is_digest dg"
  shows "digest_bucket dg = Fin 1 \<longleftrightarrow> 2 ^ 60 - 64 \<le> digest_bits dg"
  using assms by (rule bucket_one_iff)

definition top_digest :: "int list" where
  "top_digest = replicate 8 255 @ replicate 12 0"

lemma top_digest_facts: "is_digest top_digest" "2 ^ 60 - 64 \<le> digest_bits top_digest"
  by (simp_all add: is_digest_def top_digest_def digest_bits_def be_number_def numeral_eq_Suc)

lemma digest_bucket_one_witness: "is_digest top_digest \<and> digest_bucket top_digest = Fin 1"
  using digest_bucket_one [OF top_digest_facts(1)] top_digest_facts by simp

lemma top_bucket: "digest_bucket top_digest = Fin 1"
  using bucket_one_iff [OF top_digest_facts(1)] top_digest_facts(2) by simp

text \<open>A context without the attribute is in bucket 0.0.\<close>

lemma bucket_missing_attribute:
  "get_attribute c (default_key bb) = None \<Longrightarrow> compute_bucket c bb key salt seed = Fin 0"
  by (simp add: compute_bucket_def)

text \<open>With a seed the flag's key and salt play no part, so flags with one seed share buckets.\<close>

lemma bucket_seed_independent:
  "compute_bucket c bb key salt (Some sd) = compute_bucket c bb key' salt' (Some sd)"
  by (simp add: compute_bucket_def hash_input_def split: option.split)

end
