(* ===== verification/Clauses.thy ===== *)
theory Clauses
  imports Bucket
begin

text \<open>
  Clauses, rules and segments, \<open>internal/eval/clause.go\<close>.

  \<open>clauseMatches\<close> and \<open>segmentMatches\<close> call each other: a segment's rule may test membership in
  another segment. Nothing in the code bounds that recursion, so the model gives it fuel, the number
  of nested calls of \<open>segmentMatches\<close>; \<open>None\<close> is running out of it. Lemmas show that more fuel never
  changes a result, that references that descend along a rank need no more fuel than that rank, and
  that a segment that refers to itself exhausts every fuel.
\<close>

section \<open>The code\<close>

text \<open>The interface \<open>Store\<close>: a flag comes with its configuration.\<close>

record eval_store =
  es_flag :: "string \<Rightarrow> (flag \<times> flag_config) option"
  es_segment :: "string \<Rightarrow> segment option"

definition negated :: "bool \<Rightarrow> bool \<Rightarrow> bool" where
  "negated neg hit = (if hit then \<not> neg else neg)"

text \<open>A clause on an attribute.\<close>

definition attribute_clause :: "libs \<Rightarrow> eval_context \<Rightarrow> clause \<Rightarrow> bool" where
  "attribute_clause L ctx c =
     (case get_attribute ctx (cl_attribute c) of
        None \<Rightarrow> False
      | Some (AArr arr) \<Rightarrow>
          negated (cl_negate c)
            (list_ex (\<lambda>elem. list_ex (\<lambda>v. match_operator L (cl_op c) elem v) (cl_values c)) arr)
      | Some av \<Rightarrow>
          negated (cl_negate c) (list_ex (\<lambda>v. match_operator L (cl_op c) av v) (cl_values c)))"

text \<open>The segment a clause value names, if there is one.\<close>

definition segment_of_value :: "eval_store \<Rightarrow> raw \<Rightarrow> segment option" where
  "segment_of_value S v = Option.bind (unmarshal_string v) (es_segment S)"

text \<open>\<open>clauseMatches\<close>, over the membership test \<open>segm\<close> it calls.\<close>

definition clause_with ::
    "libs \<Rightarrow> eval_store \<Rightarrow> (segment \<Rightarrow> bool option) \<Rightarrow> eval_context \<Rightarrow> clause \<Rightarrow> bool option" where
  "clause_with L S segm ctx c =
     (if cl_op c = OpSegmentMatch then
        map_option (negated (cl_negate c))
          (any_opt (\<lambda>v. case segment_of_value S v of None \<Rightarrow> Some False | Some seg \<Rightarrow> segm seg) (cl_values c))
      else Some (attribute_clause L ctx c))"

text \<open>The loop over the rules of a segment: the first rule whose clauses all match decides.\<close>

definition weight_share :: "int \<Rightarrow> float64" where
  "weight_share w = float_of_int w / Fin 100000"

fun segment_rules ::
    "(clause \<Rightarrow> bool option) \<Rightarrow> eval_context \<Rightarrow> segment \<Rightarrow> segment_rule list \<Rightarrow> bool option" where
  "segment_rules cm ctx seg [] = Some False"
| "segment_rules cm ctx seg (r # rs) =
     (case all_opt cm (sr_clauses r) of
        None \<Rightarrow> None
      | Some all_match \<Rightarrow>
          if \<not> all_match then segment_rules cm ctx seg rs
          else (case sr_weight r of
                  None \<Rightarrow> Some True
                | Some w \<Rightarrow>
                    Some (compute_bucket ctx (default_key (sr_bucket_by r)) (seg_key seg) (seg_salt seg) None
                            < weight_share w)))"

text \<open>\<open>segmentMatches\<close>, over the membership test \<open>segm\<close> that its clauses call.\<close>

definition segment_with ::
    "libs \<Rightarrow> eval_store \<Rightarrow> (segment \<Rightarrow> bool option) \<Rightarrow> eval_context \<Rightarrow> segment \<Rightarrow> bool option" where
  "segment_with L S segm ctx seg =
     (if ctx_key ctx \<in> set (seg_excluded seg) then Some False
      else if ctx_key ctx \<in> set (seg_included seg) then Some True
      else segment_rules (clause_with L S segm ctx) ctx seg (seg_rules seg))"

fun segment_matches :: "libs \<Rightarrow> eval_store \<Rightarrow> eval_context \<Rightarrow> nat \<Rightarrow> segment \<Rightarrow> bool option" where
  "segment_matches L S ctx 0 seg = None"
| "segment_matches L S ctx (Suc n) seg = segment_with L S (segment_matches L S ctx n) ctx seg"

definition clause_matches :: "libs \<Rightarrow> eval_store \<Rightarrow> nat \<Rightarrow> eval_context \<Rightarrow> clause \<Rightarrow> bool option" where
  "clause_matches L S n ctx c = clause_with L S (segment_matches L S ctx n) ctx c"

definition rule_matches :: "libs \<Rightarrow> eval_store \<Rightarrow> nat \<Rightarrow> eval_context \<Rightarrow> rule \<Rightarrow> bool option" where
  "rule_matches L S n ctx r =
     (if rule_clauses r = [] then Some False else all_opt (clause_matches L S n ctx) (rule_clauses r))"

section \<open>More fuel never changes a result\<close>

definition refines :: "('a \<Rightarrow> 'b option) \<Rightarrow> ('a \<Rightarrow> 'b option) \<Rightarrow> bool" where
  "refines f g \<longleftrightarrow> (\<forall>x r. f x = Some r \<longrightarrow> g x = Some r)"

lemma clause_with_mono:
  assumes "refines f g"
  shows "refines (clause_with L S f ctx) (clause_with L S g ctx)"
proof -
  have "any_opt (\<lambda>v. case segment_of_value S v of None \<Rightarrow> Some False | Some seg \<Rightarrow> f seg) vs = Some r \<Longrightarrow>
        any_opt (\<lambda>v. case segment_of_value S v of None \<Rightarrow> Some False | Some seg \<Rightarrow> g seg) vs = Some r" for vs r
    by (erule any_opt_mono [rotated]) (use assms in \<open>auto simp: refines_def split: option.splits\<close>)
  then show ?thesis by (auto simp: refines_def clause_with_def)
qed

lemma segment_rules_mono:
  assumes "refines p q"
  shows "segment_rules p ctx seg rs = Some r \<Longrightarrow> segment_rules q ctx seg rs = Some r"
proof (induction rs)
  case (Cons x xs)
  have "all_opt p (sr_clauses x) = Some b \<Longrightarrow> all_opt q (sr_clauses x) = Some b" for b
    using assms by (auto simp: refines_def intro: all_opt_mono)
  with Cons show ?case by (auto split: option.splits if_splits)
qed simp

lemma segment_with_mono: "refines f g \<Longrightarrow> refines (segment_with L S f ctx) (segment_with L S g ctx)"
  using segment_rules_mono [OF clause_with_mono [of f g L S ctx]]
  by (auto simp: refines_def segment_with_def)

lemma segment_matches_Suc: "segment_matches L S ctx (Suc n) = segment_with L S (segment_matches L S ctx n) ctx"
  by (rule ext) simp

lemma segment_matches_step: "refines (segment_matches L S ctx n) (segment_matches L S ctx (Suc n))"
proof (induction n)
  case (Suc n)
  from segment_with_mono [OF this, of L S ctx] show ?case by (simp only: segment_matches_Suc)
qed (simp add: refines_def)

lemma segment_matches_mono:
  "m \<le> n \<Longrightarrow> segment_matches L S ctx m seg = Some b \<Longrightarrow> segment_matches L S ctx n seg = Some b"
proof (induction rule: dec_induct)
  case (step k)
  then show ?case using segment_matches_step unfolding refines_def by blast
qed

lemma clause_matches_mono:
  "m \<le> n \<Longrightarrow> clause_matches L S m ctx c = Some b \<Longrightarrow> clause_matches L S n ctx c = Some b"
  using clause_with_mono [of "segment_matches L S ctx m" "segment_matches L S ctx n" L S ctx]
    segment_matches_mono by (auto simp: clause_matches_def refines_def)

lemma rule_matches_mono:
  "m \<le> n \<Longrightarrow> rule_matches L S m ctx r = Some b \<Longrightarrow> rule_matches L S n ctx r = Some b"
  by (auto simp: rule_matches_def split: if_splits intro: all_opt_mono clause_matches_mono)

section \<open>Enough fuel\<close>

text \<open>The segments that the clauses of a list, and the rules of a segment, refer to.\<close>

definition clause_refs :: "eval_store \<Rightarrow> clause \<Rightarrow> segment list" where
  "clause_refs S c =
     (if cl_op c = OpSegmentMatch
      then concat (map (\<lambda>v. case segment_of_value S v of None \<Rightarrow> [] | Some seg \<Rightarrow> [seg]) (cl_values c))
      else [])"

definition segment_refs :: "eval_store \<Rightarrow> segment \<Rightarrow> segment list" where
  "segment_refs S seg = concat (map (clause_refs S) (concat (map sr_clauses (seg_rules seg))))"

text \<open>References descend along \<open>rk\<close>: what a store without reference cycles has.\<close>

definition ranked :: "eval_store \<Rightarrow> (segment \<Rightarrow> nat) \<Rightarrow> bool" where
  "ranked S rk \<longleftrightarrow> (\<forall>seg. \<forall>seg' \<in> set (segment_refs S seg). rk seg' < rk seg)"

lemma in_clause_refs:
  "cl_op c = OpSegmentMatch \<Longrightarrow> v \<in> set (cl_values c) \<Longrightarrow> segment_of_value S v = Some seg \<Longrightarrow>
   seg \<in> set (clause_refs S c)"
  by (force simp: clause_refs_def)

lemma clause_with_returns:
  "(\<And>seg. seg \<in> set (clause_refs S c) \<Longrightarrow> f seg \<noteq> None) \<Longrightarrow> clause_with L S f ctx c \<noteq> None"
proof (cases "cl_op c = OpSegmentMatch")
  case True
  assume "\<And>seg. seg \<in> set (clause_refs S c) \<Longrightarrow> f seg \<noteq> None"
  then have "any_opt (\<lambda>v. case segment_of_value S v of None \<Rightarrow> Some False | Some seg \<Rightarrow> f seg)
      (cl_values c) \<noteq> None"
    using in_clause_refs [OF True] by (intro any_opt_returns) (auto split: option.split)
  then show ?thesis by (simp add: clause_with_def True)
qed (simp add: clause_with_def)

lemma segment_rules_returns:
  "(\<And>c. c \<in> set (concat (map sr_clauses rs)) \<Longrightarrow> p c \<noteq> None) \<Longrightarrow> segment_rules p ctx seg rs \<noteq> None"
proof (induction rs)
  case (Cons r rs)
  then have "all_opt p (sr_clauses r) \<noteq> None" by (intro all_opt_returns) auto
  with Cons show ?case by (auto split: option.splits)
qed simp

lemma segment_matches_returns:
  "ranked S rk \<Longrightarrow> rk seg < n \<Longrightarrow> segment_matches L S ctx n seg \<noteq> None"
proof (induction n arbitrary: seg)
  case (Suc n)
  have "clause_with L S (segment_matches L S ctx n) ctx c \<noteq> None"
    if "c \<in> set (concat (map sr_clauses (seg_rules seg)))" for c
  proof (rule clause_with_returns)
    fix s assume "s \<in> set (clause_refs S c)"
    then have "s \<in> set (segment_refs S seg)" using that by (auto simp: segment_refs_def)
    then have "rk s < n" using Suc.prems by (fastforce simp: ranked_def)
    then show "segment_matches L S ctx n s \<noteq> None" using Suc by blast
  qed
  then have "segment_rules (clause_with L S (segment_matches L S ctx n) ctx) ctx seg (seg_rules seg) \<noteq> None"
    by (intro segment_rules_returns) blast
  then show ?case by (auto simp: segment_with_def)
qed simp

lemma clause_matches_returns:
  "ranked S rk \<Longrightarrow> (\<And>seg. seg \<in> set (clause_refs S c) \<Longrightarrow> rk seg < n) \<Longrightarrow> clause_matches L S n ctx c \<noteq> None"
  unfolding clause_matches_def by (rule clause_with_returns) (auto dest: segment_matches_returns)

definition bounded_refs :: "eval_store \<Rightarrow> (segment \<Rightarrow> nat) \<Rightarrow> nat \<Rightarrow> clause list \<Rightarrow> bool" where
  "bounded_refs S rk n cs \<longleftrightarrow> (\<forall>c \<in> set cs. \<forall>seg \<in> set (clause_refs S c). rk seg < n)"

lemma rule_matches_returns:
  "ranked S rk \<Longrightarrow> bounded_refs S rk n (rule_clauses r) \<Longrightarrow> rule_matches L S n ctx r \<noteq> None"
proof -
  assume "ranked S rk" "bounded_refs S rk n (rule_clauses r)"
  then have "all_opt (clause_matches L S n ctx) (rule_clauses r) \<noteq> None"
    by (intro all_opt_returns clause_matches_returns) (auto simp: bounded_refs_def)
  then show ?thesis by (auto simp: rule_matches_def)
qed

section \<open>What clauses and segments decide\<close>

text \<open>
  A clause on an attribute the context does not have never matches, negated or not; on an
  attribute it has, negation flips the result.
\<close>

theorem attribute_clause_negation:
  "attribute_clause L ctx (c\<lparr>cl_negate := True\<rparr>) =
     (get_attribute ctx (cl_attribute c) \<noteq> None \<and> \<not> attribute_clause L ctx (c\<lparr>cl_negate := False\<rparr>))"
  by (auto simp: attribute_clause_def negated_def split: option.splits any.splits)

text \<open>The first rule of a segment whose clauses all match.\<close>

fun deciding_rule :: "(clause \<Rightarrow> bool) \<Rightarrow> segment_rule list \<Rightarrow> segment_rule option" where
  "deciding_rule q [] = None"
| "deciding_rule q (r # rs) = (if list_all q (sr_clauses r) then Some r else deciding_rule q rs)"

definition rule_admits :: "eval_context \<Rightarrow> segment \<Rightarrow> segment_rule \<Rightarrow> bool" where
  "rule_admits ctx seg r =
     (case sr_weight r of None \<Rightarrow> True
      | Some w \<Rightarrow> compute_bucket ctx (default_key (sr_bucket_by r)) (seg_key seg) (seg_salt seg) None
                    < weight_share w)"

lemma all_opt_total: "(\<And>x. x \<in> set xs \<Longrightarrow> p x = Some (q x)) \<Longrightarrow> all_opt p xs = Some (list_all q xs)"
  by (induction xs) auto

lemma segment_rules_decide:
  "(\<And>c. c \<in> set (concat (map sr_clauses rs)) \<Longrightarrow> p c = Some (q c)) \<Longrightarrow>
   segment_rules p ctx seg rs =
     Some (case deciding_rule q rs of None \<Rightarrow> False | Some r \<Rightarrow> rule_admits ctx seg r)"
proof (induction rs)
  case (Cons r rs)
  then have "all_opt p (sr_clauses r) = Some (list_all q (sr_clauses r))"
    by (intro all_opt_total) auto
  with Cons show ?case by (simp add: rule_admits_def split: option.split)
qed simp

definition clause_truth :: "libs \<Rightarrow> eval_store \<Rightarrow> nat \<Rightarrow> eval_context \<Rightarrow> clause \<Rightarrow> bool" where
  "clause_truth L S n ctx c \<longleftrightarrow> clause_matches L S n ctx c = Some True"

text \<open>
  Membership of a segment in a store without reference cycles: exclusion wins over inclusion,
  inclusion over the rules, and among the rules the first one whose clauses all match decides
  alone; a context it turns away by weight is not offered to the later rules.
\<close>

theorem segment_membership:
  assumes "ranked S rk" "rk seg \<le> n"
  shows "segment_matches L S ctx (Suc n) seg =
    Some (ctx_key ctx \<notin> set (seg_excluded seg) \<and>
      (ctx_key ctx \<in> set (seg_included seg) \<or>
       (case deciding_rule (clause_truth L S n ctx) (seg_rules seg) of
          None \<Rightarrow> False | Some r \<Rightarrow> rule_admits ctx seg r)))"
proof -
  have ret: "clause_matches L S n ctx c = Some (clause_truth L S n ctx c)"
    if c: "c \<in> set (concat (map sr_clauses (seg_rules seg)))" for c
  proof -
    have "rk s < n" if "s \<in> set (clause_refs S c)" for s
      using that c assms by (fastforce simp: ranked_def segment_refs_def)
    with assms have "clause_matches L S n ctx c \<noteq> None" by (intro clause_matches_returns)
    then show ?thesis by (auto simp: clause_truth_def)
  qed
  have "segment_rules (clause_with L S (segment_matches L S ctx n) ctx) ctx seg (seg_rules seg) =
      Some (case deciding_rule (clause_truth L S n ctx) (seg_rules seg) of
          None \<Rightarrow> False | Some r \<Rightarrow> rule_admits ctx seg r)"
    using ret by (intro segment_rules_decide) (simp add: clause_matches_def)
  then show ?thesis by (simp add: segment_with_def)
qed

definition user_ctx :: "string \<Rightarrow> eval_context" where
  "user_ctx k = \<lparr>ctx_kind = ''user'', ctx_key = k, ctx_anonymous = False, ctx_attributes = [], ctx_private = []\<rparr>"

text \<open>A store with two segments, the second defined through the first.\<close>

definition match_segment :: "string \<Rightarrow> bool \<Rightarrow> clause" where
  "match_segment k neg =
     \<lparr>cl_attribute = [], cl_op = OpSegmentMatch, cl_values = [Some (JStr k)], cl_negate = neg\<rparr>"

definition staff_segment :: segment where
  "staff_segment = \<lparr>seg_key = ''staff'', seg_name = [], seg_description = [], seg_included = [''ann''],
     seg_excluded = [''bob''], seg_rules = [], seg_salt = ''s1'', seg_version = 1\<rparr>"

definition guest_segment :: segment where
  "guest_segment = \<lparr>seg_key = ''guest'', seg_name = [], seg_description = [], seg_included = [],
     seg_excluded = [], seg_rules = [\<lparr>sr_id = ''g'', sr_clauses = [match_segment ''staff'' True],
       sr_weight = None, sr_bucket_by = []\<rparr>], seg_salt = ''s2'', seg_version = 1\<rparr>"

definition two_segments :: eval_store where
  "two_segments = \<lparr>es_flag = (\<lambda>_. None),
     es_segment = (\<lambda>k. if k = ''staff'' then Some staff_segment
                       else if k = ''guest'' then Some guest_segment else None)\<rparr>"

definition two_rank :: "segment \<Rightarrow> nat" where
  "two_rank s = (if s = staff_segment then 0 else if s = guest_segment then 1 else 2)"

lemma refs_in_store:
  "s' \<in> set (segment_refs S s) \<Longrightarrow> \<exists>k. es_segment S k = Some s'"
proof -
  assume "s' \<in> set (segment_refs S s)"
  then obtain v where "segment_of_value S v = Some s'"
    by (auto simp: segment_refs_def clause_refs_def split: if_splits option.splits)
  then show ?thesis by (auto simp: segment_of_value_def bind_eq_Some_conv)
qed

lemma two_ranked: "ranked two_segments two_rank"
proof -
  have "two_rank s' < two_rank s" if "s' \<in> set (segment_refs two_segments s)" for s s'
  proof -
    have st: "s' = staff_segment \<or> s' = guest_segment"
      using refs_in_store [OF that] by (auto simp: two_segments_def split: if_splits)
    have "segment_refs two_segments staff_segment = []"
      by (simp add: segment_refs_def staff_segment_def)
    moreover have "segment_refs two_segments guest_segment = [staff_segment]"
      by (simp add: segment_refs_def guest_segment_def clause_refs_def segment_of_value_def
          match_segment_def unmarshal_string_def two_segments_def)
    moreover have "staff_segment \<noteq> guest_segment"
      by (simp add: staff_segment_def guest_segment_def)
    ultimately show ?thesis using that st by (auto simp: two_rank_def split: if_splits)
  qed
  then show ?thesis by (simp add: ranked_def)
qed

lemma segment_membership_witness:
  "segment_matches no_libs two_segments (user_ctx ''ann'') (Suc 1) staff_segment = Some True \<and>
   segment_matches no_libs two_segments (user_ctx ''bob'') (Suc 1) staff_segment = Some False"
proof -
  have rk: "two_rank staff_segment \<le> 1" by (simp add: two_rank_def)
  show ?thesis
    using segment_membership [OF two_ranked rk, of no_libs "user_ctx ''ann''"]
      segment_membership [OF two_ranked rk, of no_libs "user_ctx ''bob''"]
    by (simp add: staff_segment_def user_ctx_def)
qed

section \<open>A segment that refers to itself\<close>

definition refers_first :: "eval_store \<Rightarrow> segment \<Rightarrow> segment \<Rightarrow> bool" where
  "refers_first S seg seg' \<longleftrightarrow>
     (\<exists>r rs c cs v vs. seg_rules seg = r # rs \<and> sr_clauses r = c # cs \<and> cl_op c = OpSegmentMatch \<and>
        cl_values c = v # vs \<and> segment_of_value S v = Some seg')"

definition listed :: "eval_context \<Rightarrow> segment \<Rightarrow> bool" where
  "listed ctx seg \<longleftrightarrow> ctx_key ctx \<in> set (seg_included seg) \<union> set (seg_excluded seg)"

text \<open>
  C13. Segments that pass \<open>Segment.Validate\<close> can send the evaluator into an unbounded recursion: if
  the first clause of a segment's first rule tests membership in the segment itself, no number of
  nested calls is enough for a context that the segment does not list by key.
\<close>

theorem self_segment_diverges:
  assumes "refers_first S seg seg" "\<not> listed ctx seg"
  shows "segment_matches L S ctx n seg = None"
proof (induction n)
  case (Suc n)
  from assms(1) obtain r rs c cs v vs where
    "seg_rules seg = r # rs" "sr_clauses r = c # cs" "cl_op c = OpSegmentMatch"
    "cl_values c = v # vs" "segment_of_value S v = Some seg"
    unfolding refers_first_def by blast
  with assms(2) Suc show ?case by (simp add: segment_with_def clause_with_def listed_def)
qed simp

definition self_segment :: segment where
  "self_segment = \<lparr>seg_key = ''beta'', seg_name = [], seg_description = [], seg_included = [],
     seg_excluded = [], seg_rules = [\<lparr>sr_id = ''r'', sr_clauses = [\<lparr>cl_attribute = [],
       cl_op = OpSegmentMatch, cl_values = [Some (JStr ''beta'')], cl_negate = False\<rparr>],
       sr_weight = None, sr_bucket_by = []\<rparr>], seg_salt = [], seg_version = 0\<rparr>"

definition self_store :: eval_store where
  "self_store = \<lparr>es_flag = (\<lambda>_. None), es_segment = (\<lambda>k. if k = ''beta'' then Some self_segment else None)\<rparr>"

lemma self_segment_diverges_witness:
  "segment_validate self_segment = Accept \<and> refers_first self_store self_segment self_segment \<and>
   (\<forall>L n. segment_matches L self_store (user_ctx ''u'') n self_segment = None)"
proof -
  have r: "refers_first self_store self_segment self_segment"
    by (simp add: refers_first_def self_segment_def self_store_def segment_of_value_def unmarshal_string_def)
  have l: "\<not> listed (user_ctx ''u'') self_segment" by (simp add: listed_def self_segment_def)
  show ?thesis using self_segment_diverges [OF r l] r
    by (simp add: segment_validate_def self_segment_def)
qed

end
