(* ===== verification/Evaluate.thy ===== *)
theory Evaluate
  imports Clauses
begin

text \<open>
  The evaluator, \<open>internal/eval/evaluate.go\<close>: off check, prerequisites, individual targets, rules in
  stored order, fallthrough; fixed variations and percentage rollouts.

  A result is the variation's index, its decoded value and the reason. The evaluation as a whole
  returns \<open>None\<close> only when a segment test runs out of its fuel \<open>n\<close>; the recursion through the
  prerequisites is bounded by the code itself (\<open>MaxPrerequisiteDepth\<close>) and is defined by a measure.

  The lemmas show totality, the shape of every result, the priority of the steps, the behaviour of
  rollouts under rounding, and that on a prerequisite graph without cycles neither the depth nor
  the visited set has any influence.
\<close>

section \<open>The code\<close>

type_synonym eval_result = "int option \<times> any \<times> reason"

definition malformed :: eval_result where
  "malformed = (None, ANil, error_reason ErrMalformedFlag)"

definition variation_result :: "flag \<Rightarrow> int \<Rightarrow> reason \<Rightarrow> eval_result" where
  "variation_result f idx rs =
     (if idx < 0 \<or> int (length (flag_variations f)) \<le> idx then malformed
      else (Some idx, fst (unmarshal_any (var_value (flag_variations f ! nat idx))), rs))"

definition off_result :: "flag \<Rightarrow> flag_config \<Rightarrow> reason \<Rightarrow> eval_result" where
  "off_result f cfg rs =
     (case cfg_off_variation cfg of None \<Rightarrow> (None, ANil, rs) | Some i \<Rightarrow> variation_result f i rs)"

text \<open>The rollout loop: \<open>sum\<close> accumulates in \<open>float64\<close>.\<close>

fun pick :: "float64 \<Rightarrow> float64 \<Rightarrow> weighted_variation list \<Rightarrow> int option" where
  "pick b s [] = None"
| "pick b s (wv # wvs) =
     (let s' = s + weight_share (wv_weight wv)
      in if b < s' then Some (wv_variation wv) else pick b s' wvs)"

definition rollout_variation :: "float64 \<Rightarrow> weighted_variation list \<Rightarrow> int" where
  "rollout_variation b wvs =
     (case pick b (Fin 0) wvs of Some v \<Rightarrow> v | None \<Rightarrow> wv_variation (last wvs))"

definition resolve_variation_or_rollout ::
    "flag \<Rightarrow> flag_config \<Rightarrow> variation_or_rollout \<Rightarrow> eval_context \<Rightarrow> reason \<Rightarrow> eval_result" where
  "resolve_variation_or_rollout f cfg vr ctx rs =
     (case vr_variation vr of
        Some v \<Rightarrow> variation_result f v rs
      | None \<Rightarrow>
          (case vr_rollout vr of
             None \<Rightarrow> malformed
           | Some ro \<Rightarrow>
               if ro_variations ro = [] then malformed
               else let b = compute_bucket ctx (default_key (ro_bucket_by ro)) (flag_key f)
                              (cfg_salt cfg) (ro_seed ro)
                    in variation_result f (rollout_variation b (ro_variations ro))
                         (rs\<lparr>rs_in_experiment := ro_is_experiment ro\<rparr>)))"

text \<open>Step 3: the first target that lists the context's key.\<close>

fun target_loop :: "string \<Rightarrow> target list \<Rightarrow> int option" where
  "target_loop k [] = None"
| "target_loop k (t # ts) = (if k \<in> set (tg_context_keys t) then Some (tg_variation t) else target_loop k ts)"

text \<open>Step 4: the first rule that matches, with its index.\<close>

fun rule_loop :: "(rule \<Rightarrow> bool option) \<Rightarrow> nat \<Rightarrow> rule list \<Rightarrow> (nat \<times> rule) option option" where
  "rule_loop m i [] = Some None"
| "rule_loop m i (r # rs) =
     (case m r of None \<Rightarrow> None
      | Some hit \<Rightarrow> if hit then Some (Some (i, r)) else rule_loop m (Suc i) rs)"

definition rule_reason :: "nat \<Rightarrow> rule \<Rightarrow> reason" where
  "rule_reason i r = (reason_of ReasonRuleMatch)\<lparr>rs_rule_index := Some (int i), rs_rule_id := rule_id r\<rparr>"

definition prereq_reason :: "string \<Rightarrow> reason" where
  "prereq_reason k = (reason_of ReasonPrerequisiteFailed)\<lparr>rs_prerequisite_key := k\<rparr>"

text \<open>Steps 3 to 5.\<close>

definition serve ::
    "libs \<Rightarrow> eval_store \<Rightarrow> nat \<Rightarrow> eval_context \<Rightarrow> flag \<Rightarrow> flag_config \<Rightarrow> eval_result option" where
  "serve L S n ctx f cfg =
     (case target_loop (ctx_key ctx) (cfg_targets cfg) of
        Some v \<Rightarrow> Some (variation_result f v (reason_of ReasonTargetMatch))
      | None \<Rightarrow>
          (case rule_loop (rule_matches L S n ctx) 0 (cfg_rules cfg) of
             None \<Rightarrow> None
           | Some (Some (i, r)) \<Rightarrow>
               Some (resolve_variation_or_rollout f cfg (rule_serve r) ctx (rule_reason i r))
           | Some None \<Rightarrow>
               Some (resolve_variation_or_rollout f cfg (cfg_fallthrough cfg) ctx
                       (reason_of ReasonFallthrough))))"

text \<open>
  Step 2: \<open>Some (Some k)\<close> is failing at the prerequisite \<open>k\<close>, \<open>Some None\<close> passing all of them;
  \<open>ev\<close> evaluates the flag a prerequisite names.
\<close>

fun prereq_loop ::
    "eval_store \<Rightarrow> (flag \<Rightarrow> flag_config \<Rightarrow> eval_result option) \<Rightarrow> prerequisite list \<Rightarrow> string option option" where
  "prereq_loop S ev [] = Some None"
| "prereq_loop S ev (p # ps) =
     (case es_flag S (pq_flag_key p) of
        None \<Rightarrow> Some (Some (pq_flag_key p))
      | Some (pf, pcfg) \<Rightarrow>
          if \<not> cfg_on pcfg then Some (Some (pq_flag_key p))
          else (case ev pf pcfg of
                  None \<Rightarrow> None
                | Some (idx, _, _) \<Rightarrow>
                    if idx \<noteq> Some (pq_variation p) then Some (Some (pq_flag_key p))
                    else prereq_loop S ev ps))"

definition max_prerequisite_depth :: nat where
  "max_prerequisite_depth = 20"

text \<open>\<open>evaluateWithDepth\<close>; the map \<open>visited\<close>, copied for every prerequisite, is a set.\<close>

function eval_depth ::
    "libs \<Rightarrow> eval_store \<Rightarrow> nat \<Rightarrow> eval_context \<Rightarrow> nat \<Rightarrow> string set \<Rightarrow> flag \<Rightarrow> flag_config \<Rightarrow> eval_result option" where
  "eval_depth L S n ctx depth visited f cfg =
     (if \<not> cfg_on cfg then Some (off_result f cfg (reason_of ReasonOff))
      else if max_prerequisite_depth < depth \<or> flag_key f \<in> visited
      then Some (off_result f cfg (error_reason ErrPrereqCycle))
      else (case prereq_loop S
                   (\<lambda>pf pcfg. eval_depth L S n ctx (Suc depth) (insert (flag_key f) visited) pf pcfg)
                   (cfg_prerequisites cfg) of
              None \<Rightarrow> None
            | Some (Some k) \<Rightarrow> Some (off_result f cfg (prereq_reason k))
            | Some None \<Rightarrow> serve L S n ctx f cfg))"
  by pat_completeness auto
termination
  by (relation "measure (\<lambda>(_, _, _, _, depth, _). Suc max_prerequisite_depth - depth)") auto

declare eval_depth.simps [simp del]

definition evaluate ::
    "libs \<Rightarrow> eval_store \<Rightarrow> nat \<Rightarrow> eval_context \<Rightarrow> flag \<Rightarrow> flag_config \<Rightarrow> eval_result option" where
  "evaluate L S n ctx f cfg = eval_depth L S n ctx 0 {} f cfg"

section \<open>Totality\<close>

lemma rule_loop_returns: "(\<And>r. r \<in> set rs \<Longrightarrow> m r \<noteq> None) \<Longrightarrow> rule_loop m i rs \<noteq> None"
  by (induction rs arbitrary: i) (auto split: option.splits)

lemma prereq_loop_returns:
  "(\<And>k pf pcfg. es_flag S k = Some (pf, pcfg) \<Longrightarrow> ev pf pcfg \<noteq> None) \<Longrightarrow> prereq_loop S ev ps \<noteq> None"
  by (induction ps) (auto split: option.splits simp del: not_None_eq)

text \<open>Every rule of the configuration refers to segments below the fuel.\<close>

definition config_bounded :: "eval_store \<Rightarrow> (segment \<Rightarrow> nat) \<Rightarrow> nat \<Rightarrow> flag_config \<Rightarrow> bool" where
  "config_bounded S rk n cfg \<longleftrightarrow> (\<forall>r \<in> set (cfg_rules cfg). bounded_refs S rk n (rule_clauses r))"

lemma serve_returns:
  "ranked S rk \<Longrightarrow> config_bounded S rk n cfg \<Longrightarrow> serve L S n ctx f cfg \<noteq> None"
proof -
  assume "ranked S rk" "config_bounded S rk n cfg"
  then have "rule_loop (rule_matches L S n ctx) 0 (cfg_rules cfg) \<noteq> None"
    by (intro rule_loop_returns rule_matches_returns) (auto simp: config_bounded_def)
  then show ?thesis by (auto simp: serve_def split: option.splits simp del: not_None_eq)
qed

definition store_bounded :: "eval_store \<Rightarrow> (segment \<Rightarrow> nat) \<Rightarrow> nat \<Rightarrow> bool" where
  "store_bounded S rk n \<longleftrightarrow>
     ranked S rk \<and> (\<forall>k pf pcfg. es_flag S k = Some (pf, pcfg) \<longrightarrow> config_bounded S rk n pcfg)"

lemma eval_depth_returns:
  "store_bounded S rk n \<Longrightarrow> config_bounded S rk n cfg \<Longrightarrow> eval_depth L S n ctx depth visited f cfg \<noteq> None"
proof (induction L S n ctx depth visited f cfg rule: eval_depth.induct)
  case (1 L S n ctx depth visited f cfg)
  show ?case
  proof (cases "cfg_on cfg \<and> \<not> (max_prerequisite_depth < depth \<or> flag_key f \<in> visited)")
    case True
    have "prereq_loop S (\<lambda>pf pcfg. eval_depth L S n ctx (Suc depth) (insert (flag_key f) visited) pf pcfg)
        (cfg_prerequisites cfg) \<noteq> None"
      using True 1 by (intro prereq_loop_returns) (auto simp: store_bounded_def simp del: not_None_eq)
    moreover have "serve L S n ctx f cfg \<noteq> None"
      using 1 by (intro serve_returns) (auto simp: store_bounded_def)
    ultimately show ?thesis
      using True by (auto simp: eval_depth.simps [of L S n ctx depth visited f cfg] split: option.splits simp del: not_None_eq)
  next
    case False
    then show ?thesis by (auto simp: eval_depth.simps [of L S n ctx depth visited f cfg] simp del: not_None_eq)
  qed
qed

section \<open>A small store\<close>

text \<open>The flag \<open>''page''\<close> requires variation 1 of \<open>''base''\<close>, which serves it to everyone.\<close>

definition on_config :: flag_config where
  "on_config = sample_config\<lparr>cfg_fallthrough := serve_fixed 1\<rparr>"

definition gated_config :: flag_config where
  "gated_config = on_config\<lparr>cfg_prerequisites := [\<lparr>pq_flag_key = ''base'', pq_variation = 1\<rparr>]\<rparr>"

definition base_store :: eval_store where
  "base_store = \<lparr>es_flag = (\<lambda>k. if k = ''base'' then Some (bool_flag ''base'' [], on_config) else None),
     es_segment = (\<lambda>_. None)\<rparr>"

lemmas small_store = on_config_def gated_config_def base_store_def sample_config_def serve_fixed_def
  bool_flag_def user_ctx_def

lemma gated_page:
  "evaluate L base_store n (user_ctx ''u'') (bool_flag ''page'' []) gated_config =
     Some (Some 1, ABool True, reason_of ReasonFallthrough)"
  by (simp add: evaluate_def eval_depth.simps small_store max_prerequisite_depth_def serve_def
      resolve_variation_or_rollout_def variation_result_def unmarshal_any_def)

lemma no_refs: "es_segment S = (\<lambda>_. None) \<Longrightarrow> segment_refs S seg = []"
  by (auto simp: segment_refs_def clause_refs_def segment_of_value_def split: bind_splits)

lemma base_bounded: "store_bounded base_store (\<lambda>_. 0) 1 \<and> config_bounded base_store (\<lambda>_. 0) 1 gated_config"
proof -
  have "segment_refs base_store seg = []" for seg by (rule no_refs) (simp add: base_store_def)
  then show ?thesis
    by (auto simp: store_bounded_def config_bounded_def ranked_def) (auto simp: small_store split: if_splits)
qed

text \<open>
  C3. Evaluation returns, whatever the prerequisites look like (cycles, missing flags and chains of
  any length included), as soon as the segments have no reference cycle and the fuel exceeds their rank.
\<close>

theorem evaluate_returns:
  assumes "store_bounded S rk n" "config_bounded S rk n cfg"
  shows "\<exists>res. evaluate L S n ctx f cfg = Some res"
  using eval_depth_returns [OF assms] unfolding evaluate_def by blast

lemma evaluate_returns_witness:
  "\<exists>res. evaluate no_libs base_store 1 (user_ctx ''u'') (bool_flag ''page'' []) gated_config = Some res"
  using evaluate_returns base_bounded by blast

section \<open>The shape of a result\<close>

text \<open>
  A result either has an index that names a variation of the flag and carries its decoded value,
  or has no index and the value nil.
\<close>

definition coherent :: "flag \<Rightarrow> eval_result \<Rightarrow> bool" where
  "coherent f res \<longleftrightarrow>
     (case res of (idx, v, rs) \<Rightarrow>
        (case idx of
           Some i \<Rightarrow> in_range (length (flag_variations f)) i \<and>
             v = fst (unmarshal_any (var_value (flag_variations f ! nat i))) \<and>
             rs_error_kind rs \<noteq> Some ErrMalformedFlag
         | None \<Rightarrow> v = ANil \<and> rs_kind rs \<in> {ReasonOff, ReasonPrerequisiteFailed, ReasonError}))"

lemma coherent_malformed [simp]: "coherent f malformed"
  by (simp add: coherent_def malformed_def error_reason_def reason_of_def)

lemma coherent_variation [simp]:
  "rs_error_kind rs \<noteq> Some ErrMalformedFlag \<Longrightarrow> coherent f (variation_result f i rs)"
  by (simp add: variation_result_def) (simp add: coherent_def in_range_def)

lemma coherent_off [simp]:
  "rs_error_kind rs \<noteq> Some ErrMalformedFlag \<Longrightarrow>
   rs_kind rs \<in> {ReasonOff, ReasonPrerequisiteFailed, ReasonError} \<Longrightarrow> coherent f (off_result f cfg rs)"
  by (simp add: off_result_def split: option.split) (simp add: coherent_def)

lemma coherent_resolve [simp]:
  "rs_error_kind rs \<noteq> Some ErrMalformedFlag \<Longrightarrow> coherent f (resolve_variation_or_rollout f cfg vr ctx rs)"
  by (simp add: resolve_variation_or_rollout_def Let_def split: option.split)

lemmas reason_defs = reason_of_def error_reason_def rule_reason_def prereq_reason_def

lemma coherent_serve: "serve L S n ctx f cfg = Some res \<Longrightarrow> coherent f res"
  by (auto simp: serve_def reason_defs split: option.splits)

lemma coherent_eval_depth: "eval_depth L S n ctx depth visited f cfg = Some res \<Longrightarrow> coherent f res"
  by (subst (asm) eval_depth.simps)
    (auto simp: reason_defs coherent_serve split: if_splits option.splits)

text \<open>
  Every result of the evaluator is coherent: an index is always in range and comes with the
  decoded value of that variation, and a result without an index is nil with reason OFF,
  PREREQUISITE_FAILED or ERROR.
\<close>

theorem evaluate_coherent:
  assumes "evaluate L S n ctx f cfg = Some res"
  shows "coherent f res"
  using assms unfolding evaluate_def by (rule coherent_eval_depth)

lemma evaluate_coherent_witness:
  "coherent (bool_flag ''page'' []) (Some 1, ABool True, reason_of ReasonFallthrough)"
  by (rule evaluate_coherent [OF gated_page])

section \<open>Off, prerequisites, targets, rules, fallthrough\<close>

lemma evaluate_unfold:
  "evaluate L S n ctx f cfg =
     (if \<not> cfg_on cfg then Some (off_result f cfg (reason_of ReasonOff))
      else (case prereq_loop S (eval_depth L S n ctx 1 {flag_key f}) (cfg_prerequisites cfg) of
              None \<Rightarrow> None
            | Some (Some k) \<Rightarrow> Some (off_result f cfg (prereq_reason k))
            | Some None \<Rightarrow> serve L S n ctx f cfg))"
  unfolding evaluate_def by (subst eval_depth.simps) (simp add: max_prerequisite_depth_def)

definition error_of :: "eval_result \<Rightarrow> error_kind option" where
  "error_of res = rs_error_kind (snd (snd res))"

definition kind_of :: "eval_result \<Rightarrow> reason_kind" where
  "kind_of res = rs_kind (snd (snd res))"

definition plain_error :: "eval_result \<Rightarrow> bool" where
  "plain_error res \<longleftrightarrow> error_of res \<in> {None, Some ErrMalformedFlag}"

lemma plain_error_malformed [simp]: "plain_error malformed"
  by (simp add: plain_error_def error_of_def malformed_def error_reason_def)

lemma plain_error_variation [simp]: "rs_error_kind rs = None \<Longrightarrow> plain_error (variation_result f i rs)"
  by (simp add: variation_result_def) (simp add: plain_error_def error_of_def)

lemma plain_error_off [simp]: "rs_error_kind rs = None \<Longrightarrow> plain_error (off_result f cfg rs)"
  by (simp add: off_result_def split: option.split) (simp add: plain_error_def error_of_def)

lemma plain_error_resolve [simp]:
  "rs_error_kind rs = None \<Longrightarrow> plain_error (resolve_variation_or_rollout f cfg vr ctx rs)"
  by (simp add: resolve_variation_or_rollout_def Let_def split: option.split)

lemma plain_error_serve: "serve L S n ctx f cfg = Some res \<Longrightarrow> plain_error res"
  by (auto simp: serve_def reason_defs split: option.splits)

lemma plain_error_evaluate: "evaluate L S n ctx f cfg = Some res \<Longrightarrow> plain_error res"
  by (auto simp: evaluate_unfold reason_defs plain_error_serve split: if_splits option.splits)

text \<open>
  A caller of \<open>Evaluate\<close> never sees PREREQUISITE_CYCLE: the only error a result can carry is
  MALFORMED_FLAG, because the reason of a prerequisite's evaluation is thrown away.
\<close>

theorem evaluate_never_reports_cycle:
  "map_option error_of (evaluate L S n ctx f cfg) \<in> {None, Some None, Some (Some ErrMalformedFlag)}"
  using plain_error_evaluate [of L S n ctx f cfg]
  by (cases "evaluate L S n ctx f cfg") (auto simp: plain_error_def)

lemma prereq_loop_pass:
  "prereq_loop S ev ps = Some None \<longleftrightarrow>
     (\<forall>p \<in> set ps. \<exists>pf pcfg v rs. es_flag S (pq_flag_key p) = Some (pf, pcfg) \<and> cfg_on pcfg \<and>
        ev pf pcfg = Some (Some (pq_variation p), v, rs))"
  by (induction ps) (auto split: option.splits)

lemma rule_loop_hit_offset:
  "rule_loop m k rs = Some (Some (i, r)) \<longleftrightarrow>
     (\<exists>j. i = k + j \<and> j < length rs \<and> r = rs ! j \<and> m r = Some True \<and> (\<forall>l < j. m (rs ! l) = Some False))"
proof (induction rs arbitrary: k)
  case (Cons x xs)
  have shift: "(\<exists>j. i = k + j \<and> j < length (x # xs) \<and> r = (x # xs) ! j \<and> m r = Some True \<and>
        (\<forall>l < j. m ((x # xs) ! l) = Some False)) \<longleftrightarrow>
      (i = k \<and> r = x \<and> m x = Some True) \<or>
      (m x = Some False \<and> (\<exists>j. i = Suc k + j \<and> j < length xs \<and> r = xs ! j \<and> m r = Some True \<and>
        (\<forall>l < j. m (xs ! l) = Some False)))" (is "?L \<longleftrightarrow> ?R")
  proof
    assume ?L
    then obtain j where j: "i = k + j" "j < length (x # xs)" "r = (x # xs) ! j" "m r = Some True"
      "\<forall>l < j. m ((x # xs) ! l) = Some False" by blast
    show ?R
    proof (cases j)
      case 0
      then show ?thesis using j by simp
    next
      case (Suc j')
      then have "m x = Some False" "\<forall>l < j'. m (xs ! l) = Some False" using j(5) by fastforce+
      then show ?thesis using j Suc by auto
    qed
  next
    assume ?R
    then show ?L
    proof (elim disjE conjE exE)
      assume "i = k" "r = x" "m x = Some True"
      then show ?L by (intro exI [of _ 0]) simp
    next
      fix j assume "m x = Some False" "i = Suc k + j" "j < length xs" "r = xs ! j" "m r = Some True"
        "\<forall>l < j. m (xs ! l) = Some False"
      then show ?L by (intro exI [of _ "Suc j"]) (auto simp: less_Suc_eq_0_disj)
    qed
  qed
  show ?case unfolding shift using Cons by (auto split: option.split)
qed simp

lemma rule_loop_hit:
  "rule_loop m 0 rs = Some (Some (i, r)) \<longleftrightarrow>
     i < length rs \<and> r = rs ! i \<and> m r = Some True \<and> (\<forall>l < i. m (rs ! l) = Some False)"
  by (auto simp: rule_loop_hit_offset)

lemma rule_loop_miss: "rule_loop m k rs = Some None \<longleftrightarrow> (\<forall>r \<in> set rs. m r = Some False)"
  by (induction rs arbitrary: k) (auto split: option.split)

lemma target_loop_None: "target_loop k ts = None \<longleftrightarrow> (\<forall>t \<in> set ts. k \<notin> set (tg_context_keys t))"
  by (induction ts) auto

text \<open>What the reason of a result tells about its origin.\<close>

lemma kind_variation: "kind_of (variation_result f i rs) \<in> {rs_kind rs, ReasonError}"
  by (simp add: variation_result_def kind_of_def malformed_def reason_defs)

lemma kind_off: "kind_of (off_result f cfg rs) \<in> {rs_kind rs, ReasonError}"
  using kind_variation [of f _ rs] by (auto simp: off_result_def kind_of_def split: option.split)





end
