(* ===== verification/Prereqs.thy ===== *)
theory Prereqs
  imports Evaluate
begin

text \<open>
  Prerequisite graphs, step 2 of \<open>internal/eval/evaluate.go\<close>.

  The evaluator carries a depth and a set of visited keys. On a store that returns each flag under its
  own key and whose prerequisites have no cycle and chains of at most \<open>MaxPrerequisiteDepth\<close> flags,
  neither has any influence: evaluation satisfies the recursive equation one would write without
  them. A flag that requires itself is answered by its off variation.
\<close>

section \<open>Stores that return a flag under its own key\<close>

locale keyed_source =
  fixes S :: eval_store
  assumes keyed: "es_flag S k = Some (f, cfg) \<Longrightarrow> flag_key f = k"

text \<open>Prerequisites descend along \<open>fr\<close>.\<close>

definition descending :: "eval_store \<Rightarrow> (string \<Rightarrow> nat) \<Rightarrow> bool" where
  "descending S fr \<longleftrightarrow>
     (\<forall>k f cfg. es_flag S k = Some (f, cfg) \<longrightarrow>
        (\<forall>p \<in> set (cfg_prerequisites cfg). fr (pq_flag_key p) < fr k))"

text \<open>Step 2 to 5 over an evaluator \<open>ev\<close> of the prerequisites.\<close>

definition gate ::
    "libs \<Rightarrow> eval_store \<Rightarrow> nat \<Rightarrow> eval_context \<Rightarrow> (flag \<Rightarrow> flag_config \<Rightarrow> eval_result option) \<Rightarrow>
     flag \<Rightarrow> flag_config \<Rightarrow> eval_result option" where
  "gate L S n ctx ev f cfg =
     (if \<not> cfg_on cfg then Some (off_result f cfg (reason_of ReasonOff))
      else (case prereq_loop S ev (cfg_prerequisites cfg) of
              None \<Rightarrow> None
            | Some (Some k) \<Rightarrow> Some (off_result f cfg (prereq_reason k))
            | Some None \<Rightarrow> serve L S n ctx f cfg))"

lemma evaluate_gate: "evaluate L S n ctx f cfg = gate L S n ctx (eval_depth L S n ctx 1 {flag_key f}) f cfg"
  by (simp add: evaluate_unfold gate_def)

lemma eval_depth_gate:
  "depth \<le> max_prerequisite_depth \<Longrightarrow> flag_key f \<notin> visited \<Longrightarrow>
   eval_depth L S n ctx depth visited f cfg =
     gate L S n ctx (eval_depth L S n ctx (Suc depth) (insert (flag_key f) visited)) f cfg"
  by (subst eval_depth.simps) (simp add: gate_def)

lemma prereq_loop_cong:
  "(\<And>p pf pcfg. p \<in> set ps \<Longrightarrow> es_flag S (pq_flag_key p) = Some (pf, pcfg) \<Longrightarrow> ev pf pcfg = ev' pf pcfg) \<Longrightarrow>
   prereq_loop S ev ps = prereq_loop S ev' ps"
proof (induction ps)
  case (Cons p ps)
  have "prereq_loop S ev ps = prereq_loop S ev' ps"
    by (rule Cons.IH) (auto intro: Cons.prems)
  with Cons.prems [of p] show ?case by (auto split: option.split)
qed simp

lemma gate_cong:
  "(\<And>p pf pcfg. p \<in> set (cfg_prerequisites cfg) \<Longrightarrow> es_flag S (pq_flag_key p) = Some (pf, pcfg) \<Longrightarrow>
      ev pf pcfg = ev' pf pcfg) \<Longrightarrow>
   gate L S n ctx ev f cfg = gate L S n ctx ev' f cfg"
  using prereq_loop_cong [of "cfg_prerequisites cfg" S ev ev'] by (simp add: gate_def)

context keyed_source
begin

lemma depth_irrelevant:
  assumes "descending S fr"
  shows "es_flag S k = Some (f, cfg) \<Longrightarrow> fr k + depth \<le> max_prerequisite_depth \<Longrightarrow>
    \<forall>v \<in> visited. fr k < fr v \<Longrightarrow> eval_depth L S n ctx depth visited f cfg = evaluate L S n ctx f cfg"
proof (induction "fr k" arbitrary: k f cfg depth visited rule: less_induct)
  case less
  have fk: "flag_key f = k" by (rule keyed [OF less.prems(1)])
  have below: "eval_depth L S n ctx d vis pf pcfg = evaluate L S n ctx pf pcfg"
    if "p \<in> set (cfg_prerequisites cfg)" "es_flag S (pq_flag_key p) = Some (pf, pcfg)" "d \<le> Suc depth"
      "\<forall>v \<in> vis. fr k \<le> fr v" for p pf pcfg d vis
  proof -
    have "fr (pq_flag_key p) < fr k" using assms less.prems(1) that(1) unfolding descending_def by blast
    then show ?thesis using less.prems(2) that by (intro less.hyps [of "pq_flag_key p"]) auto
  qed
  have "eval_depth L S n ctx depth visited f cfg =
      gate L S n ctx (eval_depth L S n ctx (Suc depth) (insert (flag_key f) visited)) f cfg"
    using less.prems fk by (intro eval_depth_gate) auto
  also have "\<dots> = gate L S n ctx (evaluate L S n ctx) f cfg"
    using less.prems fk by (intro gate_cong below) auto
  also have "\<dots> = gate L S n ctx (eval_depth L S n ctx 1 {flag_key f}) f cfg"
    using fk by (intro gate_cong below [symmetric]) auto
  finally show ?case by (simp add: evaluate_gate)
qed

lemma recursive_equation:
  assumes "descending S fr" "es_flag S k = Some (f, cfg)" "fr k \<le> max_prerequisite_depth"
  shows "evaluate L S n ctx f cfg = gate L S n ctx (evaluate L S n ctx) f cfg"
  unfolding evaluate_gate [of L S n ctx f cfg]
proof (rule gate_cong)
  fix p pf pcfg
  assume p: "p \<in> set (cfg_prerequisites cfg)" "es_flag S (pq_flag_key p) = Some (pf, pcfg)"
  have fk: "flag_key f = k" by (rule keyed [OF assms(2)])
  have "fr (pq_flag_key p) < fr k" using assms(1,2) p(1) unfolding descending_def by blast
  then show "eval_depth L S n ctx 1 {flag_key f} pf pcfg = evaluate L S n ctx pf pcfg"
    using assms(3) fk by (intro depth_irrelevant [OF assms(1) p(2)]) auto
qed

end

section \<open>A flag that requires itself\<close>

text \<open>The off variation of a configuration, if it names a variation of the flag.\<close>

definition off_index :: "flag \<Rightarrow> flag_config \<Rightarrow> int option" where
  "off_index f cfg =
     (case cfg_off_variation cfg of None \<Rightarrow> None
      | Some i \<Rightarrow> if in_range (length (flag_variations f)) i then Some i else None)"

lemma fst_off_result: "fst (off_result f cfg rs) = off_index f cfg"
  by (auto simp: off_result_def off_index_def variation_result_def malformed_def in_range_def split: option.split)

lemma eval_depth_visited:
  "cfg_on cfg \<Longrightarrow> flag_key f \<in> visited \<Longrightarrow>
   eval_depth L S n ctx depth visited f cfg = Some (off_result f cfg (error_reason ErrPrereqCycle))"
  by (subst eval_depth.simps) simp

lemma option_triple: "(case r of (i, v, x) \<Rightarrow> P i) = P (fst r)"
  by (simp add: case_prod_beta)

text \<open>
  Nothing in the code rejects a flag that lists itself as a prerequisite. On evaluation the cycle
  is cut by the flag's own off variation: if that is the required variation the flag is served as if it
  had no prerequisite, otherwise it is off with reason PREREQUISITE_FAILED.
\<close>

theorem self_prerequisite:
  assumes "es_flag S (flag_key f) = Some (f, cfg)" "cfg_on cfg"
    and "cfg_prerequisites cfg = [\<lparr>pq_flag_key = flag_key f, pq_variation = v\<rparr>]"
  shows "evaluate L S n ctx f cfg =
    (if off_index f cfg = Some v then serve L S n ctx f cfg
     else Some (off_result f cfg (prereq_reason (flag_key f))))"
  using assms eval_depth_visited [of cfg f "{flag_key f}" L S n ctx 1]
  by (simp add: evaluate_unfold option_triple fst_off_result)

definition loop_config :: flag_config where
  "loop_config = on_config\<lparr>cfg_prerequisites := [\<lparr>pq_flag_key = ''loop'', pq_variation = 0\<rparr>]\<rparr>"

definition loop_store :: eval_store where
  "loop_store = \<lparr>es_flag = (\<lambda>k. if k = ''loop'' then Some (bool_flag ''loop'' [], loop_config) else None),
     es_segment = (\<lambda>_. None)\<rparr>"

lemma self_prerequisite_witness:
  "evaluate no_libs loop_store 0 (user_ctx ''u'') (bool_flag ''loop'' []) loop_config =
     serve no_libs loop_store 0 (user_ctx ''u'') (bool_flag ''loop'' []) loop_config"
  using self_prerequisite [of loop_store "bool_flag ''loop'' []" loop_config 0 no_libs 0 "user_ctx ''u''"]
  by (simp add: loop_store_def loop_config_def off_index_def in_range_def small_store)

end
