(* ===== verification/Rollouts.thy ===== *)
theory Rollouts
  imports Prereqs
begin

text \<open>
  Percentage rollouts, \<open>resolveVariationOrRollout\<close> of \<open>internal/eval/evaluate.go\<close>, on weights between
  0 and 100000.

  The code sums \<open>weight / 100000.0\<close> in \<open>float64\<close> and every addition rounds. The lemmas here need only
  the laws of the locale \<open>rounding\<close>: what a weight of zero does, what raising a weight does, and
  that a validated configuration never ends in MALFORMED_FLAG if its fallthrough and targets, which
  validation does not look at, are in range as well.
\<close>

section \<open>Sums of shares\<close>

definition share :: "int \<Rightarrow> rat" where
  "share w = fl (of_int w / 100000)"

definition sane :: "weighted_variation list \<Rightarrow> bool" where
  "sane wvs \<longleftrightarrow> (\<forall>wv \<in> set wvs. 0 \<le> wv_weight wv \<and> wv_weight wv \<le> 100000)"

lemma sane_simps [simp]:
  "sane []" "sane (wv # wvs) \<longleftrightarrow> 0 \<le> wv_weight wv \<and> wv_weight wv \<le> 100000 \<and> sane wvs"
  "sane (xs @ ys) \<longleftrightarrow> sane xs \<and> sane ys"
  by (auto simp: sane_def)

lemma fl_int: "\<bar>n\<bar> \<le> 2 ^ 53 \<Longrightarrow> fl (of_int n) = of_int n"
  by (rule fl_rep) (rule rep64_int)

lemma share_bounds: "0 \<le> w \<Longrightarrow> w \<le> 100000 \<Longrightarrow> 0 \<le> share w \<and> share w \<le> 1"
  using fl_mono [of "of_int w / 100000" 1] fl_int [of 1] by (auto simp: share_def intro: fl_nonneg)

lemma share_zero [simp]: "share 0 = 0"
  by (simp add: share_def)

lemma share_mono: "w \<le> w' \<Longrightarrow> share w \<le> share w'"
  unfolding share_def by (rule fl_mono) (simp add: divide_right_mono)

lemma weight_share_value:
  assumes "0 \<le> w" "w \<le> 100000"
  shows "weight_share w = Fin (share w)"
proof -
  have "float_of_int w = Fin (of_int w)"
    using assms fl_int [of w] by (simp add: float_of_int_def round64_small abs_le_iff)
  moreover have "round64 (of_int w / 100000) = Fin (share w)"
    unfolding share_def using assms by (intro round64_small) (simp add: abs_le_iff)
  ultimately show ?thesis by (simp add: weight_share_def float_ops)
qed

text \<open>Sums stay below \<open>2 ^ 53\<close>, where adding at most one no longer moves them.\<close>

lemma fl_top_sum: "fl (2 ^ 53 + 1) = 2 ^ 53"
proof -
  have "rne ((2 ^ 53 + 1) / 2) = 2 ^ 52" by (subst rne_tie [of _ "2 ^ 52"]) simp_all
  then show ?thesis by (subst fl_at [of 53]) simp_all
qed

definition partial :: "rat \<Rightarrow> bool" where
  "partial s \<longleftrightarrow> fl s = s \<and> 0 \<le> s \<and> s \<le> 2 ^ 53"

lemma partial_0 [simp]: "partial 0"
  by (simp add: partial_def)

lemma partial_step: "partial s \<Longrightarrow> 0 \<le> w \<Longrightarrow> w \<le> 100000 \<Longrightarrow> partial (fl (s + share w))"
  using fl_mono [of "s + share w" "2 ^ 53 + 1"] share_bounds [of w] fl_top_sum
  by (auto simp: partial_def fl.rnd_idem intro: fl_nonneg)

lemma add_share:
  assumes "partial s" "0 \<le> w" "w \<le> 100000"
  shows "Fin s + weight_share w = Fin (fl (s + share w))"
proof -
  have "\<bar>s + share w\<bar> \<le> 2 ^ 53 + 1" using assms share_bounds [of w] by (auto simp: partial_def)
  also have "\<dots> \<le> (2 :: rat) ^ 1023" by simp
  finally show ?thesis using assms by (simp add: weight_share_value float_ops round64_small)
qed

section \<open>Who is served\<close>

text \<open>
  The entry that serves a bucket, when \<open>wvs\<close> are all entries but the last: the first whose running sum
  exceeds the bucket, or the last.
\<close>

fun served_at :: "rat \<Rightarrow> rat \<Rightarrow> weighted_variation list \<Rightarrow> nat" where
  "served_at b s [] = 0"
| "served_at b s (wv # wvs) =
     (let s' = fl (s + share (wv_weight wv)) in if b < s' then 0 else Suc (served_at b s' wvs))"

lemma pick_served:
  "sane wvs \<Longrightarrow> partial s \<Longrightarrow>
   (case pick (Fin b) (Fin s) (wvs @ [l]) of Some v \<Rightarrow> v | None \<Rightarrow> wv_variation l) =
     wv_variation ((wvs @ [l]) ! served_at b s wvs)"
proof (induction wvs arbitrary: s)
  case (Cons wv wvs)
  then show ?case
    by (simp add: Let_def add_share partial_step) (simp add: float_ops)
qed (simp add: Let_def)

lemma rollout_served:
  "sane wvs \<Longrightarrow> rollout_variation (Fin b) (wvs @ [l]) = wv_variation ((wvs @ [l]) ! served_at b 0 wvs)"
  using pick_served [where wvs = wvs and s = 0 and b = b and l = l] by (simp add: rollout_variation_def cong: option.case_cong)

lemma served_at_le: "served_at b s wvs \<le> length wvs"
  by (induction wvs arbitrary: s) (auto simp: Let_def)

lemma served_at_weight:
  "sane wvs \<Longrightarrow> partial s \<Longrightarrow> s \<le> b \<Longrightarrow> served_at b s wvs < length wvs \<Longrightarrow>
   0 < wv_weight (wvs ! served_at b s wvs)"
proof (induction wvs arbitrary: s)
  case (Cons wv wvs)
  show ?case
  proof (cases "b < fl (s + share (wv_weight wv))")
    case True
    have "wv_weight wv \<noteq> 0"
    proof
      assume "wv_weight wv = 0"
      then show False using True Cons.prems by (simp add: partial_def)
    qed
    then show ?thesis using True Cons.prems by (simp add: Let_def)
  next
    case False
    then show ?thesis using Cons.prems Cons.IH [of "fl (s + share (wv_weight wv))"] partial_step [of s "wv_weight wv"]
      by (simp add: Let_def)
  qed
qed simp

definition raised :: "weighted_variation \<Rightarrow> weighted_variation \<Rightarrow> bool" where
  "raised x y \<longleftrightarrow> wv_variation x = wv_variation y \<and> wv_weight x \<le> wv_weight y"

lemma served_at_raised:
  "list_all2 raised xs ys \<Longrightarrow> s \<le> t \<Longrightarrow> served_at b t ys \<le> served_at b s xs"
proof (induction xs ys arbitrary: s t rule: list_all2_induct)
  case (Cons x xs y ys)
  have "fl (s + share (wv_weight x)) \<le> fl (t + share (wv_weight y))"
    using Cons by (intro fl.sum_mono share_mono) (auto simp: raised_def)
  with Cons.IH [OF this] show ?case by (auto simp: Let_def)
qed simp

lemma raised_variations: "list_all2 raised xs ys \<Longrightarrow> map wv_variation ys = map wv_variation xs"
  by (induction xs ys rule: list_all2_induct) (auto simp: raised_def)

text \<open>
  C4. Rollouts are stable when they grow. If the weights of all entries but the last are raised, a
  context moves to an earlier entry or stays where it is, whatever becomes of the last weight; so in
  a two-way split, raising the first percentage never takes the first variation from anyone.
\<close>

theorem rollout_growth:
  assumes "sane xs" "sane ys" "list_all2 raised xs ys" "wv_variation l = wv_variation l'"
  shows "\<exists>i j. j \<le> i \<and> i \<le> length xs \<and>
    rollout_variation (compute_bucket ctx bb key salt seed) (xs @ [l]) = map wv_variation (xs @ [l]) ! i \<and>
    rollout_variation (compute_bucket ctx bb key salt seed) (ys @ [l']) = map wv_variation (xs @ [l]) ! j \<and>
    (i < length xs \<longrightarrow> 0 < wv_weight (xs ! i))"
proof -
  obtain b where b: "compute_bucket ctx bb key salt seed = Fin b" "0 \<le> b"
    using compute_bucket_range by blast
  let ?i = "served_at b 0 xs" and ?j = "served_at b 0 ys"
  have len: "length ys = length xs" using assms(3) by (simp add: list_all2_lengthD)
  have same: "map wv_variation (ys @ [l']) = map wv_variation (xs @ [l])"
    using assms(4) raised_variations [OF assms(3)] by simp
  have "?j \<le> ?i" "?i \<le> length xs" using served_at_raised [OF assms(3)] served_at_le by auto
  moreover have "rollout_variation (Fin b) (xs @ [l]) = map wv_variation (xs @ [l]) ! ?i"
    using rollout_served [OF assms(1)] served_at_le [of b 0 xs] by (subst nth_map) auto
  moreover have "rollout_variation (Fin b) (ys @ [l']) = map wv_variation (ys @ [l']) ! ?j"
    using rollout_served [OF assms(2)] served_at_le [of b 0 ys] by (subst nth_map) auto
  ultimately show ?thesis unfolding b(1) same
    using served_at_weight [OF assms(1), of 0] b(2) by (intro exI [of _ ?i] exI [of _ ?j]) auto
qed

lemma rollout_growth_witness:
  "\<exists>i j. j \<le> i \<and> i \<le> 1 \<and>
    rollout_variation (compute_bucket (user_ctx ''u'') [] ''f'' ''s'' None)
      ([\<lparr>wv_variation = 0, wv_weight = 20000\<rparr>] @ [\<lparr>wv_variation = 1, wv_weight = 80000\<rparr>]) = [0, 1] ! i \<and>
    rollout_variation (compute_bucket (user_ctx ''u'') [] ''f'' ''s'' None)
      ([\<lparr>wv_variation = 0, wv_weight = 30000\<rparr>] @ [\<lparr>wv_variation = 1, wv_weight = 70000\<rparr>]) = [0, 1] ! j"
  using rollout_growth [of "[\<lparr>wv_variation = 0, wv_weight = 20000\<rparr>]" "[\<lparr>wv_variation = 0, wv_weight = 30000\<rparr>]"
      "\<lparr>wv_variation = 1, wv_weight = 80000\<rparr>" "\<lparr>wv_variation = 1, wv_weight = 70000\<rparr>"
      "user_ctx ''u''" "[]" "''f''" "''s''" None]
  by (auto simp: raised_def)

section \<open>When a result can be malformed\<close>

definition present :: "variation_or_rollout \<Rightarrow> bool" where
  "present vr \<longleftrightarrow> vr_variation vr \<noteq> None \<or> vr_rollout vr \<noteq> None"

text \<open>What validation checks, and what it leaves out.\<close>

definition complete_config :: "nat \<Rightarrow> flag_config \<Rightarrow> bool" where
  "complete_config n cfg \<longleftrightarrow>
     valid_config n cfg \<and> valid_serve n (cfg_fallthrough cfg) \<and> present (cfg_fallthrough cfg) \<and>
     (\<forall>r \<in> set (cfg_rules cfg). present (rule_serve r)) \<and>
     (\<forall>t \<in> set (cfg_targets cfg). in_range n (tg_variation t))"

lemma pick_in: "pick b s wvs = Some v \<Longrightarrow> v \<in> wv_variation ` set wvs"
  by (induction wvs arbitrary: s) (auto simp: Let_def split: if_splits)

lemma rollout_variation_in: "wvs \<noteq> [] \<Longrightarrow> rollout_variation b wvs \<in> wv_variation ` set wvs"
  by (auto simp: rollout_variation_def dest: pick_in split: option.split)

lemma error_variation: "in_range (length (flag_variations f)) i \<Longrightarrow> error_of (variation_result f i rs) = rs_error_kind rs"
  by (auto simp: variation_result_def in_range_def error_of_def)

lemma valid_rollout_nonempty: "valid_rollout n ro \<Longrightarrow> ro_variations ro \<noteq> []"
  by (auto simp: valid_rollout_def wrap64_def)

lemma error_resolve:
  assumes "valid_serve (length (flag_variations f)) vr" "present vr"
  shows "error_of (resolve_variation_or_rollout f cfg vr ctx rs) = rs_error_kind rs"
proof (cases "vr_variation vr")
  case (Some v)
  then show ?thesis using assms
    by (simp add: resolve_variation_or_rollout_def valid_serve_def error_variation)
next
  case None
  then obtain ro where ro: "vr_rollout vr = Some ro" "valid_rollout (length (flag_variations f)) ro"
    using assms by (auto simp: present_def valid_serve_def)
  have "in_range (length (flag_variations f)) (rollout_variation b (ro_variations ro))" for b
    using rollout_variation_in [OF valid_rollout_nonempty [OF ro(2)], of b] ro(2)
    by (auto simp: valid_rollout_def)
  then show ?thesis using None ro valid_rollout_nonempty [OF ro(2)]
    by (simp add: resolve_variation_or_rollout_def error_variation Let_def)
qed

lemma error_off:
  "valid_config (length (flag_variations f)) cfg \<Longrightarrow> error_of (off_result f cfg rs) = rs_error_kind rs"
  by (auto simp: off_result_def valid_config_def error_variation split: option.split) (simp add: error_of_def)

lemma target_loop_in: "target_loop k ts = Some v \<Longrightarrow> \<exists>t \<in> set ts. v = tg_variation t"
  by (induction ts) (auto split: if_splits)

lemma error_serve:
  assumes "complete_config (length (flag_variations f)) cfg" "serve L S n ctx f cfg = Some res"
  shows "error_of res = None"
  using assms by (auto simp: serve_def complete_config_def valid_config_def rule_loop_hit reason_defs
      error_resolve error_variation split: option.splits dest!: target_loop_in)

text \<open>
  C10. Validation is enough for everything but two places: if a configuration passes validation, every
  rule and the fallthrough say what to serve, and the fallthrough's variation and the variations of the
  targets are in range, then no evaluation ever ends in an error.
\<close>

theorem complete_never_malformed:
  assumes "complete_config (length (flag_variations f)) cfg" "evaluate L S n ctx f cfg = Some res"
  shows "error_of res = None"
proof -
  have v: "valid_config (length (flag_variations f)) cfg" using assms(1) by (simp add: complete_config_def)
  show ?thesis using assms(2) error_serve [OF assms(1), of L S n ctx res]
    by (auto simp: evaluate_unfold error_off [OF v] reason_defs split: if_splits option.splits)
qed

lemma complete_never_malformed_witness:
  "complete_config 2 gated_config \<and> error_of (Some 1, ABool True, reason_of ReasonFallthrough) = None"
proof -
  have c: "complete_config (length (flag_variations (bool_flag ''page'' []))) gated_config"
    by (simp add: complete_config_def valid_config_def valid_serve_def present_def in_range_def small_store)
  from c complete_never_malformed [OF c gated_page] show ?thesis by (simp add: bool_flag_def numeral_2_eq_2)
qed

text \<open>
  The two places validation leaves out are reachable: a flag that \<open>Flag.Validate\<close> accepts is
  answered MALFORMED_FLAG for every context, because its fallthrough names a variation it does not have.
\<close>

definition stray_config :: flag_config where
  "stray_config = sample_config\<lparr>cfg_fallthrough := serve_fixed 7\<rparr>"

theorem validated_malformed:
  "flag_validate (bool_flag ''f'' [(''prod'', Some stray_config)]) = Accept \<and>
   evaluate L S n ctx (bool_flag ''f'' [(''prod'', Some stray_config)]) stray_config = Some malformed"
  by (simp add: flag_validate_def bool_flag_def validate_flag_config_def stray_config_def sample_config_def
      serve_fixed_def in_range_def evaluate_unfold serve_def resolve_variation_or_rollout_def
      variation_result_def)

text \<open>
  The safety net is reachable as well: at the bucket 1.0 it serves the last entry, even one whose
  weight is zero next to a first entry of 100 percent.
\<close>

lemma full_rollout_leaks:
  "rollout_variation (digest_bucket top_digest)
     [\<lparr>wv_variation = 0, wv_weight = 100000\<rparr>, \<lparr>wv_variation = 1, wv_weight = 0\<rparr>] = 1"
proof -
  have d: "digest_bucket top_digest = Fin 1" by (rule top_bucket)
  have one: "fl 1 = 1" using fl_int [of 1] by simp
  have "served_at 1 0 [\<lparr>wv_variation = 0, wv_weight = 100000\<rparr>] = 1" by (simp add: share_def one)
  then show ?thesis using rollout_served [of "[\<lparr>wv_variation = 0, wv_weight = 100000\<rparr>]" 1
        "\<lparr>wv_variation = 1, wv_weight = 0\<rparr>"] unfolding d by simp
qed

end
