(* ===== verification/Ring.thy ===== *)
theory Ring
  imports Prelude
begin

text \<open>
  The replay buffer, \<open>internal/stream/ring.go\<close>, and the messages of \<open>internal/stream/types.go\<close>.

  The buffer is refined to the log of all messages ever appended: it holds the last \<open>capacity\<close> of them.
  The contract of such a log is the locale \<open>bounded_log\<close>; its client lemmas say when a replay is
  complete.
\<close>

section \<open>The code\<close>

text \<open>\<open>Data\<close> is of type \<open>any\<close>; \<open>None\<close> is nil.\<close>

record 'd message =
  msg_event :: string
  msg_version :: int
  msg_data :: "'d option"

definition zero_message :: "'d message" where
  "zero_message = \<lparr>msg_event = [], msg_version = 0, msg_data = None\<rparr>"

record 'd event_ring =
  er_buf :: "'d message list"
  er_capacity :: nat
  er_head :: nat
  er_count :: nat
  er_min :: int
  er_max :: int

definition new_event_ring :: "nat \<Rightarrow> 'd event_ring" where
  "new_event_ring cap = \<lparr>er_buf = replicate cap zero_message, er_capacity = cap, er_head = 0,
     er_count = 0, er_min = 0, er_max = 0\<rparr>"

definition ring_append :: "'d event_ring \<Rightarrow> 'd message \<Rightarrow> 'd event_ring" where
  "ring_append r msg =
     (let buf = (er_buf r)[er_head r := msg];
          head = (er_head r + 1) mod er_capacity r;
          cnt = (if er_count r < er_capacity r then er_count r + 1 else er_count r)
      in r\<lparr>er_buf := buf, er_head := head, er_count := cnt,
           er_max := (if er_max r < msg_version msg then msg_version msg else er_max r),
           er_min := (if cnt = er_capacity r then msg_version (buf ! head)
                      else if cnt = 1 then msg_version msg else er_min r)\<rparr>)"

text \<open>The loop from the oldest entry to the newest.\<close>

definition ring_walk :: "'d event_ring \<Rightarrow> 'd message list" where
  "ring_walk r =
     (let start = (er_head r + er_capacity r - er_count r) mod er_capacity r
      in map (\<lambda>i. er_buf r ! ((start + i) mod er_capacity r)) [0..<er_count r])"

text \<open>\<open>Since\<close>: \<open>None\<close> is the result \<open>false\<close>, the version is too old for a replay.\<close>

definition ring_since :: "'d event_ring \<Rightarrow> int \<Rightarrow> 'd message list option" where
  "ring_since r v =
     (if er_count r = 0 then Some []
      else if v < wrap64 (er_min r - 1) then None
      else if er_max r \<le> v then Some []
      else Some (filter (\<lambda>m. v < msg_version m) (ring_walk r)))"

section \<open>A log that keeps its last messages\<close>

definition last_n :: "nat \<Rightarrow> 'a list \<Rightarrow> 'a list" where
  "last_n n xs = drop (length xs - n) xs"

lemma last_n_length [simp]: "length (last_n n xs) = min n (length xs)"
  by (simp add: last_n_def)

lemma last_n_snoc: "last_n n (xs @ [x]) = last_n n (last_n n xs @ [x])"
  by (cases n; cases "n \<le> length xs") (auto simp: last_n_def Suc_diff_Suc)

lemma last_n_split: "xs = take (length xs - n) xs @ last_n n xs"
  by (simp add: last_n_def)

definition ascending :: "'d message list \<Rightarrow> bool" where
  "ascending ms \<longleftrightarrow> sorted_wrt (\<lambda>a b. msg_version a < msg_version b) ms"

locale bounded_log =
  fixes cap :: nat
    and holds :: "'r \<Rightarrow> 'd message list \<Rightarrow> bool"
    and start :: 'r
    and append :: "'r \<Rightarrow> 'd message \<Rightarrow> 'r"
    and since :: "'r \<Rightarrow> int \<Rightarrow> 'd message list option"
  assumes holds_start: "holds start []"
    and holds_append: "holds r log \<Longrightarrow> holds (append r m) (log @ [m])"
    and since_empty: "holds r [] \<Longrightarrow> since r v = Some []"
    and since_old: "holds r log \<Longrightarrow> log \<noteq> [] \<Longrightarrow> v < wrap64 (msg_version (hd (last_n cap log)) - 1) \<Longrightarrow> since r v = None"
    and since_some: "holds r log \<Longrightarrow> log \<noteq> [] \<Longrightarrow> \<not> v < wrap64 (msg_version (hd (last_n cap log)) - 1) \<Longrightarrow>
      since r v = Some (filter (\<lambda>m. v < msg_version m) (last_n cap log))"
    and cap_pos: "0 < cap"
begin

lemma holds_all: "holds (foldl append start ms) ms"
  by (induction ms rule: rev_induct) (simp_all add: holds_start holds_append)

lemma since_complete:
  assumes "holds r log" "ascending log" "\<forall>m \<in> set log. 0 < msg_version m \<and> int64_range (msg_version m)"
    and "since r v = Some ms"
  shows "ms = filter (\<lambda>m. v < msg_version m) log"
proof (cases "log = []")
  case True
  then show ?thesis using since_empty assms(1,4) by simp
next
  case False
  let ?old = "take (length log - cap) log" and ?new = "last_n cap log"
  have split: "log = ?old @ ?new" by (rule last_n_split)
  have ne: "?new \<noteq> []" using False cap_pos by (cases log) (auto simp: last_n_def)
  define lo where "lo = msg_version (hd ?new)"
  have "hd ?new \<in> set log" using ne split by (metis hd_in_set in_set_conv_decomp append_Cons append_Nil list.set_sel(1) Un_iff set_append)
  then have lo: "0 < lo" "int64_range lo" using assms(3) by (auto simp: lo_def)
  then have w: "wrap64 (lo - 1) = lo - 1" by (intro wrap64_id) (simp add: int64_range_def)
  have "\<not> v < lo - 1" using since_old [OF assms(1) False, of v] assms(4) by (auto simp: lo_def [symmetric] w)
  then have low: "lo - 1 \<le> v" by simp
  have "\<forall>a \<in> set ?old. \<forall>b \<in> set ?new. msg_version a < msg_version b"
    using assms(2) split unfolding ascending_def by (metis sorted_wrt_append)
  then have "\<forall>a \<in> set ?old. msg_version a < lo" using ne unfolding lo_def by simp
  then have "\<forall>a \<in> set ?old. \<not> v < msg_version a" using low by force
  then have "filter (\<lambda>m. v < msg_version m) log = filter (\<lambda>m. v < msg_version m) ?new"
    by (subst split) simp
  then show ?thesis using since_some [OF assms(1) False, of v] \<open>\<not> v < lo - 1\<close> assms(4)
    by (simp add: lo_def [symmetric] w)
qed

end

section \<open>The ring holds the end of the log\<close>

definition top_version :: "'d message list \<Rightarrow> int" where
  "top_version log = foldl (\<lambda>a m. if a < msg_version m then msg_version m else a) 0 log"

text \<open>The message appended as number \<open>j\<close> sits at \<open>j mod capacity\<close>, if it is one of the last.\<close>

definition ring_holds :: "nat \<Rightarrow> 'd event_ring \<Rightarrow> 'd message list \<Rightarrow> bool" where
  "ring_holds cap r log \<longleftrightarrow>
     er_capacity r = cap \<and> length (er_buf r) = cap \<and> er_count r = min (length log) cap \<and>
     er_head r = length log mod cap \<and>
     (\<forall>j < length log. length log \<le> j + cap \<longrightarrow> er_buf r ! (j mod cap) = log ! j) \<and>
     er_max r = top_version log \<and>
     (log \<noteq> [] \<longrightarrow> er_min r = msg_version (log ! (length log - er_count r)))"

lemma mod_distinct: "(j :: nat) < n \<Longrightarrow> n < j + cap \<Longrightarrow> j mod cap \<noteq> n mod cap"
proof
  assume j: "j < n" "n < j + cap" and eq: "j mod cap = n mod cap"
  then have "cap dvd n - j" by (metis less_imp_le mod_eq_dvd_iff_nat)
  then have "cap \<le> n - j" using j by (intro dvd_imp_le) auto
  then show False using j by simp
qed

lemma top_version_snoc:
  "top_version (log @ [m]) = (if top_version log < msg_version m then msg_version m else top_version log)"
  by (simp add: top_version_def)

lemma top_version_max: "m \<in> set log \<Longrightarrow> msg_version m \<le> top_version log"
  by (induction log rule: rev_induct) (auto simp: top_version_snoc)

lemma ring_holds_start: "0 < cap \<Longrightarrow> ring_holds cap (new_event_ring cap) []"
  by (simp add: ring_holds_def new_event_ring_def top_version_def)

lemma ring_holds_append:
  assumes "0 < cap" "ring_holds cap r log"
  shows "ring_holds cap (ring_append r m) (log @ [m])"
proof -
  note h = assms(2) [unfolded ring_holds_def]
  define n where "n = length log"
  define buf where "buf = (er_buf r)[er_head r := m]"
  have head: "er_head r = n mod cap" "(er_head r + 1) mod cap = Suc n mod cap"
    using h by (simp_all add: n_def mod_Suc_eq)
  have hc: "er_capacity r = cap" using h by blast
  have fields: "er_count (ring_append r m) = (if er_count r < er_capacity r then er_count r + 1 else er_count r)"
    "er_min (ring_append r m) =
      (if (if er_count r < er_capacity r then er_count r + 1 else er_count r) = er_capacity r
       then msg_version ((er_buf r)[er_head r := m] ! ((er_head r + 1) mod er_capacity r))
       else if (if er_count r < er_capacity r then er_count r + 1 else er_count r) = 1
       then msg_version m else er_min r)"
    by (simp_all add: ring_append_def Let_def)
  have cell: "buf ! (j mod cap) = (log @ [m]) ! j" if "j < Suc n" "Suc n \<le> j + cap" for j
  proof (cases "j = n")
    case True
    then show ?thesis using h head(1) assms(1) by (simp add: buf_def n_def)
  next
    case False
    then have "j mod cap \<noteq> n mod cap" using that by (intro mod_distinct) auto
    then show ?thesis using h False that head(1) by (simp add: buf_def n_def nth_append)
  qed
  have cnt: "(if er_count r < er_capacity r then er_count r + 1 else er_count r) = min (Suc n) cap"
    using h by (auto simp: n_def)
  have low: "(if min (Suc n) cap = cap then msg_version (buf ! (Suc n mod cap))
      else if min (Suc n) cap = 1 then msg_version m else er_min r) =
      msg_version ((log @ [m]) ! (Suc n - min (Suc n) cap))"
  proof (cases "cap \<le> Suc n")
    case True
    then show ?thesis using cell [of "Suc n - cap"] assms(1) by (simp add: le_mod_geq)
  next
    case False
    then show ?thesis using h by (cases log) (auto simp: n_def nth_append)
  qed
  show ?thesis unfolding ring_holds_def
  proof (intro conjI)
    show "\<forall>j < length (log @ [m]). length (log @ [m]) \<le> j + cap \<longrightarrow>
        er_buf (ring_append r m) ! (j mod cap) = (log @ [m]) ! j"
      using cell by (simp add: ring_append_def buf_def n_def Let_def)
    show "log @ [m] \<noteq> [] \<longrightarrow> er_min (ring_append r m) =
        msg_version ((log @ [m]) ! (length (log @ [m]) - er_count (ring_append r m)))"
    proof -
      have "er_count (ring_append r m) = min (Suc n) cap"
        "er_min (ring_append r m) = (if min (Suc n) cap = cap then msg_version (buf ! (Suc n mod cap))
           else if min (Suc n) cap = 1 then msg_version m else er_min r)"
        unfolding fields cnt by (simp_all only: hc head(1) buf_def head(2) [unfolded head(1)])
      then show ?thesis using low by (simp add: n_def)
    qed
  qed (use h head cnt in \<open>simp_all add: ring_append_def Let_def top_version_snoc n_def\<close>)
qed

lemma ring_walk_last:
  assumes "0 < cap" "ring_holds cap r log"
  shows "ring_walk r = last_n cap log"
proof -
  note h = assms(2) [unfolded ring_holds_def]
  define n c where "n = length log" "c = min (length log) cap"
  have cc: "c \<le> n" "c \<le> cap" "er_count r = c" "er_capacity r = cap" using h by (auto simp: n_c_def)
  have start: "(er_head r + cap - c) mod cap = (n - c) mod cap"
  proof (cases "n < cap")
    case True
    then show ?thesis using h by (simp add: n_c_def min_def)
  next
    case False
    then show ?thesis using h by (simp add: n_c_def min_def le_mod_geq)
  qed
  have "er_buf r ! (((er_head r + cap - c) mod cap + i) mod cap) = log ! (n - c + i)" if "i < c" for i
  proof -
    have "((er_head r + cap - c) mod cap + i) mod cap = (n - c + i) mod cap"
      unfolding start by (simp add: mod_simps)
    moreover have "er_buf r ! ((n - c + i) mod cap) = log ! (n - c + i)"
      using h that cc by (auto simp: n_c_def)
    ultimately show ?thesis by simp
  qed
  then have "ring_walk r = map (\<lambda>i. log ! (n - c + i)) [0..<c]"
    using cc by (simp add: ring_walk_def Let_def)
  also have "\<dots> = last_n cap log"
    by (rule nth_equalityI) (auto simp: last_n_def n_c_def min_def)
  finally show ?thesis .
qed

lemma ring_min: "0 < cap \<Longrightarrow> ring_holds cap r log \<Longrightarrow> log \<noteq> [] \<Longrightarrow> er_min r = msg_version (hd (last_n cap log))"
  by (auto simp: ring_holds_def last_n_def hd_drop_conv_nth min_def)

lemma ring_count: "0 < cap \<Longrightarrow> ring_holds cap r log \<Longrightarrow> er_count r = 0 \<longleftrightarrow> log = []"
  by (auto simp: ring_holds_def min_def split: if_splits)

interpretation ring: bounded_log 256 "ring_holds 256" "new_event_ring 256" ring_append ring_since
proof (unfold_locales, goal_cases)
  case 1 then show ?case by (simp add: ring_holds_start)
next
  case (2 r log m) then show ?case by (simp add: ring_holds_append)
next
  case (3 r v) then show ?case by (simp add: ring_since_def ring_count [of 256])
next
  case (4 r log v) then show ?case by (simp add: ring_since_def ring_count [of 256] ring_min [of 256])
next
  case (5 r log v)
  have "filter (\<lambda>m. v < msg_version m) (last_n 256 log) = []" if "er_max r \<le> v"
    using that 5 top_version_max [of _ log]
    by (fastforce simp: filter_empty_conv ring_holds_def last_n_def dest: in_set_dropD)
  then show ?case using 5 by (simp add: ring_since_def ring_count [of 256] ring_min [of 256] ring_walk_last [of 256])
qed simp

text \<open>
  C14. A replay is complete or refused: when the versions published to an environment ascend, what
  \<open>Since\<close> returns for a version is every message ever published after it, in order and nothing else;
  once a message after it has been overwritten it refuses, so the client gets a full snapshot.
\<close>

theorem replay_complete:
  assumes "ascending log" "\<forall>m \<in> set log. 0 < msg_version m \<and> int64_range (msg_version m)"
  shows "case ring_since (foldl ring_append (new_event_ring 256) log) v of
      Some ms \<Rightarrow> ms = filter (\<lambda>m. v < msg_version m) log
    | None \<Rightarrow> log \<noteq> [] \<and> v < wrap64 (msg_version (hd (last_n 256 log)) - 1)"
proof -
  let ?r = "foldl ring_append (new_event_ring 256) log"
  have h: "ring_holds 256 ?r log" by (rule ring.holds_all)
  show ?thesis
  proof (cases "ring_since ?r v")
    case None
    then have "log \<noteq> []" using h ring.since_empty by force
    moreover have "v < wrap64 (msg_version (hd (last_n 256 log)) - 1)"
      using None ring.since_some [OF h \<open>log \<noteq> []\<close>, of v] by fastforce
    ultimately show ?thesis using None by simp
  next
    case (Some ms)
    then show ?thesis using ring.since_complete [OF h assms Some] by simp
  qed
qed

definition version_message :: "int \<Rightarrow> 'd message" where
  "version_message v = \<lparr>msg_event = ''put'', msg_version = v, msg_data = None\<rparr>"

lemma replay_complete_witness:
  "case ring_since (foldl ring_append (new_event_ring 256) [version_message 3, version_message 4]) 3 of
      Some ms \<Rightarrow> ms = [version_message 4 :: unit message] | None \<Rightarrow> False"
proof -
  have a: "ascending [version_message 3, version_message 4 :: unit message]"
    by (simp add: ascending_def version_message_def)
  have b: "\<forall>m \<in> set [version_message 3, version_message 4 :: unit message]. 0 < msg_version m \<and> int64_range (msg_version m)"
    by (simp add: version_message_def int64_range_def)
  show ?thesis using replay_complete [OF a b, of 3]
    by (auto simp: version_message_def wrap64_def last_n_def split: option.splits)
qed

end
