(* ===== verification/Hub.thy ===== *)
theory Hub
  imports Ring
begin

text \<open>
  The streaming hub, \<open>internal/stream/hub.go\<close>: who is subscribed to an environment, what is in each
  subscriber's channel, and the replay buffers.

  A channel outlives its subscription (the handler that reads it holds a pointer to it), so the
  channels are a map of their own, from the subscriber's id. \<open>Publish\<close> copies the subscribers under the
  lock and then sends to each without blocking.
\<close>

section \<open>The code\<close>

record subscriber =
  sb_id :: string
  sb_env_key :: string
  sb_project_key :: string
  sb_sdk_key :: string
  sb_user_agent :: string
  sb_connected_at :: int

record 'd hub =
  hb_by_env :: "subscriber gomap gomap"
  hb_rings :: "'d event_ring gomap"
  hb_active :: int
  hb_slow :: int
  hb_published :: int
  hb_seq :: int
  hb_chans :: "'d message list gomap"
  hb_last_sent :: "int gomap"

definition new_hub :: "'d hub" where
  "new_hub = \<lparr>hb_by_env = [], hb_rings = [], hb_active = 0, hb_slow = 0, hb_published = 0, hb_seq = 0,
     hb_chans = [], hb_last_sent = []\<rparr>"

definition chan_capacity :: nat where
  "chan_capacity = 32"

definition ensure_env :: "'d hub \<Rightarrow> string \<Rightarrow> 'd hub" where
  "ensure_env h e =
     h\<lparr>hb_by_env := (if mget (hb_by_env h) e = None then mput e [] (hb_by_env h) else hb_by_env h),
       hb_rings := (if mget (hb_rings h) e = None then mput e (new_event_ring 256) (hb_rings h) else hb_rings h)\<rparr>"

definition subs_of :: "'d hub \<Rightarrow> string \<Rightarrow> subscriber gomap" where
  "subs_of h e = (case mget (hb_by_env h) e of None \<Rightarrow> [] | Some m \<Rightarrow> m)"

definition subscribe ::
    "int \<Rightarrow> 'd hub \<Rightarrow> string \<Rightarrow> string \<Rightarrow> string \<Rightarrow> string \<Rightarrow> 'd hub \<times> subscriber" where
  "subscribe now h e pk key ua =
     (let h1 = ensure_env h e;
          n = wrap64 (hb_seq h1 + 1);
          i = ''sub-'' @ itoa n;
          sub = \<lparr>sb_id = i, sb_env_key = e, sb_project_key = pk, sb_sdk_key = key, sb_user_agent = ua,
                 sb_connected_at = now\<rparr>
      in (h1\<lparr>hb_seq := n, hb_by_env := mput e (mput i sub (subs_of h1 e)) (hb_by_env h1),
             hb_active := wrap64 (hb_active h1 + 1), hb_chans := mput i [] (hb_chans h1)\<rparr>, sub))"

definition unsubscribe :: "'d hub \<Rightarrow> string \<Rightarrow> string \<Rightarrow> 'd hub" where
  "unsubscribe h e i =
     (case mget (hb_by_env h) e of None \<Rightarrow> h
      | Some m \<Rightarrow>
          if mget m i = None then h
          else h\<lparr>hb_by_env := mput e (mdel i m) (hb_by_env h), hb_active := wrap64 (hb_active h - 1)\<rparr>)"

text \<open>The non-blocking send: whether there was room.\<close>

definition chan_of :: "'d hub \<Rightarrow> string \<Rightarrow> 'd message list" where
  "chan_of h i = (case mget (hb_chans h) i of None \<Rightarrow> [] | Some c \<Rightarrow> c)"

definition has_room :: "'d hub \<Rightarrow> string \<Rightarrow> bool" where
  "has_room h i \<longleftrightarrow> length (chan_of h i) < chan_capacity"

definition send :: "'d message \<Rightarrow> string \<Rightarrow> 'd hub \<Rightarrow> 'd hub" where
  "send msg i h =
     h\<lparr>hb_chans := mput i (chan_of h i @ [msg]) (hb_chans h),
       hb_last_sent := mput i (msg_version msg) (hb_last_sent h)\<rparr>"

fun send_all :: "'d message \<Rightarrow> string list \<Rightarrow> 'd hub \<Rightarrow> 'd hub \<times> string list" where
  "send_all msg [] h = (h, [])"
| "send_all msg (i # is) h =
     (if has_room h i then send_all msg is (send msg i h)
      else (case send_all msg is h of (h', slow) \<Rightarrow> (h', i # slow)))"

fun drop_slow :: "string \<Rightarrow> string list \<Rightarrow> 'd hub \<Rightarrow> 'd hub" where
  "drop_slow e [] h = h"
| "drop_slow e (i # is) h =
     drop_slow e is (unsubscribe (h\<lparr>hb_slow := wrap64 (hb_slow h + 1)\<rparr>) e i)"

definition publish :: "'d hub \<Rightarrow> string \<Rightarrow> 'd message \<Rightarrow> 'd hub" where
  "publish h e msg =
     (let h1 = (case mget (hb_rings h) e of None \<Rightarrow> h
                | Some r \<Rightarrow> h\<lparr>hb_rings := mput e (ring_append r msg) (hb_rings h)\<rparr>);
          ids = map (\<lambda>(k, s). sb_id s) (subs_of h1 e);
          (h2, slow) = send_all msg ids (h1\<lparr>hb_published := wrap64 (hb_published h1 + 1)\<rparr>)
      in drop_slow e slow h2)"

definition replay :: "'d hub \<Rightarrow> string \<Rightarrow> int \<Rightarrow> 'd message list option" where
  "replay h e v = Option.bind (mget (hb_rings h) e) (\<lambda>r. ring_since r v)"

definition active_count :: "'d hub \<Rightarrow> string \<Rightarrow> nat" where
  "active_count h e = length (subs_of h e)"

text \<open>The handler that owns a channel takes the oldest message out of it.\<close>

definition receive :: "'d hub \<Rightarrow> string \<Rightarrow> 'd hub" where
  "receive h i = h\<lparr>hb_chans := (case mget (hb_chans h) i of None \<Rightarrow> hb_chans h
     | Some c \<Rightarrow> mput i (tl c) (hb_chans h))\<rparr>"

section \<open>Runs\<close>

datatype 'd hub_op =
    Subscribe int string string string string
  | Unsubscribe string string
  | Publish string "'d message"
  | Receive string

fun hub_apply :: "'d hub \<Rightarrow> 'd hub_op \<Rightarrow> 'd hub" where
  "hub_apply h (Subscribe now e pk key ua) = fst (subscribe now h e pk key ua)"
| "hub_apply h (Unsubscribe e i) = unsubscribe h e i"
| "hub_apply h (Publish e m) = publish h e m"
| "hub_apply h (Receive i) = receive h i"

definition hub_run :: "'d hub_op list \<Rightarrow> 'd hub" where
  "hub_run ops = foldl hub_apply new_hub ops"

section \<open>Counting subscriptions\<close>

definition total :: "subscriber gomap gomap \<Rightarrow> int" where
  "total M = int (sum_list (map (\<lambda>(e, m). length m) M))"

definition entry :: "'v gomap gomap \<Rightarrow> string \<Rightarrow> 'v gomap" where
  "entry M e = (case mget M e of None \<Rightarrow> [] | Some m \<Rightarrow> m)"

lemma total_put: "total (mput e m M) = total M + int (length m) - int (length (entry M e))"
  by (induction M) (auto simp: total_def entry_def)

lemma length_put: "length (mput i s m) = length m + (if mget m i = None then 1 else 0)"
  by (induction m) auto

lemma length_del: "wf_map m \<Longrightarrow> length (mdel i m) + (if mget m i = None then 0 else 1) = length m"
  by (induction m) (auto simp: wf_map_def image_iff delete_id split: if_splits dest: map_of_SomeD)

definition sub_id :: "int \<Rightarrow> string" where
  "sub_id n = ''sub-'' @ itoa n"

lemma sub_id_inject [simp]: "sub_id m = sub_id n \<longleftrightarrow> m = n"
  by (simp add: sub_id_def itoa_inject)

text \<open>
  The invariant: ids are unique across the hub and never larger than the sequence number, every
  environment with subscribers has a ring, channels hold at most 32 messages, and the gauge of active
  connections is the number of subscriptions.
\<close>

definition hub_inv :: "'d hub \<Rightarrow> bool" where
  "hub_inv h \<longleftrightarrow>
     (\<forall>e m. mget (hb_by_env h) e = Some m \<longrightarrow> wf_map m \<and> mget (hb_rings h) e \<noteq> None) \<and>
     (\<forall>e m i s. mget (hb_by_env h) e = Some m \<longrightarrow> mget m i = Some s \<longrightarrow>
        sb_id s = i \<and> sb_env_key s = e \<and> (\<exists>n. 1 \<le> n \<and> n \<le> hb_seq h \<and> i = sub_id n)) \<and>
     (\<forall>i c. mget (hb_chans h) i = Some c \<longrightarrow> length c \<le> chan_capacity) \<and>
     hb_active h = total (hb_by_env h) \<and> total (hb_by_env h) \<le> hb_seq h \<and> hb_seq h < 2 ^ 63"

lemma hub_invD:
  assumes "hub_inv h"
  shows "mget (hb_by_env h) e = Some m \<Longrightarrow> wf_map m" "mget (hb_by_env h) e = Some m \<Longrightarrow> mget (hb_rings h) e \<noteq> None"
    "mget (hb_by_env h) e = Some m \<Longrightarrow> mget m i = Some s \<Longrightarrow> sb_id s = i \<and> sb_env_key s = e"
    "mget (hb_by_env h) e = Some m \<Longrightarrow> mget m i = Some s \<Longrightarrow> \<exists>n. 1 \<le> n \<and> n \<le> hb_seq h \<and> i = sub_id n"
    "mget (hb_chans h) i = Some c \<Longrightarrow> length c \<le> chan_capacity"
    "hb_active h = total (hb_by_env h)" "total (hb_by_env h) \<le> hb_seq h" "hb_seq h < 2 ^ 63"
  using assms unfolding hub_inv_def by blast+

lemma hub_invI:
  assumes "\<And>e m. mget (hb_by_env h) e = Some m \<Longrightarrow> wf_map m \<and> mget (hb_rings h) e \<noteq> None"
    and "\<And>e m i s. mget (hb_by_env h) e = Some m \<Longrightarrow> mget m i = Some s \<Longrightarrow>
      sb_id s = i \<and> sb_env_key s = e \<and> (\<exists>n. 1 \<le> n \<and> n \<le> hb_seq h \<and> i = sub_id n)"
    and "\<And>i c. mget (hb_chans h) i = Some c \<Longrightarrow> length c \<le> chan_capacity"
    and "hb_active h = total (hb_by_env h)" "total (hb_by_env h) \<le> hb_seq h" "hb_seq h < 2 ^ 63"
  shows "hub_inv h"
  unfolding hub_inv_def using assms by blast

lemma total_nonneg: "0 \<le> total M"
  by (simp add: total_def)

lemma hub_inv_new: "hub_inv new_hub"
  by (simp add: hub_inv_def new_hub_def total_def)

text \<open>Steps that touch neither the subscriptions nor the sequence number.\<close>

lemma hub_inv_chans:
  assumes "hub_inv h" "hb_by_env h' = hb_by_env h" "hb_active h' = hb_active h" "hb_seq h' = hb_seq h"
    and "\<And>e. mget (hb_rings h) e \<noteq> None \<Longrightarrow> mget (hb_rings h') e \<noteq> None"
    and "\<And>i c. mget (hb_chans h') i = Some c \<Longrightarrow> length c \<le> chan_capacity"
  shows "hub_inv h'"
  using assms(1) unfolding hub_inv_def assms(2-4) using assms(5,6) by blast

lemma hub_inv_unsubscribe:
  assumes "hub_inv h"
  shows "hub_inv (unsubscribe h e i)"
proof (cases "mget (hb_by_env h) e")
  case None
  then show ?thesis using assms by (simp add: unsubscribe_def)
next
  case (Some m)
  show ?thesis
  proof (cases "mget m i")
    case None
    then show ?thesis using assms Some by (simp add: unsubscribe_def)
  next
    case (Some s)
    note d = hub_invD [OF assms]
    have u: "unsubscribe h e i = h\<lparr>hb_by_env := mput e (mdel i m) (hb_by_env h), hb_active := wrap64 (hb_active h - 1)\<rparr>"
      using Some \<open>mget (hb_by_env h) e = Some m\<close> by (simp add: unsubscribe_def)
    have wf: "wf_map m" by (rule d(1)) fact
    have len: "length m \<noteq> 0" using Some by (cases m) auto
    have t: "total (mput e (mdel i m) (hb_by_env h)) = total (hb_by_env h) - 1"
      using Some \<open>mget (hb_by_env h) e = Some m\<close> length_del [OF wf, of i]
      by (simp add: total_put entry_def)
    have a: "wrap64 (hb_active h - 1) = total (mput e (mdel i m) (hb_by_env h))"
      using d(6,7,8) t total_nonneg [of "mput e (mdel i m) (hb_by_env h)"]
      by (subst wrap64_id) (auto simp: int64_range_def)
    show ?thesis unfolding u
      by (rule hub_invI) (use d wf a t \<open>mget (hb_by_env h) e = Some m\<close> in \<open>auto simp: map_simps split: if_splits\<close>)
  qed
qed

lemma entry_subs: "subs_of h e = entry (hb_by_env h) e"
  by (simp add: subs_of_def entry_def)

lemma ensure_env_fields [simp]:
  "hb_seq (ensure_env h e) = hb_seq h" "hb_active (ensure_env h e) = hb_active h"
  "hb_chans (ensure_env h e) = hb_chans h" "subs_of (ensure_env h e) e' = subs_of h e'"
  "total (hb_by_env (ensure_env h e)) = total (hb_by_env h)"
  by (auto simp: ensure_env_def subs_of_def map_simps total_put entry_def)

lemma ensure_env_get:
  "mget (hb_by_env (ensure_env h e)) e' = (if e' = e then Some (subs_of h e) else mget (hb_by_env h) e')"
  by (auto simp: ensure_env_def subs_of_def map_simps)

lemma ensure_env_ring:
  "mget (hb_rings (ensure_env h e)) e' =
     (if e' = e \<and> mget (hb_rings h) e = None then Some (new_event_ring 256) else mget (hb_rings h) e')"
  by (auto simp: ensure_env_def map_simps)

lemma subs_facts:
  assumes "hub_inv h"
  shows "wf_map (subs_of h e)"
    "mget (subs_of h e) i = Some s \<Longrightarrow> sb_id s = i \<and> sb_env_key s = e \<and> (\<exists>n. 1 \<le> n \<and> n \<le> hb_seq h \<and> i = sub_id n)"
  using hub_invD(1,3,4) [OF assms, of e] by (auto simp: subs_of_def split: option.splits)

lemma hub_inv_subscribe:
  assumes "hub_inv h" "hb_seq h + 1 < 2 ^ 63"
  shows "hub_inv (fst (subscribe now h e pk key ua))"
    and "hb_seq (fst (subscribe now h e pk key ua)) = hb_seq h + 1"
proof -
  note d = hub_invD [OF assms(1)]
  have seq: "0 \<le> hb_seq h" using d(7) total_nonneg [of "hb_by_env h"] by simp
  have w: "wrap64 (hb_seq h + 1) = hb_seq h + 1" using assms(2) seq by (intro wrap64_id) (simp add: int64_range_def)
  define i sub where i: "i = sub_id (hb_seq h + 1)" and sub: "sub = \<lparr>sb_id = i, sb_env_key = e,
    sb_project_key = pk, sb_sdk_key = key, sb_user_agent = ua, sb_connected_at = now\<rparr>"
  define m where m: "m = mput i sub (subs_of h e)"
  define h' where h': "h' = (ensure_env h e)\<lparr>hb_seq := hb_seq h + 1,
    hb_by_env := mput e m (hb_by_env (ensure_env h e)),
    hb_active := wrap64 (hb_active h + 1), hb_chans := mput i [] (hb_chans h)\<rparr>"
  have eq: "fst (subscribe now h e pk key ua) = h'"
    by (simp add: subscribe_def Let_def w h' m sub i sub_id_def)
  have new: "mget (subs_of h e) i = None"
    using subs_facts(2) [OF assms(1), of e i] by (cases "mget (subs_of h e) i") (auto simp: i)
  have len: "length m = length (subs_of h e) + 1" using new by (simp add: m length_put)
  have old: "entry (hb_by_env (ensure_env h e)) e = subs_of h e" by (simp add: entry_subs [symmetric])
  have t: "total (mput e m (hb_by_env (ensure_env h e))) = total (hb_by_env h) + 1"
    by (simp add: total_put old len)
  have a: "wrap64 (hb_active h + 1) = total (hb_by_env h) + 1"
    using d(6,7,8) total_nonneg [of "hb_by_env h"] assms(2) by (subst wrap64_id) (auto simp: int64_range_def)
  have mg: "mget (hb_by_env h') e' = (if e' = e then Some m else mget (hb_by_env h) e')" for e'
    by (simp add: h' map_simps ensure_env_get)
  have rg: "mget (hb_rings h') e' \<noteq> None \<longleftrightarrow> e' = e \<or> mget (hb_rings h) e' \<noteq> None" for e'
    by (auto simp: h' ensure_env_ring)
  have "hub_inv h'"
  proof (rule hub_invI)
    show "wf_map m' \<and> mget (hb_rings h') e' \<noteq> None" if "mget (hb_by_env h') e' = Some m'" for e' m'
      using that d(1,2) subs_facts(1) [OF assms(1), of e] unfolding mg rg
      by (auto simp: m map_simps split: if_splits)
    show "sb_id s = j \<and> sb_env_key s = e' \<and> (\<exists>n. 1 \<le> n \<and> n \<le> hb_seq h' \<and> j = sub_id n)"
      if "mget (hb_by_env h') e' = Some m'" "mget m' j = Some s" for e' m' j s
    proof (cases "e' = e \<and> j = i")
      case True
      then show ?thesis using that seq unfolding mg by (auto simp: m map_simps sub i h')
    next
      case False
      then have "sb_id s = j \<and> sb_env_key s = e' \<and> (\<exists>n. 1 \<le> n \<and> n \<le> hb_seq h \<and> j = sub_id n)"
        using that d(3,4) subs_facts(2) [OF assms(1), of e j s] unfolding mg
        by (auto simp: m map_simps split: if_splits)
      then show ?thesis by (force simp: h')
    qed
    show "length c \<le> chan_capacity" if "mget (hb_chans h') j = Some c" for j c
      using that d(5) by (auto simp: h' map_simps split: if_splits)
  qed (use t a d(7) assms(2) in \<open>simp_all add: h'\<close>)
  then show "hub_inv (fst (subscribe now h e pk key ua))"
    "hb_seq (fst (subscribe now h e pk key ua)) = hb_seq h + 1"
    by (simp_all add: eq h')
qed

section \<open>Publishing\<close>

text \<open>Everything of the hub but the channels.\<close>

definition same_subs :: "'d hub \<Rightarrow> 'd hub \<Rightarrow> bool" where
  "same_subs h h' \<longleftrightarrow> hb_by_env h' = hb_by_env h \<and> hb_active h' = hb_active h \<and> hb_seq h' = hb_seq h \<and>
     hb_rings h' = hb_rings h"

lemma chan_send: "chan_of (send msg i h) j = (if j = i then chan_of h i @ [msg] else chan_of h j)"
  by (simp add: chan_of_def send_def map_simps)

lemma same_send: "same_subs h (send msg i h)"
  by (simp add: same_subs_def send_def)

lemma same_trans: "same_subs a b \<Longrightarrow> same_subs b c \<Longrightarrow> same_subs a c"
  by (simp add: same_subs_def)

lemma send_all_spec:
  "distinct ids \<Longrightarrow> send_all msg ids h = (h', slow) \<Longrightarrow>
   slow = filter (\<lambda>i. \<not> has_room h i) ids \<and> same_subs h h' \<and>
   (\<forall>i. chan_of h' i = (if i \<in> set ids \<and> has_room h i then chan_of h i @ [msg] else chan_of h i))"
proof (induction ids arbitrary: h h' slow)
  case Nil
  then show ?case by (simp add: same_subs_def)
next
  case (Cons a ids)
  show ?case
  proof (cases "has_room h a")
    case True
    have other: "i \<noteq> a \<Longrightarrow> has_room (send msg a h) i = has_room h i" for i by (simp add: has_room_def chan_send)
    have ih: "slow = filter (\<lambda>i. \<not> has_room (send msg a h) i) ids" "same_subs (send msg a h) h'"
      "chan_of h' i = (if i \<in> set ids \<and> has_room (send msg a h) i then chan_of (send msg a h) i @ [msg]
        else chan_of (send msg a h) i)" for i
      using Cons True by (auto simp del: send_all.simps(2) simp: send_all.simps)
    have "filter (\<lambda>i. \<not> has_room (send msg a h) i) ids = filter (\<lambda>i. \<not> has_room h i) ids"
      using Cons.prems(1) other by (intro filter_cong refl) (metis distinct.simps(2))
    moreover have "chan_of h' i = (if i \<in> set (a # ids) \<and> has_room h i then chan_of h i @ [msg] else chan_of h i)" for i
      using ih(3) [of i] Cons.prems(1) other [of i] True by (auto simp: chan_send)
    ultimately show ?thesis using ih True same_trans [OF same_send] by auto
  next
    case False
    obtain s' where s': "send_all msg ids h = (h', s')" "slow = a # s'"
      using Cons.prems(2) False by (auto split: prod.splits)
    show ?thesis using Cons.IH [OF _ s'(1)] Cons.prems(1) False s'(2) by auto
  qed
qed

lemma unsubscribe_fields [simp]:
  "hb_chans (unsubscribe h e i) = hb_chans h" "hb_rings (unsubscribe h e i) = hb_rings h"
  "hb_seq (unsubscribe h e i) = hb_seq h"
  "chan_of (unsubscribe h e i) j = chan_of h j"
  by (auto simp: unsubscribe_def chan_of_def split: option.split)

lemma unsubscribe_subs:
  "mget (subs_of (unsubscribe h e i) e') j = (if e' = e \<and> j = i then None else mget (subs_of h e') j)"
  by (auto simp: unsubscribe_def subs_of_def map_simps split: option.split)

lemma drop_slow_fields [simp]:
  "hb_chans (drop_slow e is h) = hb_chans h" "hb_rings (drop_slow e is h) = hb_rings h"
  "hb_seq (drop_slow e is h) = hb_seq h" "chan_of (drop_slow e is h) j = chan_of h j"
  by (induction "is" arbitrary: h) (simp_all add: chan_of_def)

lemma drop_slow_subs:
  "mget (subs_of (drop_slow e is h) e') j = (if e' = e \<and> j \<in> set is then None else mget (subs_of h e') j)"
proof (induction "is" arbitrary: h)
  case (Cons i "is")
  have "subs_of (h\<lparr>hb_slow := x\<rparr>) = subs_of h" for x by (rule ext) (simp add: subs_of_def)
  then show ?case using Cons by (auto simp: unsubscribe_subs)
qed simp

lemma hub_inv_drop_slow: "hub_inv h \<Longrightarrow> hub_inv (drop_slow e is h)"
proof (induction "is" arbitrary: h)
  case (Cons i "is")
  have "hub_inv (h\<lparr>hb_slow := x\<rparr>)" for x using Cons.prems by (rule hub_inv_chans) (auto dest: hub_invD(5) [OF Cons.prems])
  then have "hub_inv (unsubscribe (h\<lparr>hb_slow := wrap64 (hb_slow h + 1)\<rparr>) e i)" by (rule hub_inv_unsubscribe)
  then show ?case using Cons.IH by simp
qed simp

definition ring_step :: "'d hub \<Rightarrow> string \<Rightarrow> 'd message \<Rightarrow> 'd hub" where
  "ring_step h e msg = (case mget (hb_rings h) e of None \<Rightarrow> h
     | Some r \<Rightarrow> h\<lparr>hb_rings := mput e (ring_append r msg) (hb_rings h)\<rparr>)"

lemma subs_ids:
  assumes "hub_inv h"
  shows "map (\<lambda>(k, s). sb_id s) (subs_of h e) = mkeys (subs_of h e)"
  using subs_facts [OF assms, of e] mget_in [OF subs_facts(1) [OF assms]] by auto

lemma publish_parts:
  assumes "hub_inv h"
  obtains h2 where "publish h e msg = drop_slow e (filter (\<lambda>i. \<not> has_room h i) (mkeys (subs_of h e))) h2"
    "hb_by_env h2 = hb_by_env h" "hb_active h2 = hb_active h" "hb_seq h2 = hb_seq h"
    "hb_rings h2 = hb_rings (ring_step h e msg)"
    "\<And>i. chan_of h2 i = (if i \<in> set (mkeys (subs_of h e)) \<and> has_room h i then chan_of h i @ [msg] else chan_of h i)"
proof -
  define h1 where "h1 = (ring_step h e msg)\<lparr>hb_published := wrap64 (hb_published (ring_step h e msg) + 1)\<rparr>"
  have f: "hb_by_env h1 = hb_by_env h" "hb_active h1 = hb_active h" "hb_seq h1 = hb_seq h"
    "hb_rings h1 = hb_rings (ring_step h e msg)" "chan_of h1 i = chan_of h i" "has_room h1 i = has_room h i"
    "subs_of (ring_step h e msg) e = subs_of h e" for i
    by (auto simp: h1_def ring_step_def has_room_def chan_of_def subs_of_def split: option.split)
  obtain h2 slow where s: "send_all msg (mkeys (subs_of h e)) h1 = (h2, slow)" by fastforce
  have "distinct (mkeys (subs_of h e))" using subs_facts(1) [OF assms] by (simp add: wf_map_def)
  note spec = send_all_spec [OF this s, unfolded f same_subs_def]
  have "publish h e msg = drop_slow e slow h2"
    using s f(7) by (simp add: publish_def Let_def ring_step_def [symmetric] subs_ids [OF assms] h1_def)
  with spec show thesis by (intro that [of h2]) auto
qed

lemma publish_chan:
  assumes "hub_inv h"
  shows "chan_of (publish h e msg) i =
    (if mget (subs_of h e) i \<noteq> None \<and> has_room h i then chan_of h i @ [msg] else chan_of h i)"
  using publish_parts [OF assms, of e msg] by (metis (no_types, lifting) drop_slow_fields(4) map_of_eq_None_iff set_map)

lemma publish_subs:
  assumes "hub_inv h"
  shows "mget (subs_of (publish h e msg) e') i =
    (if e' = e \<and> \<not> has_room h i then None else mget (subs_of h e') i)"
proof (rule publish_parts [OF assms, of e msg])
  fix h2 assume p: "publish h e msg = drop_slow e (filter (\<lambda>i. \<not> has_room h i) (mkeys (subs_of h e))) h2"
    and b: "hb_by_env h2 = hb_by_env h"
  have "subs_of h2 = subs_of h" by (rule ext) (simp add: subs_of_def b)
  then show ?thesis unfolding p drop_slow_subs by (auto simp: map_of_eq_None_iff image_iff)
qed

lemma publish_seq: "hub_inv h \<Longrightarrow> hb_seq (publish h e msg) = hb_seq h"
  by (rule publish_parts [of h e msg]) simp_all

lemma publish_rings: "hub_inv h \<Longrightarrow> hb_rings (publish h e msg) = hb_rings (ring_step h e msg)"
  by (rule publish_parts [of h e msg]) simp_all

lemma chan_bound: "hub_inv h \<Longrightarrow> length (chan_of h i) \<le> chan_capacity"
  using hub_invD(5) [of h i] by (auto simp: chan_of_def split: option.split)

lemma ring_step_ring:
  "mget (hb_rings (ring_step h e msg)) e' =
     (if e' = e then map_option (\<lambda>r. ring_append r msg) (mget (hb_rings h) e) else mget (hb_rings h) e')"
  by (auto simp: ring_step_def map_simps split: option.split)

lemma hub_inv_publish:
  assumes "hub_inv h"
  shows "hub_inv (publish h e msg)"
proof (rule publish_parts [OF assms, of e msg])
  fix h2 assume p: "publish h e msg = drop_slow e (filter (\<lambda>i. \<not> has_room h i) (mkeys (subs_of h e))) h2"
    and f: "hb_by_env h2 = hb_by_env h" "hb_active h2 = hb_active h" "hb_seq h2 = hb_seq h"
      "hb_rings h2 = hb_rings (ring_step h e msg)"
    and c: "\<And>i. chan_of h2 i = (if i \<in> set (mkeys (subs_of h e)) \<and> has_room h i then chan_of h i @ [msg] else chan_of h i)"
  have "hub_inv h2"
  proof (rule hub_inv_chans [OF assms f(1-3)])
    show "mget (hb_rings h2) e' \<noteq> None" if "mget (hb_rings h) e' \<noteq> None" for e'
      using that unfolding f(4) ring_step_ring by auto
    show "length ch \<le> chan_capacity" if "mget (hb_chans h2) i = Some ch" for i ch
    proof -
      have ch: "ch = chan_of h2 i" using that by (simp add: chan_of_def)
      show ?thesis unfolding ch c using chan_bound [OF assms, of i] by (auto simp: has_room_def)
    qed
  qed
  then show ?thesis unfolding p by (rule hub_inv_drop_slow)
qed

lemma receive_chan: "chan_of (receive h i) j = (if j = i then tl (chan_of h i) else chan_of h j)"
  by (auto simp: receive_def chan_of_def map_simps split: option.split)

lemma hub_inv_receive: "hub_inv h \<Longrightarrow> hub_inv (receive h i)"
proof (rule hub_inv_chans, assumption)
  fix j c assume h: "hub_inv h" and "mget (hb_chans (receive h i)) j = Some c"
  then have "chan_of (receive h i) j = c" by (simp add: chan_of_def)
  then have "c = tl (chan_of h i) \<or> c = chan_of h j" by (auto simp: receive_chan split: if_splits)
  then show "length c \<le> chan_capacity" using chan_bound [OF h, of i] chan_bound [OF h, of j] by auto
qed (simp_all add: receive_def)

lemma hub_inv_apply: "hub_inv h \<Longrightarrow> hb_seq h + 1 < 2 ^ 63 \<Longrightarrow> hub_inv (hub_apply h op)"
  by (cases op) (simp_all add: hub_inv_subscribe hub_inv_unsubscribe hub_inv_publish hub_inv_receive)

lemma hub_seq_apply: "hub_inv h \<Longrightarrow> hb_seq h + 1 < 2 ^ 63 \<Longrightarrow> hb_seq (hub_apply h op) \<le> hb_seq h + 1"
  by (cases op) (simp_all add: hub_inv_subscribe publish_seq receive_def)

lemma hub_run_inv: "length ops < 2 ^ 63 - 1 \<Longrightarrow> hub_inv (hub_run ops) \<and> hb_seq (hub_run ops) \<le> int (length ops)"
proof (induction ops rule: rev_induct)
  case Nil
  then show ?case using hub_inv_new by (simp add: hub_run_def new_hub_def)
next
  case (snoc op ops)
  then have ih: "hub_inv (hub_run ops)" "hb_seq (hub_run ops) \<le> int (length ops)" by auto
  have "hb_seq (hub_run ops) + 1 < 2 ^ 63" using ih(2) snoc.prems by simp
  then show ?case using hub_inv_apply [OF ih(1), of op] hub_seq_apply [OF ih(1), of op] ih(2)
    by (simp add: hub_run_def)
qed

text \<open>
  C15. The hub's bookkeeping: after any sequence of subscriptions, unsubscriptions, publications and
  receives, the gauge of active connections equals the number of subscriptions over all environments,
  no channel holds later than 32 messages, and every subscriber is stored under its own id.
\<close>

theorem hub_bookkeeping:
  assumes "length ops < 2 ^ 63 - 1"
  shows "hb_active (hub_run ops) = total (hb_by_env (hub_run ops)) \<and>
    length (chan_of (hub_run ops) i) \<le> 32 \<and>
    (\<forall>s. mget (subs_of (hub_run ops) e) i = Some s \<longrightarrow> sb_id s = i \<and> sb_env_key s = e)"
proof -
  have i: "hub_inv (hub_run ops)" using hub_run_inv [OF assms] by blast
  show ?thesis using hub_invD(6) [OF i] chan_bound [OF i, of i] subs_facts(2) [OF i, of e i]
    by (auto simp: chan_capacity_def)
qed

lemma hub_bookkeeping_witness:
  "hb_active (hub_run [Subscribe 0 ''prod'' ''p'' ''k'' [], Subscribe 0 ''prod'' ''p'' ''k'' []] :: unit hub) =
     total (hb_by_env (hub_run [Subscribe 0 ''prod'' ''p'' ''k'' [], Subscribe 0 ''prod'' ''p'' ''k'' []] :: unit hub))"
  by (rule conjunct1 [OF hub_bookkeeping]) simp

text \<open>
  Publishing never blocks and never loses silently: every subscriber of the environment whose
  channel has room gets the message at its end and stays subscribed; one whose channel is full gets
  nothing, keeps what it has and is unsubscribed; no other channel and no other environment changes.
\<close>

theorem publish_delivers:
  assumes "length ops < 2 ^ 63 - 1" "h = hub_run ops"
  shows "chan_of (publish h e msg) i =
      (if mget (subs_of h e) i \<noteq> None \<and> length (chan_of h i) < 32 then chan_of h i @ [msg] else chan_of h i) \<and>
    mget (subs_of (publish h e msg) e') i =
      (if e' = e \<and> 32 \<le> length (chan_of h i) then None else mget (subs_of h e') i)"
proof -
  have i: "hub_inv h" using hub_run_inv [OF assms(1)] assms(2) by blast
  show ?thesis unfolding publish_chan [OF i] publish_subs [OF i] by (simp add: has_room_def chan_capacity_def not_less)
qed

lemma itoa_one: "itoa 1 = ''1''"
  by code_simp

definition one_sub :: "unit hub_op list" where
  "one_sub = [Subscribe 0 ''prod'' ''p'' ''k'' []]"

lemma one_sub_chan:
  "chan_of (hub_run one_sub) ''sub-1'' = [] \<and> mget (subs_of (hub_run one_sub) ''prod'') ''sub-1'' \<noteq> None"
proof -
  note d = itoa_one
  show ?thesis by (simp add: one_sub_def hub_run_def subscribe_def Let_def new_hub_def ensure_env_def subs_of_def
      chan_of_def wrap64_def d)
qed

lemma publish_delivers_witness:
  "chan_of (publish (hub_run one_sub) ''prod'' (version_message 1)) ''sub-1'' = [version_message 1]"
  using publish_delivers [of one_sub "hub_run one_sub" "''prod''" "version_message 1" "''sub-1''" "''prod''"] one_sub_chan
  by (simp add: one_sub_def)

section \<open>A client that was dropped\<close>

lemma subscribe_sub_id:
  "fst (subscribe now h e pk key ua) = (ensure_env h e)\<lparr>hb_seq := wrap64 (hb_seq h + 1),
     hb_by_env := mput e (mput (sub_id (wrap64 (hb_seq h + 1))) \<lparr>sb_id = sub_id (wrap64 (hb_seq h + 1)),
       sb_env_key = e, sb_project_key = pk, sb_sdk_key = key, sb_user_agent = ua, sb_connected_at = now\<rparr>
       (subs_of h e)) (hb_by_env (ensure_env h e)),
     hb_active := wrap64 (hb_active h + 1),
     hb_chans := mput (sub_id (wrap64 (hb_seq h + 1))) [] (hb_chans h)\<rparr>"
  by (simp add: subscribe_def Let_def sub_id_def)

lemma drop_none: "\<exists>k. xs = drop k xs"
  by (rule exI [of _ 0]) simp

lemma detached_step:
  assumes "hub_inv h" "hb_seq h + 1 < 2 ^ 63" "1 \<le> n" "n \<le> hb_seq h" "\<forall>e. mget (subs_of h e) (sub_id n) = None"
  shows "\<exists>k. chan_of (hub_apply h op) (sub_id n) = drop k (chan_of h (sub_id n))"
    and "n \<le> hb_seq (hub_apply h op)" "\<forall>e. mget (subs_of (hub_apply h op) e) (sub_id n) = None"
proof -
  have w: "wrap64 (hb_seq h + 1) = hb_seq h + 1"
    using assms(2-4) by (intro wrap64_id) (simp add: int64_range_def)
  have "(\<exists>k. chan_of (hub_apply h op) (sub_id n) = drop k (chan_of h (sub_id n))) \<and> n \<le> hb_seq (hub_apply h op) \<and>
      (\<forall>e. mget (subs_of (hub_apply h op) e) (sub_id n) = None)"
  proof (cases op)
    case (Subscribe now e pk key ua)
    have ne: "sub_id n \<noteq> sub_id (hb_seq h + 1)" using assms(4) by simp
    have sub: "mget (subs_of (hub_apply h op) e') (sub_id n) = mget (subs_of h e') (sub_id n)" for e'
      using ne by (auto simp: Subscribe subscribe_sub_id w subs_of_def map_simps ensure_env_get)
    have "chan_of (hub_apply h op) (sub_id n) = chan_of h (sub_id n)"
      using ne by (simp add: Subscribe subscribe_sub_id w chan_of_def map_simps)
    moreover have "hb_seq (hub_apply h op) = hb_seq h + 1" by (simp add: Subscribe subscribe_sub_id w)
    ultimately show ?thesis using sub assms(4,5) by (metis drop0 add_increasing2 zero_le_one)
  next
    case (Unsubscribe e i)
    then show ?thesis using assms(4,5) by (auto simp: unsubscribe_subs intro: exI [of _ 0])
  next
    case (Publish e msg)
    have "chan_of (publish h e msg) (sub_id n) = drop 0 (chan_of h (sub_id n))"
      using assms(5) by (simp add: publish_chan [OF assms(1)])
    then show ?thesis using assms(4,5) by (auto simp: Publish publish_subs [OF assms(1)] publish_seq [OF assms(1)] intro: drop_none)
  next
    case (Receive i)
    have "chan_of (receive h i) (sub_id n) = drop (if sub_id n = i then 1 else 0) (chan_of h (sub_id n))"
      by (simp add: receive_chan drop_Suc)
    moreover have "subs_of (receive h i) = subs_of h" by (rule ext) (simp add: receive_def subs_of_def)
    moreover have "hb_seq (receive h i) = hb_seq h" by (simp add: receive_def)
    ultimately show ?thesis using assms(4,5) unfolding Receive hub_apply.simps by metis
  qed
  then show "\<exists>k. chan_of (hub_apply h op) (sub_id n) = drop k (chan_of h (sub_id n))"
    "n \<le> hb_seq (hub_apply h op)" "\<forall>e. mget (subs_of (hub_apply h op) e) (sub_id n) = None" by blast+
qed

lemma hub_run_append: "hub_run (xs @ ys) = foldl hub_apply (hub_run xs) ys"
  by (simp add: hub_run_def)

lemma detached_run:
  assumes "1 \<le> n" "n \<le> hb_seq (hub_run ops)" "\<forall>e. mget (subs_of (hub_run ops) e) (sub_id n) = None"
  shows "length (ops @ later) < 2 ^ 63 - 1 \<Longrightarrow>
    (\<exists>k. chan_of (hub_run (ops @ later)) (sub_id n) = drop k (chan_of (hub_run ops) (sub_id n))) \<and>
    n \<le> hb_seq (hub_run (ops @ later)) \<and> (\<forall>e. mget (subs_of (hub_run (ops @ later)) e) (sub_id n) = None)"
proof (induction later rule: rev_induct)
  case Nil
  then show ?case using assms by (auto intro: exI [of _ 0])
next
  case (snoc op later)
  then have len: "length (ops @ later) < 2 ^ 63 - 1" by simp
  have inv: "hub_inv (hub_run (ops @ later))" "hb_seq (hub_run (ops @ later)) + 1 < 2 ^ 63"
    using hub_run_inv [OF len] len by auto
  have ih: "\<exists>k. chan_of (hub_run (ops @ later)) (sub_id n) = drop k (chan_of (hub_run ops) (sub_id n))"
    "n \<le> hb_seq (hub_run (ops @ later))" "\<forall>e. mget (subs_of (hub_run (ops @ later)) e) (sub_id n) = None"
    using snoc.IH [OF len] by blast+
  have app: "hub_run (ops @ later @ [op]) = hub_apply (hub_run (ops @ later)) op" by (simp add: hub_run_def)
  show ?case using detached_step [OF inv assms(1) ih(2,3), of op] ih(1) unfolding app by (metis drop_drop)
qed

text \<open>
  What a slow client loses: once an id is no longer subscribed, whatever happens later its channel
  only shrinks. \<open>Publish\<close> drops a slow client this way without closing its channel, so the handler that
  reads the channel gets what was buffered and then waits for ever, and the client is never told.
\<close>

theorem dropped_client_starves:
  assumes "length (ops @ later) < 2 ^ 63 - 1" "1 \<le> n" "n \<le> hb_seq (hub_run ops)"
    and "\<forall>e. mget (subs_of (hub_run ops) e) (sub_id n) = None"
  shows "\<exists>k. chan_of (hub_run (ops @ later)) (sub_id n) = drop k (chan_of (hub_run ops) (sub_id n))"
  using detached_run [OF assms(2-4,1)] by blast

lemma dropped_client_starves_witness:
  "\<forall>m. chan_of (hub_run ((one_sub @ [Unsubscribe ''prod'' ''sub-1'']) @ [Publish ''prod'' m])) (sub_id 1) = []"
proof
  fix m :: "unit message"
  let ?ops = "one_sub @ [Unsubscribe ''prod'' ''sub-1'']"
  note d = itoa_one
  have s: "sub_id 1 = ''sub-1''" by (simp add: sub_id_def d)
  note ev = one_sub_def hub_run_def subscribe_def Let_def new_hub_def ensure_env_def subs_of_def
      chan_of_def wrap64_def d unsubscribe_def
  have r: "1 \<le> hb_seq (hub_run ?ops)" "\<forall>e. mget (subs_of (hub_run ?ops) e) (sub_id 1) = None"
    "chan_of (hub_run ?ops) (sub_id 1) = []"
    unfolding s by (simp_all add: ev)
  have l: "length (?ops @ [Publish ''prod'' m]) < 2 ^ 63 - 1" by (simp add: one_sub_def)
  show "chan_of (hub_run (?ops @ [Publish ''prod'' m])) (sub_id 1) = []"
    using dropped_client_starves [OF l _ r(1,2)] r(3) by auto
qed

end
