(* ===== verification/Wire.thy ===== *)
theory Wire
  imports Model
begin

text \<open>
  What \<open>encoding/json\<close> writes for the model's types: the struct tags of \<open>internal/model\<close>. The result is
  the document's syntax tree; a nil and an empty slice, which the model does not tell apart, are both
  written as an empty array.

  The snapshot code compares two values by comparing their encodings. The lemmas show that this is
  comparing the values, for values that a decoder can produce.
\<close>

section \<open>The encoders\<close>

definition jint :: "int \<Rightarrow> json" where
  "jint i = JNum (of_int i)"

definition jstrs :: "string list \<Rightarrow> json" where
  "jstrs ss = JArr (map JStr ss)"

text \<open>A pointer without and with \<open>omitempty\<close>.\<close>

definition jptr :: "('a \<Rightarrow> json) \<Rightarrow> 'a option \<Rightarrow> json" where
  "jptr enc x = (case x of None \<Rightarrow> JNull | Some v \<Rightarrow> enc v)"

definition omitempty :: "string \<Rightarrow> ('a \<Rightarrow> json) \<Rightarrow> 'a option \<Rightarrow> (string \<times> json) list" where
  "omitempty name enc x = (case x of None \<Rightarrow> [] | Some v \<Rightarrow> [(name, enc v)])"

text \<open>A nil \<open>json.RawMessage\<close> is written as \<open>null\<close>.\<close>

definition jraw :: "raw \<Rightarrow> json" where
  "jraw r = (case r of None \<Rightarrow> JNull | Some j \<Rightarrow> j)"

fun op_string :: "operator \<Rightarrow> string" where
  "op_string OpIn = ''in''"
| "op_string OpEndsWith = ''endsWith''"
| "op_string OpStartsWith = ''startsWith''"
| "op_string OpMatches = ''matches''"
| "op_string OpContains = ''contains''"
| "op_string OpLessThan = ''lessThan''"
| "op_string OpLessThanOrEq = ''lessThanOrEqual''"
| "op_string OpGreaterThan = ''greaterThan''"
| "op_string OpGreaterThanOrEq = ''greaterThanOrEqual''"
| "op_string OpBefore = ''before''"
| "op_string OpAfter = ''after''"
| "op_string OpSemVerEqual = ''semVerEqual''"
| "op_string OpSemVerLessThan = ''semVerLessThan''"
| "op_string OpSemVerGreaterThan = ''semVerGreaterThan''"
| "op_string OpSegmentMatch = ''segmentMatch''"
| "op_string (OpUnknown s) = s"

fun type_string :: "variation_type \<Rightarrow> string" where
  "type_string TypeBoolean = ''boolean''"
| "type_string TypeString = ''string''"
| "type_string TypeNumber = ''number''"
| "type_string TypeJSON = ''json''"
| "type_string (TypeOther s) = s"

definition clause_json :: "clause \<Rightarrow> json" where
  "clause_json c = JObj [(''attribute'', JStr (cl_attribute c)), (''op'', JStr (op_string (cl_op c))),
     (''values'', JArr (map jraw (cl_values c))), (''negate'', JBool (cl_negate c))]"

definition variation_json :: "variation \<Rightarrow> json" where
  "variation_json v = JObj [(''id'', JStr (var_id v)), (''name'', JStr (var_name v)),
     (''description'', JStr (var_description v)), (''value'', jraw (var_value v))]"

definition weighted_json :: "weighted_variation \<Rightarrow> json" where
  "weighted_json w = JObj [(''variation'', jint (wv_variation w)), (''weight'', jint (wv_weight w))]"

definition rollout_json :: "rollout \<Rightarrow> json" where
  "rollout_json r = JObj ([(''variations'', JArr (map weighted_json (ro_variations r))),
     (''bucket_by'', JStr (ro_bucket_by r)), (''seed'', jptr jint (ro_seed r))] @
     (if ro_is_experiment r then [(''is_experiment'', JBool True)] else []))"

definition serve_members :: "variation_or_rollout \<Rightarrow> (string \<times> json) list" where
  "serve_members vr = omitempty ''variation'' jint (vr_variation vr) @
     omitempty ''rollout'' rollout_json (vr_rollout vr)"

definition rule_json :: "rule \<Rightarrow> json" where
  "rule_json r = JObj ([(''id'', JStr (rule_id r)), (''description'', JStr (rule_description r)),
     (''clauses'', JArr (map clause_json (rule_clauses r)))] @ serve_members (rule_serve r))"

definition prerequisite_json :: "prerequisite \<Rightarrow> json" where
  "prerequisite_json p = JObj [(''flag_key'', JStr (pq_flag_key p)), (''variation'', jint (pq_variation p))]"

definition target_json :: "target \<Rightarrow> json" where
  "target_json t = JObj [(''variation'', jint (tg_variation t)), (''context_keys'', jstrs (tg_context_keys t))]"

definition config_json :: "flag_config \<Rightarrow> json" where
  "config_json c = JObj [(''on'', JBool (cfg_on c)),
     (''prerequisites'', JArr (map prerequisite_json (cfg_prerequisites c))),
     (''targets'', JArr (map target_json (cfg_targets c))),
     (''rules'', JArr (map rule_json (cfg_rules c))),
     (''fallthrough'', JObj (serve_members (cfg_fallthrough c))),
     (''off_variation'', jptr jint (cfg_off_variation c)), (''salt'', JStr (cfg_salt c)),
     (''track_events'', JBool (cfg_track_events c)), (''version'', jint (cfg_version c))]"

definition segment_rule_json :: "segment_rule \<Rightarrow> json" where
  "segment_rule_json r = JObj ([(''id'', JStr (sr_id r)), (''clauses'', JArr (map clause_json (sr_clauses r)))] @
     omitempty ''weight'' jint (sr_weight r) @ [(''bucket_by'', JStr (sr_bucket_by r))])"

definition segment_json :: "segment \<Rightarrow> json" where
  "segment_json s = JObj [(''key'', JStr (seg_key s)), (''name'', JStr (seg_name s)),
     (''description'', JStr (seg_description s)), (''included'', jstrs (seg_included s)),
     (''excluded'', jstrs (seg_excluded s)), (''rules'', JArr (map segment_rule_json (seg_rules s))),
     (''salt'', JStr (seg_salt s)), (''version'', jint (seg_version s))]"

section \<open>Values a decoder produces\<close>

text \<open>
  A decoded \<open>RawMessage\<close> holds a document, and an operator or a type that is none of the constants is
  some other string.
\<close>

definition plain_op :: "operator \<Rightarrow> bool" where
  "plain_op op \<longleftrightarrow> (case op of OpUnknown s \<Rightarrow>
     s \<notin> op_string ` {OpIn, OpEndsWith, OpStartsWith, OpMatches, OpContains, OpLessThan, OpLessThanOrEq,
       OpGreaterThan, OpGreaterThanOrEq, OpBefore, OpAfter, OpSemVerEqual, OpSemVerLessThan,
       OpSemVerGreaterThan, OpSegmentMatch} | _ \<Rightarrow> True)"

definition plain_type :: "variation_type \<Rightarrow> bool" where
  "plain_type t \<longleftrightarrow> (case t of TypeOther s \<Rightarrow>
     s \<notin> type_string ` {TypeBoolean, TypeString, TypeNumber, TypeJSON} | _ \<Rightarrow> True)"

definition plain_clause :: "clause \<Rightarrow> bool" where
  "plain_clause c \<longleftrightarrow> plain_op (cl_op c) \<and> None \<notin> set (cl_values c)"

definition plain_config :: "flag_config \<Rightarrow> bool" where
  "plain_config c \<longleftrightarrow> (\<forall>r \<in> set (cfg_rules c). \<forall>cl \<in> set (rule_clauses r). plain_clause cl)"

definition plain_segment :: "segment \<Rightarrow> bool" where
  "plain_segment s \<longleftrightarrow> (\<forall>r \<in> set (seg_rules s). \<forall>cl \<in> set (sr_clauses r). plain_clause cl)"

section \<open>Equal encodings, equal values\<close>

named_theorems enc_inj "injectivity of the encoders"

lemma map_enc_inj:
  "map enc xs = map enc ys \<Longrightarrow> (\<And>x y. x \<in> set xs \<Longrightarrow> y \<in> set ys \<Longrightarrow> enc x = enc y \<Longrightarrow> x = y) \<Longrightarrow> xs = ys"
  by (rule list.inj_map_strong) auto

lemma jint_inj [enc_inj, simp]: "jint i = jint j \<longleftrightarrow> i = j" "jint i \<noteq> JNull" "JNull \<noteq> jint i"
  by (simp_all add: jint_def)

lemma jstrs_inj [enc_inj, simp]: "jstrs xs = jstrs ys \<longleftrightarrow> xs = ys"
  by (auto simp: jstrs_def intro: map_enc_inj)

lemma jptr_inj [enc_inj, simp]:
  "jptr jint x = jptr jint y \<longleftrightarrow> x = y"
  by (auto simp: jptr_def split: option.splits)

lemma jraw_inj: "None \<notin> set xs \<Longrightarrow> None \<notin> set ys \<Longrightarrow> map jraw xs = map jraw ys \<Longrightarrow> xs = ys"
  by (erule map_enc_inj) (auto simp: jraw_def split: option.splits)

lemma op_string_inj: "plain_op a \<Longrightarrow> plain_op b \<Longrightarrow> op_string a = op_string b \<Longrightarrow> a = b"
  by (cases a; cases b) (auto simp: plain_op_def)

lemma type_string_inj: "plain_type a \<Longrightarrow> plain_type b \<Longrightarrow> type_string a = type_string b \<Longrightarrow> a = b"
  by (cases a; cases b) (auto simp: plain_type_def)

lemma clause_json_inj: "plain_clause c \<Longrightarrow> plain_clause d \<Longrightarrow> clause_json c = clause_json d \<Longrightarrow> c = d"
  by (cases c; cases d) (auto simp: clause_json_def plain_clause_def dest: op_string_inj jraw_inj)

lemma clauses_inj:
  "\<forall>c \<in> set cs. plain_clause c \<Longrightarrow> \<forall>d \<in> set ds. plain_clause d \<Longrightarrow>
   map clause_json cs = map clause_json ds \<Longrightarrow> cs = ds"
  by (erule map_enc_inj) (auto intro: clause_json_inj)

lemma weighted_json_inj [enc_inj]: "weighted_json a = weighted_json b \<longleftrightarrow> a = b"
  by (cases a; cases b) (auto simp: weighted_json_def)

lemma weighted_map_inj [enc_inj]: "map weighted_json xs = map weighted_json ys \<longleftrightarrow> xs = ys"
  by (auto intro: map_enc_inj simp: enc_inj)

lemma rollout_json_inj [enc_inj]: "rollout_json a = rollout_json b \<longleftrightarrow> a = b"
  by (cases a; cases b) (auto simp: rollout_json_def enc_inj)

lemma serve_members_inj [enc_inj]: "serve_members a = serve_members b \<longleftrightarrow> a = b"
  by (cases a; cases b) (auto simp: serve_members_def omitempty_def enc_inj split: option.splits)

lemma rule_json_inj:
  "\<forall>c \<in> set (rule_clauses a). plain_clause c \<Longrightarrow> \<forall>c \<in> set (rule_clauses b). plain_clause c \<Longrightarrow>
   rule_json a = rule_json b \<Longrightarrow> a = b"
  by (cases a; cases b) (auto simp: rule_json_def enc_inj dest: clauses_inj)

lemma rules_inj:
  "\<forall>r \<in> set rs. \<forall>c \<in> set (rule_clauses r). plain_clause c \<Longrightarrow>
   \<forall>r \<in> set ts. \<forall>c \<in> set (rule_clauses r). plain_clause c \<Longrightarrow>
   map rule_json rs = map rule_json ts \<Longrightarrow> rs = ts"
  by (erule map_enc_inj) (auto intro: rule_json_inj)

lemma prerequisite_json_inj: "prerequisite_json a = prerequisite_json b \<longleftrightarrow> a = b"
  by (cases a; cases b) (auto simp: prerequisite_json_def)

lemma target_json_inj: "target_json a = target_json b \<longleftrightarrow> a = b"
  by (cases a; cases b) (auto simp: target_json_def)

lemma small_maps_inj [enc_inj]:
  "map prerequisite_json ps = map prerequisite_json qs \<longleftrightarrow> ps = qs"
  "map target_json ts = map target_json us \<longleftrightarrow> ts = us"
  by (auto intro: map_enc_inj simp: prerequisite_json_inj target_json_inj)

lemma config_json_inj: "plain_config a \<Longrightarrow> plain_config b \<Longrightarrow> config_json a = config_json b \<Longrightarrow> a = b"
  by (cases a; cases b) (auto simp: config_json_def plain_config_def enc_inj dest: rules_inj)

lemma segment_rule_json_inj:
  "\<forall>c \<in> set (sr_clauses a). plain_clause c \<Longrightarrow> \<forall>c \<in> set (sr_clauses b). plain_clause c \<Longrightarrow>
   segment_rule_json a = segment_rule_json b \<Longrightarrow> a = b"
  by (cases a; cases b) (auto simp: segment_rule_json_def omitempty_def dest: clauses_inj split: option.splits)

lemma segment_json_inj: "plain_segment a \<Longrightarrow> plain_segment b \<Longrightarrow> segment_json a = segment_json b \<Longrightarrow> a = b"
proof -
  assume p: "plain_segment a" "plain_segment b" and eq: "segment_json a = segment_json b"
  then have "seg_rules a = seg_rules b"
    by (intro map_enc_inj [of segment_rule_json]) (auto simp: segment_json_def plain_segment_def intro: segment_rule_json_inj)
  then show "a = b" using eq by (cases a; cases b) (auto simp: segment_json_def)
qed

end
