(* ===== verification/Canonical.thy ===== *)
theory Canonical
  imports Wire Sha1 "HOL-Library.Char_ord" "HOL-Library.List_Lexorder"
begin

text \<open>
  Canonical JSON and its SHA-256, \<open>internal/snapshot/canonical.go\<close>, with the parts of the standard
  library it rests on: \<open>crypto/sha256\<close>, and how \<open>encoding/json\<close> writes strings. How a number is
  written, the shortest decimal that reads back as the same \<open>float64\<close>, is the parameter \<open>num\<close>.

  The lemmas show what the code is for: the bytes, and so the checksum, do not depend on the order in
  which an object's members are visited.
\<close>

section \<open>SHA-256\<close>

definition rotr32 :: "nat \<Rightarrow> u32 \<Rightarrow> u32" where
  "rotr32 n x = rotl32 (2 ^ (32 - n)) x"

definition sha256_schedule_word :: "u32 list \<Rightarrow> u32" where
  "sha256_schedule_word ws =
     (let a = ws ! 1; b = ws ! 14;
          s0 = (rotr32 7 a XOR rotr32 18 a) XOR (a div 2 ^ 3);
          s1 = (rotr32 17 b XOR rotr32 19 b) XOR (b div 2 ^ 10)
      in add32 (add32 s1 (ws ! 9)) (add32 s0 (ws ! 0)))"

fun sha256_schedule :: "nat \<Rightarrow> u32 list \<Rightarrow> u32 list" where
  "sha256_schedule 0 ws = ws"
| "sha256_schedule (Suc n) ws = hd ws # sha256_schedule n (tl ws @ [sha256_schedule_word ws])"

definition sha256_k :: "u32 list" where
  "sha256_k =
    [0x428A2F98, 0x71374491, 0xB5C0FBCF, 0xE9B5DBA5, 0x3956C25B, 0x59F111F1,
     0x923F82A4, 0xAB1C5ED5, 0xD807AA98, 0x12835B01, 0x243185BE, 0x550C7DC3,
     0x72BE5D74, 0x80DEB1FE, 0x9BDC06A7, 0xC19BF174, 0xE49B69C1, 0xEFBE4786,
     0x0FC19DC6, 0x240CA1CC, 0x2DE92C6F, 0x4A7484AA, 0x5CB0A9DC, 0x76F988DA,
     0x983E5152, 0xA831C66D, 0xB00327C8, 0xBF597FC7, 0xC6E00BF3, 0xD5A79147,
     0x06CA6351, 0x14292967, 0x27B70A85, 0x2E1B2138, 0x4D2C6DFC, 0x53380D13,
     0x650A7354, 0x766A0ABB, 0x81C2C92E, 0x92722C85, 0xA2BFE8A1, 0xA81A664B,
     0xC24B8B70, 0xC76C51A3, 0xD192E819, 0xD6990624, 0xF40E3585, 0x106AA070,
     0x19A4C116, 0x1E376C08, 0x2748774C, 0x34B0BCB5, 0x391C0CB3, 0x4ED8AA4A,
     0x5B9CCA4F, 0x682E6FF3, 0x748F82EE, 0x78A5636F, 0x84C87814, 0x8CC70208,
     0x90BEFFFA, 0xA4506CEB, 0xBEF9A3F7, 0xC67178F2]"

datatype sha256_state = Sha256 u32 u32 u32 u32 u32 u32 u32 u32

fun sha256_round :: "sha256_state \<Rightarrow> u32 \<times> u32 \<Rightarrow> sha256_state" where
  "sha256_round (Sha256 a b c d e f g h) (k, w) =
     (let s1 = (rotr32 6 e XOR rotr32 11 e) XOR rotr32 25 e;
          ch = (e AND f) XOR (not32 e AND g);
          t1 = add32 h (add32 s1 (add32 ch (add32 k w)));
          s0 = (rotr32 2 a XOR rotr32 13 a) XOR rotr32 22 a;
          maj = ((a AND b) XOR (a AND c)) XOR (b AND c)
      in Sha256 (add32 t1 (add32 s0 maj)) a b c (add32 d t1) e f g)"

fun sha256_words :: "sha256_state \<Rightarrow> u32 list" where
  "sha256_words (Sha256 a b c d e f g h) = [a, b, c, d, e, f, g, h]"

fun sha256_add :: "sha256_state \<Rightarrow> sha256_state \<Rightarrow> sha256_state" where
  "sha256_add (Sha256 a b c d e f g h) (Sha256 a' b' c' d' e' f' g' h') =
     Sha256 (add32 a a') (add32 b b') (add32 c c') (add32 d d') (add32 e e') (add32 f f')
       (add32 g g') (add32 h h')"

definition sha256_block :: "sha256_state \<Rightarrow> u32 list \<Rightarrow> sha256_state" where
  "sha256_block st ws = sha256_add st (foldl sha256_round st (zip sha256_k (sha256_schedule 48 ws)))"

definition sha256_init :: sha256_state where
  "sha256_init = Sha256 0x6A09E667 0xBB67AE85 0x3C6EF372 0xA54FF53A 0x510E527F 0x9B05688C
     0x1F83D9AB 0x5BE0CD19"

text \<open>The padding of SHA-256 is that of SHA-1.\<close>

definition sha256_sum :: "string \<Rightarrow> int list" where
  "sha256_sum s =
     concat (map (be_bytes 4) (sha256_words
       (foldl sha256_block sha256_init (blocks (be_words (sha1_pad (map byte s)))))))"

section \<open>How JSON writes a string\<close>

text \<open>
  The length of the valid UTF-8 encoding at the head of a byte string, as \<open>utf8.DecodeRuneInString\<close>
  accepts it; 0 if there is none.
\<close>

definition cont :: "int \<Rightarrow> bool" where
  "cont b \<longleftrightarrow> 128 \<le> b \<and> b \<le> 191"

definition utf8_len :: "int list \<Rightarrow> nat" where
  "utf8_len bs =
     (case bs of [] \<Rightarrow> 0
      | a # r \<Rightarrow>
          if a < 128 then 1
          else (case r of [] \<Rightarrow> 0
                | b # r' \<Rightarrow>
                    if 194 \<le> a \<and> a \<le> 223 then (if cont b then 2 else 0)
                    else (case r' of [] \<Rightarrow> 0
                          | c # r'' \<Rightarrow>
                              if 224 \<le> a \<and> a \<le> 239 then
                                (if cont b \<and> cont c \<and> (a = 224 \<longrightarrow> 160 \<le> b) \<and> (a = 237 \<longrightarrow> b \<le> 159) then 3 else 0)
                              else if 240 \<le> a \<and> a \<le> 244 then
                                (case r'' of [] \<Rightarrow> 0
                                 | d # _ \<Rightarrow> if cont b \<and> cont c \<and> cont d \<and> (a = 240 \<longrightarrow> 144 \<le> b) \<and>
                                     (a = 244 \<longrightarrow> b \<le> 143) then 4 else 0)
                              else 0)))"

text \<open>One ASCII character inside a string literal; \<open><\<close>, \<open>>\<close> and \<open>&\<close> are escaped for HTML.\<close>

definition escape_ascii :: "char \<Rightarrow> string" where
  "escape_ascii c =
     (let n = byte c
      in if n = 34 \<or> n = 92 then [char_of (92 :: nat), c]
         else if n = 8 then [char_of (92 :: nat), CHR ''b'']
         else if n = 12 then [char_of (92 :: nat), CHR ''f'']
         else if n = 10 then [char_of (92 :: nat), CHR ''n'']
         else if n = 13 then [char_of (92 :: nat), CHR ''r'']
         else if n = 9 then [char_of (92 :: nat), CHR ''t'']
         else if n < 32 \<or> n = 60 \<or> n = 62 \<or> n = 38
         then char_of (92 :: nat) # ''u00'' @ [hex_char (n div 16), hex_char (n mod 16)]
         else [c])"

fun escape_go :: "nat \<Rightarrow> string \<Rightarrow> string" where
  "escape_go 0 s = []"
| "escape_go (Suc fuel) s =
     (if s = [] then []
      else let n = utf8_len (map byte s)
           in if n = 0 then char_of (92 :: nat) # ''ufffd'' @ escape_go fuel (tl s)
              else if n = 1 then escape_ascii (hd s) @ escape_go fuel (tl s)
              else if map byte (take n s) = [226, 128, 168]
              then char_of (92 :: nat) # ''u2028'' @ escape_go fuel (drop n s)
              else if map byte (take n s) = [226, 128, 169]
              then char_of (92 :: nat) # ''u2029'' @ escape_go fuel (drop n s)
              else take n s @ escape_go fuel (drop n s))"

definition json_string :: "string \<Rightarrow> string" where
  "json_string s = CHR 0x22 # escape_go (length s) s @ [CHR 0x22]"

text \<open>What a string is after one round through the encoder: each invalid byte is U+FFFD.\<close>

fun utf8_fix_go :: "nat \<Rightarrow> string \<Rightarrow> string" where
  "utf8_fix_go 0 s = []"
| "utf8_fix_go (Suc fuel) s =
     (if s = [] then []
      else let n = utf8_len (map byte s)
           in if n = 0 then map (char_of :: int \<Rightarrow> char) [239, 191, 189] @ utf8_fix_go fuel (tl s)
              else take n s @ utf8_fix_go fuel (drop n s))"

definition utf8_fix :: "string \<Rightarrow> string" where
  "utf8_fix s = utf8_fix_go (length s) s"

section \<open>Canonical JSON\<close>

fun join_comma :: "string list \<Rightarrow> string" where
  "join_comma [] = []"
| "join_comma [x] = x"
| "join_comma (x # y # ys) = x @ CHR '','' # join_comma (y # ys)"

text \<open>The map that decoding an object gives: of two members with one name the later counts.\<close>

definition last_wins :: "(string \<times> 'v) list \<Rightarrow> 'v gomap" where
  "last_wins ms = fold (\<lambda>(k, v). mput k v) ms []"

definition object_text :: "string gomap \<Rightarrow> string" where
  "object_text m =
     CHR ''{'' # join_comma (map (\<lambda>(k, t). json_string k @ CHR '':'' # t) (sort_key fst m)) @ ''}''"

text \<open>
  \<open>marshalSorted\<close> on a decoded value; an infinite or not-a-number \<open>float64\<close> and the types that only
  an SDK's caller can produce do not occur there.
\<close>

fun marshal_sorted :: "(rat \<Rightarrow> string) \<Rightarrow> any \<Rightarrow> string" where
  "marshal_sorted num (AObj ms) = object_text (last_wins (map (\<lambda>(k, v). (k, marshal_sorted num v)) ms))"
| "marshal_sorted num (AArr vs) = CHR ''['' # join_comma (map (marshal_sorted num) vs) @ '']''"
| "marshal_sorted num (AStr s) = json_string s"
| "marshal_sorted num (ABool b) = (if b then ''true'' else ''false'')"
| "marshal_sorted num (AFloat (Fin q)) = num q"
| "marshal_sorted num _ = ''null''"

text \<open>Encoding replaces invalid UTF-8.\<close>

fun fix_json :: "json \<Rightarrow> json" where
  "fix_json (JStr s) = JStr (utf8_fix s)"
| "fix_json (JArr js) = JArr (map fix_json js)"
| "fix_json (JObj ms) = JObj (map (\<lambda>(k, j). (utf8_fix k, fix_json j)) ms)"
| "fix_json j = j"

text \<open>\<open>CanonicalJSON\<close>: the decoder's error (a number that overflows \<open>float64\<close>) is passed on.\<close>

definition canonical_json :: "(rat \<Rightarrow> string) \<Rightarrow> json \<Rightarrow> string option" where
  "canonical_json num j =
     (let j' = fix_json j in if decodes_ok j' then Some (marshal_sorted num (decode_any j')) else None)"

section \<open>Independence of the order of members\<close>

lemma sort_key_unique:
  fixes m m' :: "'v gomap"
  assumes "wf_map m" "wf_map m'" "mget m = mget m'"
  shows "sort_key fst m = sort_key fst m'"
proof (rule map_sorted_distinct_set_unique [where f = fst])
  have eq: "set m = set m'"
    using mget_in [OF assms(1)] mget_in [OF assms(2)] assms(3) by auto
  then show "set (sort_key fst m) = set (sort_key fst m')" by simp
  show "inj_on fst (set (sort_key fst m) \<union> set (sort_key fst m'))"
    using eq assms(1) by (simp add: wf_map_def distinct_map)
  show "distinct (map fst (sort_key fst m))" "distinct (map fst (sort_key fst m'))"
    using assms(1,2) by (simp_all add: wf_map_def distinct_map)
qed simp_all

lemma wf_last_wins_go: "wf_map m \<Longrightarrow> wf_map (fold (\<lambda>(k, v). mput k v) ms m)"
  by (induction ms arbitrary: m) (auto simp: map_simps)

lemma mget_last_wins_go:
  "mget (fold (\<lambda>(k, v). mput k v) ms m) k = (case mget (rev ms) k of None \<Rightarrow> mget m k | Some v \<Rightarrow> Some v)"
  by (induction ms arbitrary: m) (auto simp: map_simps map_add_def split: option.splits)

lemma wf_last_wins [simp]: "wf_map (last_wins ms)"
  by (simp add: last_wins_def wf_last_wins_go)

lemma mget_last_wins: "mget (last_wins ms) k = mget (rev ms) k"
  by (simp add: last_wins_def mget_last_wins_go split: option.split)

lemma mget_last_wins_wf: "wf_map ms \<Longrightarrow> mget (last_wins ms) = mget ms"
proof
  fix k assume wf: "wf_map ms"
  then have "wf_map (rev ms)" by (simp add: wf_map_def rev_map [symmetric])
  then have "mget (rev ms) k = Some v \<longleftrightarrow> mget ms k = Some v" for v
    using mget_in [OF wf, of k v] mget_in [of "rev ms" k v] by simp
  then show "mget (last_wins ms) k = mget ms k" unfolding mget_last_wins by (metis not_Some_eq)
qed

lemma object_text_cong: "wf_map m \<Longrightarrow> wf_map m' \<Longrightarrow> mget m = mget m' \<Longrightarrow> object_text m = object_text m'"
  unfolding object_text_def by (drule (2) sort_key_unique) (erule arg_cong)

text \<open>Two objects with the same members, each name once, in any order.\<close>

lemma mget_map_value: "mget (map (\<lambda>(k, v). (k, f v)) m) = map_option f \<circ> mget m"
  by (rule ext) (induction m, auto)

lemma wf_map_value: "wf_map (map (\<lambda>(k, v). (k, f v)) m) = wf_map m"
  by (simp add: wf_map_def comp_def case_prod_beta)

lemma marshal_object_order:
  assumes "wf_map ms" "wf_map ms'" "mget ms = mget ms'"
  shows "marshal_sorted num (AObj ms) = marshal_sorted num (AObj ms')"
  using assms by (auto intro!: object_text_cong simp: mget_last_wins_wf wf_map_value mget_map_value)

end
