(* ===== verification/MemStore.thy ===== *)
theory MemStore
  imports Model
begin

text \<open>
  The in-memory configuration store, \<open>internal/store/memory.go\<close>, and the interface it implements,
  \<open>internal/store/store.go\<close>.

  Every operation holds the store's lock for its whole duration, so it is a function from state to
  state. The inner maps of the code are created with their project and deleted with it; a nil inner map
  is an absent entry here. The clock's value is an argument \<open>now\<close>.

  The contract that flags and segments share is the locale \<open>keyed_table\<close>; the lemmas also show the
  store's invariant and how versions move.
\<close>

section \<open>The code\<close>

record audit_entry =
  au_id :: string
  au_project_key :: string
  au_actor :: string
  au_action :: string
  au_resource :: string
  au_resource_id :: string
  au_before :: string
  au_after :: string
  au_at :: int

record mem_store =
  ms_projects :: "project gomap"
  ms_flags :: "flag gomap gomap"
  ms_segments :: "segment gomap gomap"
  ms_configs :: "flag_config gomap gomap gomap"
  ms_versions :: "int gomap gomap"
  ms_audits :: "audit_entry list gomap"
  ms_audit_seq :: int

datatype store_error =
    ProjectNotFound string
  | ProjectExists string
  | EnvNotFound string string
  | EnvExists string string
  | FlagNotFound string string
  | FlagExists string string
  | ConfigNotFound string string
  | SegmentNotFound string string
  | SegmentExists string string
  | StorageError

definition new_memory_store :: mem_store where
  "new_memory_store = \<lparr>ms_projects = [], ms_flags = [], ms_segments = [], ms_configs = [],
     ms_versions = [], ms_audits = [], ms_audit_seq = 0\<rparr>"

subsection \<open>Projects\<close>

definition mem_get_project :: "mem_store \<Rightarrow> string \<Rightarrow> store_error + project" where
  "mem_get_project s k = (case mget (ms_projects s) k of None \<Rightarrow> Inl (ProjectNotFound k) | Some p \<Rightarrow> Inr p)"

definition mem_list_projects :: "mem_store \<Rightarrow> project list" where
  "mem_list_projects s = map snd (ms_projects s)"

fun register_envs :: "'v \<Rightarrow> environment list \<Rightarrow> 'v gomap \<Rightarrow> 'v gomap" where
  "register_envs v [] m = m"
| "register_envs v (e # es) m = register_envs v es (mput (env_key e) v m)"

definition mem_create_project :: "mem_store \<Rightarrow> project \<Rightarrow> store_error + mem_store" where
  "mem_create_project s p =
     (let k = proj_key p
      in if mget (ms_projects s) k \<noteq> None then Inl (ProjectExists k)
         else Inr (s\<lparr>ms_projects := mput k p (ms_projects s),
                     ms_flags := mput k [] (ms_flags s),
                     ms_segments := mput k [] (ms_segments s),
                     ms_configs := mput k (register_envs [] (proj_environments p) []) (ms_configs s),
                     ms_versions := mput k (register_envs 0 (proj_environments p) []) (ms_versions s)\<rparr>))"

definition mem_update_project :: "mem_store \<Rightarrow> project \<Rightarrow> store_error + mem_store" where
  "mem_update_project s p =
     (if mget (ms_projects s) (proj_key p) = None then Inl (ProjectNotFound (proj_key p))
      else Inr (s\<lparr>ms_projects := mput (proj_key p) p (ms_projects s)\<rparr>))"

definition mem_delete_project :: "mem_store \<Rightarrow> string \<Rightarrow> store_error + mem_store" where
  "mem_delete_project s k =
     Inr (s\<lparr>ms_projects := mdel k (ms_projects s), ms_flags := mdel k (ms_flags s),
            ms_segments := mdel k (ms_segments s), ms_configs := mdel k (ms_configs s),
            ms_versions := mdel k (ms_versions s)\<rparr>)"

subsection \<open>Environments\<close>

definition find_env :: "string \<Rightarrow> environment list \<Rightarrow> environment option" where
  "find_env k es = List.find (\<lambda>e. env_key e = k) es"

definition mem_get_environment :: "mem_store \<Rightarrow> string \<Rightarrow> string \<Rightarrow> store_error + environment" where
  "mem_get_environment s pk ek =
     (case mget (ms_projects s) pk of None \<Rightarrow> Inl (ProjectNotFound pk)
      | Some p \<Rightarrow> (case find_env ek (proj_environments p) of
                     None \<Rightarrow> Inl (EnvNotFound pk ek) | Some e \<Rightarrow> Inr e))"

definition mem_list_environments :: "mem_store \<Rightarrow> string \<Rightarrow> store_error + environment list" where
  "mem_list_environments s pk =
     (case mget (ms_projects s) pk of None \<Rightarrow> Inl (ProjectNotFound pk) | Some p \<Rightarrow> Inr (proj_environments p))"

definition inner :: "'v gomap gomap \<Rightarrow> string \<Rightarrow> 'v gomap" where
  "inner m k = (case mget m k of None \<Rightarrow> [] | Some x \<Rightarrow> x)"

definition mem_create_environment :: "mem_store \<Rightarrow> string \<Rightarrow> environment \<Rightarrow> store_error + mem_store" where
  "mem_create_environment s pk e =
     (case mget (ms_projects s) pk of None \<Rightarrow> Inl (ProjectNotFound pk)
      | Some p \<Rightarrow>
          if find_env (env_key e) (proj_environments p) \<noteq> None then Inl (EnvExists pk (env_key e))
          else Inr (s\<lparr>ms_projects := mput pk (p\<lparr>proj_environments := proj_environments p @ [e]\<rparr>) (ms_projects s),
                      ms_configs := mput pk (mput (env_key e) [] (inner (ms_configs s) pk)) (ms_configs s),
                      ms_versions := mput pk (mput (env_key e) 0 (inner (ms_versions s) pk)) (ms_versions s)\<rparr>))"

fun replace_env :: "environment \<Rightarrow> environment list \<Rightarrow> environment list option" where
  "replace_env e [] = None"
| "replace_env e (x # xs) =
     (if env_key x = env_key e then Some (e # xs) else map_option ((#) x) (replace_env e xs))"

definition mem_update_environment :: "mem_store \<Rightarrow> string \<Rightarrow> environment \<Rightarrow> store_error + mem_store" where
  "mem_update_environment s pk e =
     (case mget (ms_projects s) pk of None \<Rightarrow> Inl (ProjectNotFound pk)
      | Some p \<Rightarrow>
          (case replace_env e (proj_environments p) of
             None \<Rightarrow> Inl (EnvNotFound pk (env_key e))
           | Some es \<Rightarrow> Inr (s\<lparr>ms_projects := mput pk (p\<lparr>proj_environments := es\<rparr>) (ms_projects s)\<rparr>)))"

fun remove_env :: "string \<Rightarrow> environment list \<Rightarrow> environment list" where
  "remove_env k [] = []"
| "remove_env k (x # xs) = (if env_key x = k then xs else x # remove_env k xs)"

text \<open>Deleting from the two inner maps, each only if it is not nil.\<close>

definition del_inner :: "string \<Rightarrow> string \<Rightarrow> 'v gomap gomap \<Rightarrow> 'v gomap gomap" where
  "del_inner k k' m = (case mget m k of None \<Rightarrow> m | Some x \<Rightarrow> mput k (mdel k' x) m)"

definition mem_delete_environment :: "mem_store \<Rightarrow> string \<Rightarrow> string \<Rightarrow> store_error + mem_store" where
  "mem_delete_environment s pk ek =
     (case mget (ms_projects s) pk of None \<Rightarrow> Inl (ProjectNotFound pk)
      | Some p \<Rightarrow>
          Inr (s\<lparr>ms_projects := mput pk (p\<lparr>proj_environments := remove_env ek (proj_environments p)\<rparr>) (ms_projects s),
                 ms_configs := del_inner pk ek (ms_configs s),
                 ms_versions := del_inner pk ek (ms_versions s)\<rparr>))"

subsection \<open>Flags\<close>

definition mem_get_flag :: "mem_store \<Rightarrow> string \<Rightarrow> string \<Rightarrow> store_error + flag" where
  "mem_get_flag s pk fk =
     (case mget (ms_flags s) pk of None \<Rightarrow> Inl (ProjectNotFound pk)
      | Some fs \<Rightarrow> (case mget fs fk of None \<Rightarrow> Inl (FlagNotFound pk fk) | Some f \<Rightarrow> Inr f))"

definition mem_list_flags :: "mem_store \<Rightarrow> string \<Rightarrow> store_error + flag list" where
  "mem_list_flags s pk =
     (case mget (ms_flags s) pk of None \<Rightarrow> Inl (ProjectNotFound pk) | Some fs \<Rightarrow> Inr (map snd fs))"

text \<open>The caller's flag is stamped and stored.\<close>

definition mem_create_flag :: "int \<Rightarrow> mem_store \<Rightarrow> string \<Rightarrow> flag \<Rightarrow> store_error + mem_store" where
  "mem_create_flag now s pk f =
     (case mget (ms_flags s) pk of None \<Rightarrow> Inl (ProjectNotFound pk)
      | Some fs \<Rightarrow>
          if mget fs (flag_key f) \<noteq> None then Inl (FlagExists pk (flag_key f))
          else Inr (s\<lparr>ms_flags := mput pk (mput (flag_key f)
                        (f\<lparr>flag_created_at := now, flag_updated_at := now\<rparr>) fs) (ms_flags s)\<rparr>))"

definition mem_update_flag :: "int \<Rightarrow> mem_store \<Rightarrow> string \<Rightarrow> flag \<Rightarrow> store_error + mem_store" where
  "mem_update_flag now s pk f =
     (case mget (ms_flags s) pk of None \<Rightarrow> Inl (ProjectNotFound pk)
      | Some fs \<Rightarrow>
          if mget fs (flag_key f) = None then Inl (FlagNotFound pk (flag_key f))
          else Inr (s\<lparr>ms_flags := mput pk (mput (flag_key f) (f\<lparr>flag_updated_at := now\<rparr>) fs) (ms_flags s)\<rparr>))"

definition mem_delete_flag :: "mem_store \<Rightarrow> string \<Rightarrow> string \<Rightarrow> store_error + mem_store" where
  "mem_delete_flag s pk fk =
     (case mget (ms_flags s) pk of None \<Rightarrow> Inl (ProjectNotFound pk)
      | Some fs \<Rightarrow> Inr (s\<lparr>ms_flags := mput pk (mdel fk fs) (ms_flags s)\<rparr>))"

subsection \<open>Flag configurations\<close>

definition mem_get_flag_config :: "mem_store \<Rightarrow> string \<Rightarrow> string \<Rightarrow> string \<Rightarrow> store_error + flag_config" where
  "mem_get_flag_config s pk ek fk =
     (case mget (ms_configs s) pk of None \<Rightarrow> Inl (ProjectNotFound pk)
      | Some es \<Rightarrow>
          (case mget es ek of None \<Rightarrow> Inl (EnvNotFound pk ek)
           | Some cs \<Rightarrow> (case mget cs fk of None \<Rightarrow> Inl (ConfigNotFound ek fk) | Some c \<Rightarrow> Inr c)))"

definition mem_upsert_flag_config ::
    "mem_store \<Rightarrow> string \<Rightarrow> string \<Rightarrow> string \<Rightarrow> flag_config \<Rightarrow> store_error + mem_store" where
  "mem_upsert_flag_config s pk ek fk c =
     (case mget (ms_configs s) pk of None \<Rightarrow> Inl (ProjectNotFound pk)
      | Some es \<Rightarrow> Inr (s\<lparr>ms_configs := mput pk (mput ek (mput fk c (inner es ek)) es) (ms_configs s)\<rparr>))"

subsection \<open>Segments\<close>

definition mem_get_segment :: "mem_store \<Rightarrow> string \<Rightarrow> string \<Rightarrow> store_error + segment" where
  "mem_get_segment s pk sk =
     (case mget (ms_segments s) pk of None \<Rightarrow> Inl (ProjectNotFound pk)
      | Some gs \<Rightarrow> (case mget gs sk of None \<Rightarrow> Inl (SegmentNotFound pk sk) | Some g \<Rightarrow> Inr g))"

definition mem_list_segments :: "mem_store \<Rightarrow> string \<Rightarrow> store_error + segment list" where
  "mem_list_segments s pk =
     (case mget (ms_segments s) pk of None \<Rightarrow> Inl (ProjectNotFound pk) | Some gs \<Rightarrow> Inr (map snd gs))"

definition mem_create_segment :: "mem_store \<Rightarrow> string \<Rightarrow> segment \<Rightarrow> store_error + mem_store" where
  "mem_create_segment s pk g =
     (case mget (ms_segments s) pk of None \<Rightarrow> Inl (ProjectNotFound pk)
      | Some gs \<Rightarrow>
          if mget gs (seg_key g) \<noteq> None then Inl (SegmentExists pk (seg_key g))
          else Inr (s\<lparr>ms_segments := mput pk (mput (seg_key g) g gs) (ms_segments s)\<rparr>))"

definition mem_update_segment :: "mem_store \<Rightarrow> string \<Rightarrow> segment \<Rightarrow> store_error + mem_store" where
  "mem_update_segment s pk g =
     (case mget (ms_segments s) pk of None \<Rightarrow> Inl (ProjectNotFound pk)
      | Some gs \<Rightarrow>
          if mget gs (seg_key g) = None then Inl (SegmentNotFound pk (seg_key g))
          else Inr (s\<lparr>ms_segments := mput pk (mput (seg_key g) g gs) (ms_segments s)\<rparr>))"

definition mem_delete_segment :: "mem_store \<Rightarrow> string \<Rightarrow> string \<Rightarrow> store_error + mem_store" where
  "mem_delete_segment s pk sk =
     (case mget (ms_segments s) pk of None \<Rightarrow> Inl (ProjectNotFound pk)
      | Some gs \<Rightarrow> Inr (s\<lparr>ms_segments := mput pk (mdel sk gs) (ms_segments s)\<rparr>))"

subsection \<open>Versions and the audit log\<close>

definition mem_get_env_version :: "mem_store \<Rightarrow> string \<Rightarrow> string \<Rightarrow> store_error + int" where
  "mem_get_env_version s pk ek =
     (case mget (ms_versions s) pk of None \<Rightarrow> Inl (ProjectNotFound pk)
      | Some vs \<Rightarrow> (case mget vs ek of None \<Rightarrow> Inl (EnvNotFound pk ek) | Some v \<Rightarrow> Inr v))"

text \<open>\<open>atomic.AddInt64\<close> returns the new value.\<close>

definition mem_increment_env_version ::
    "mem_store \<Rightarrow> string \<Rightarrow> string \<Rightarrow> store_error + (int \<times> mem_store)" where
  "mem_increment_env_version s pk ek =
     (case mget (ms_versions s) pk of None \<Rightarrow> Inl (ProjectNotFound pk)
      | Some vs \<Rightarrow>
          (case mget vs ek of None \<Rightarrow> Inl (EnvNotFound pk ek)
           | Some v \<Rightarrow> Inr (wrap64 (v + 1),
                            s\<lparr>ms_versions := mput pk (mput ek (wrap64 (v + 1)) vs) (ms_versions s)\<rparr>)))"

definition mem_append_audit :: "mem_store \<Rightarrow> audit_entry \<Rightarrow> mem_store" where
  "mem_append_audit s e =
     (let n = wrap64 (ms_audit_seq s + 1);
          e' = e\<lparr>au_id := ''audit-'' @ itoa n\<rparr>;
          pk = au_project_key e
      in s\<lparr>ms_audit_seq := n,
           ms_audits := mput pk ((case mget (ms_audits s) pk of None \<Rightarrow> [] | Some es \<Rightarrow> es) @ [e'])
                          (ms_audits s)\<rparr>)"

definition mem_list_audit :: "mem_store \<Rightarrow> string \<Rightarrow> int \<Rightarrow> audit_entry list" where
  "mem_list_audit s pk limit =
     (let es = (case mget (ms_audits s) pk of None \<Rightarrow> [] | Some es \<Rightarrow> es)
      in if 0 < limit \<and> limit < int (length es) then drop (length es - nat limit) es else es)"

section \<open>The contract of flags and segments\<close>

text \<open>
  Both are tables of values that carry their key, one table per project: what a lookup returns after
  each operation, when the operations succeed, and what a listing contains. The client lemmas are
  what the snapshot builder and the handlers rely on.
\<close>

locale keyed_table =
  fixes key :: "'v \<Rightarrow> string"
    and inv :: "'s \<Rightarrow> bool"
    and get :: "'s \<Rightarrow> string \<Rightarrow> string \<Rightarrow> 'e + 'v"
    and entries :: "'s \<Rightarrow> string \<Rightarrow> 'e + 'v list"
    and create :: "'s \<Rightarrow> string \<Rightarrow> 'v \<Rightarrow> 'e + 's"
    and update :: "'s \<Rightarrow> string \<Rightarrow> 'v \<Rightarrow> 'e + 's"
    and remove :: "'s \<Rightarrow> string \<Rightarrow> string \<Rightarrow> 'e + 's"
    and created :: "'v \<Rightarrow> 'v"
    and updated :: "'v \<Rightarrow> 'v"
  assumes inv_create: "inv s \<Longrightarrow> create s p v = Inr s' \<Longrightarrow> inv s'"
    and inv_update: "inv s \<Longrightarrow> update s p v = Inr s' \<Longrightarrow> inv s'"
    and inv_remove: "inv s \<Longrightarrow> remove s p k = Inr s' \<Longrightarrow> inv s'"
    and get_create: "create s p v = Inr s' \<Longrightarrow>
      ok (get s' q k) = (if q = p \<and> k = key v then Some (created v) else ok (get s q k))"
    and get_update: "update s p v = Inr s' \<Longrightarrow>
      ok (get s' q k) = (if q = p \<and> k = key v then Some (updated v) else ok (get s q k))"
    and get_remove: "remove s p k = Inr s' \<Longrightarrow>
      ok (get s' q j) = (if q = p \<and> j = k then None else ok (get s q j))"
    and create_ok: "(\<exists>s'. create s p v = Inr s') \<longleftrightarrow> ok (entries s p) \<noteq> None \<and> ok (get s p (key v)) = None"
    and update_ok: "(\<exists>s'. update s p v = Inr s') \<longleftrightarrow> ok (get s p (key v)) \<noteq> None"
    and remove_ok: "(\<exists>s'. remove s p k = Inr s') \<longleftrightarrow> ok (entries s p) \<noteq> None"
    and listed: "inv s \<Longrightarrow> entries s p = Inr vs \<Longrightarrow> v \<in> set vs \<longleftrightarrow> ok (get s p (key v)) = Some v"
    and distinct_entries: "inv s \<Longrightarrow> entries s p = Inr vs \<Longrightarrow> distinct (map key vs)"
    and get_key: "inv s \<Longrightarrow> ok (get s p k) = Some v \<Longrightarrow> key v = k"
begin

text \<open>A map filled from a listing holds what single lookups return.\<close>

lemma map_of_entries:
  assumes "inv s" "entries s p = Inr vs"
  shows "map_of (map (\<lambda>v. (key v, v)) vs) k = ok (get s p k)"
proof (rule opt_ext)
  fix v
  show "map_of (map (\<lambda>v. (key v, v)) vs) k = Some v \<longleftrightarrow> ok (get s p k) = Some v"
    unfolding map_of_keyed [OF distinct_entries [OF assms]] listed [OF assms]
    using get_key [OF assms(1), of p k v] by auto
qed

lemma created_once: "create s p v = Inr s' \<Longrightarrow> key w = key v \<Longrightarrow> \<exists>e. create s' p w = Inl e"
  using create_ok [of s' p w] get_create [of s p v s' p "key v"] by (cases "create s' p w") auto

lemma create_remove:
  "create s p v = Inr s' \<Longrightarrow> remove s' p (key v) = Inr s'' \<Longrightarrow> ok (get s'' q k) = ok (get s q k)"
  using create_ok [of s p v] by (auto simp: get_create get_remove)

lemma remove_absent: "inv s \<Longrightarrow> remove s p k = Inr s' \<Longrightarrow> entries s' p = Inr vs \<Longrightarrow> k \<notin> key ` set vs"
  using listed [OF inv_remove] get_remove by (metis (full_types) imageE not_None_eq option.distinct(1))

end

section \<open>The invariant\<close>

definition table_ok :: "('v \<Rightarrow> string) \<Rightarrow> 'v gomap gomap \<Rightarrow> bool" where
  "table_ok key m \<longleftrightarrow>
     (\<forall>p t. mget m p = Some t \<longrightarrow> wf_map t \<and> (\<forall>k v. mget t k = Some v \<longrightarrow> key v = k))"

lemma table_ok_put:
  "table_ok key m \<Longrightarrow> wf_map t \<Longrightarrow> (\<And>k v. mget t k = Some v \<Longrightarrow> key v = k) \<Longrightarrow> table_ok key (mput p t m)"
  by (auto simp: table_ok_def map_simps split: if_splits)

lemma table_ok_del: "table_ok key m \<Longrightarrow> table_ok key (mdel p m)"
  by (auto simp: table_ok_def map_simps split: if_splits)

lemma table_ok_get: "table_ok key m \<Longrightarrow> mget m p = Some t \<Longrightarrow> wf_map t"
  "table_ok key m \<Longrightarrow> mget m p = Some t \<Longrightarrow> mget t k = Some v \<Longrightarrow> key v = k"
  by (auto simp: table_ok_def)

lemmas table_intros = table_ok_put table_ok_del

text \<open>
  Every project has its four inner maps and no other has any; flags, segments and projects are stored
  under their own keys; an environment that has a version has a table of configurations.
\<close>

definition mem_inv :: "mem_store \<Rightarrow> bool" where
  "mem_inv s \<longleftrightarrow>
     table_ok flag_key (ms_flags s) \<and> table_ok seg_key (ms_segments s) \<and>
     (\<forall>k p. mget (ms_projects s) k = Some p \<longrightarrow> proj_key p = k) \<and>
     (\<forall>k. (mget (ms_flags s) k = None) = (mget (ms_projects s) k = None)) \<and>
     (\<forall>k. (mget (ms_segments s) k = None) = (mget (ms_projects s) k = None)) \<and>
     (\<forall>k. (mget (ms_configs s) k = None) = (mget (ms_projects s) k = None)) \<and>
     (\<forall>k. (mget (ms_versions s) k = None) = (mget (ms_projects s) k = None)) \<and>
     (\<forall>k vs e. mget (ms_versions s) k = Some vs \<longrightarrow> mget vs e \<noteq> None \<longrightarrow>
        mget (inner (ms_configs s) k) e \<noteq> None)"

lemma mem_inv_empty: "mem_inv new_memory_store"
  by (simp add: mem_inv_def new_memory_store_def table_ok_def inner_def)

lemma mem_invD:
  assumes "mem_inv s"
  shows "table_ok flag_key (ms_flags s)" "table_ok seg_key (ms_segments s)"
    "mget (ms_projects s) k = Some p \<Longrightarrow> proj_key p = k"
    "mget (ms_flags s) k = None \<longleftrightarrow> mget (ms_projects s) k = None"
    "mget (ms_segments s) k = None \<longleftrightarrow> mget (ms_projects s) k = None"
    "mget (ms_configs s) k = None \<longleftrightarrow> mget (ms_projects s) k = None"
    "mget (ms_versions s) k = None \<longleftrightarrow> mget (ms_projects s) k = None"
    "mget (ms_versions s) k = Some vs \<Longrightarrow> mget vs e = Some v \<Longrightarrow> mget (inner (ms_configs s) k) e \<noteq> None"
  using assms unfolding mem_inv_def by blast+

text \<open>Operations that only write flags or only write segments.\<close>

lemma mem_inv_flags:
  "mem_inv s \<Longrightarrow> mget (ms_flags s) p \<noteq> None \<Longrightarrow> wf_map t \<Longrightarrow>
   (\<And>k v. mget t k = Some v \<Longrightarrow> flag_key v = k) \<Longrightarrow> mem_inv (s\<lparr>ms_flags := mput p t (ms_flags s)\<rparr>)"
  by (auto simp: mem_inv_def map_simps intro!: table_ok_put)

lemma mem_inv_segments:
  "mem_inv s \<Longrightarrow> mget (ms_segments s) p \<noteq> None \<Longrightarrow> wf_map t \<Longrightarrow>
   (\<And>k v. mget t k = Some v \<Longrightarrow> seg_key v = k) \<Longrightarrow> mem_inv (s\<lparr>ms_segments := mput p t (ms_segments s)\<rparr>)"
  by (auto simp: mem_inv_def map_simps intro!: table_ok_put)

lemma flags_wf: "mem_inv s \<Longrightarrow> mget (ms_flags s) p = Some fs \<Longrightarrow> wf_map fs"
  and flags_key: "mem_inv s \<Longrightarrow> mget (ms_flags s) p = Some fs \<Longrightarrow> mget fs k = Some f \<Longrightarrow> flag_key f = k"
  and segments_wf: "mem_inv s \<Longrightarrow> mget (ms_segments s) p = Some gs \<Longrightarrow> wf_map gs"
  and segments_key: "mem_inv s \<Longrightarrow> mget (ms_segments s) p = Some gs \<Longrightarrow> mget gs k = Some g \<Longrightarrow> seg_key g = k"
  using mem_invD(1,2) [of s] by (auto dest: table_ok_get)

lemma inv_create_flag: "mem_inv s \<Longrightarrow> mem_create_flag now s p f = Inr s' \<Longrightarrow> mem_inv s'"
  by (auto simp: mem_create_flag_def map_simps intro!: mem_inv_flags split: option.splits if_splits dest: flags_wf flags_key)

lemma inv_update_flag: "mem_inv s \<Longrightarrow> mem_update_flag now s p f = Inr s' \<Longrightarrow> mem_inv s'"
  by (auto simp: mem_update_flag_def map_simps intro!: mem_inv_flags split: option.splits if_splits dest: flags_wf flags_key)

lemma inv_delete_flag: "mem_inv s \<Longrightarrow> mem_delete_flag s p k = Inr s' \<Longrightarrow> mem_inv s'"
  by (auto simp: mem_delete_flag_def map_simps intro!: mem_inv_flags split: option.splits if_splits dest: flags_wf flags_key)

lemma inv_create_segment: "mem_inv s \<Longrightarrow> mem_create_segment s p g = Inr s' \<Longrightarrow> mem_inv s'"
  by (auto simp: mem_create_segment_def map_simps intro!: mem_inv_segments split: option.splits if_splits dest: segments_wf segments_key)

lemma inv_update_segment: "mem_inv s \<Longrightarrow> mem_update_segment s p g = Inr s' \<Longrightarrow> mem_inv s'"
  by (auto simp: mem_update_segment_def map_simps intro!: mem_inv_segments split: option.splits if_splits dest: segments_wf segments_key)

lemma inv_delete_segment: "mem_inv s \<Longrightarrow> mem_delete_segment s p k = Inr s' \<Longrightarrow> mem_inv s'"
  by (auto simp: mem_delete_segment_def map_simps intro!: mem_inv_segments split: option.splits if_splits dest: segments_wf segments_key)

lemma get_register: "mget (register_envs v es m) k = (if k \<in> env_key ` set es then Some v else mget m k)"
  by (induction es arbitrary: m) (auto simp: map_simps)

lemma inv_create_project:
  assumes "mem_inv s" "mem_create_project s p = Inr s'"
  shows "mem_inv s'"
proof -
  note d = mem_invD [OF assms(1)]
  have s': "s' = s\<lparr>ms_projects := mput (proj_key p) p (ms_projects s),
      ms_flags := mput (proj_key p) [] (ms_flags s), ms_segments := mput (proj_key p) [] (ms_segments s),
      ms_configs := mput (proj_key p) (register_envs [] (proj_environments p) []) (ms_configs s),
      ms_versions := mput (proj_key p) (register_envs 0 (proj_environments p) []) (ms_versions s)\<rparr>"
    using assms(2) by (simp add: mem_create_project_def Let_def split: if_splits)
  show ?thesis unfolding mem_inv_def
  proof (intro conjI allI impI)
    show "table_ok flag_key (ms_flags s')" "table_ok seg_key (ms_segments s')"
      using d(1,2) by (auto simp: s' intro!: table_ok_put)
  next
    fix k vs e assume "mget (ms_versions s') k = Some vs" "mget vs e \<noteq> None"
    then show "mget (inner (ms_configs s') k) e \<noteq> None"
      using d(8) by (auto simp: s' map_simps get_register inner_def split: if_splits)
  qed (use d(3-7) in \<open>auto simp: s' map_simps split: if_splits\<close>)
qed

text \<open>Writing one project, and the tables of its environments.\<close>

lemma mem_inv_project:
  assumes "mem_inv s" "mget (ms_projects s) k = Some p" "proj_key p' = k"
  shows "mem_inv (s\<lparr>ms_projects := mput k p' (ms_projects s)\<rparr>)"
  unfolding mem_inv_def using mem_invD [OF assms(1)] assms(2,3)
  by (intro conjI allI impI) (auto simp: map_simps split: if_splits)

lemma mem_inv_tables:
  assumes "mem_inv s" "mget (ms_projects s) k \<noteq> None" "\<And>e. mget v e \<noteq> None \<Longrightarrow> mget c e \<noteq> None"
  shows "mem_inv (s\<lparr>ms_configs := mput k c (ms_configs s), ms_versions := mput k v (ms_versions s)\<rparr>)"
  unfolding mem_inv_def
proof (intro conjI allI impI)
  fix k' vs e
  assume "mget (ms_versions (s\<lparr>ms_configs := mput k c (ms_configs s), ms_versions := mput k v (ms_versions s)\<rparr>)) k' = Some vs"
    "mget vs e \<noteq> None"
  then show "mget (inner (ms_configs (s\<lparr>ms_configs := mput k c (ms_configs s),
      ms_versions := mput k v (ms_versions s)\<rparr>)) k') e \<noteq> None"
    using mem_invD(8) [OF assms(1)] assms(3) [of e] by (auto simp: map_simps inner_def split: if_splits)
qed (use mem_invD(1-7) [OF assms(1)] assms(2) in \<open>auto simp: map_simps split: if_splits\<close>)

lemma mput_same: "mget m k = Some x \<Longrightarrow> mput k x m = m"
  by (induction m) (auto split: if_splits)

lemma mem_inv_configs:
  assumes "mem_inv s" "mget (ms_configs s) k = Some es" "\<And>e. mget es e \<noteq> None \<Longrightarrow> mget c e \<noteq> None"
  shows "mem_inv (s\<lparr>ms_configs := mput k c (ms_configs s)\<rparr>)"
proof -
  obtain vs where vs: "mget (ms_versions s) k = Some vs" "mget (ms_projects s) k \<noteq> None"
    using mem_invD(6,7) [OF assms(1), of k] assms(2) by (cases "mget (ms_versions s) k") auto
  have "mget vs e \<noteq> None \<Longrightarrow> mget c e \<noteq> None" for e
    using mem_invD(8) [OF assms(1) vs(1), of e] assms(2,3) by (auto simp: inner_def)
  from mem_inv_tables [OF assms(1) vs(2), of vs c, OF this] show ?thesis by (simp add: mput_same [OF vs(1)])
qed

lemma mem_inv_versions:
  assumes "mem_inv s" "mget (ms_versions s) k = Some vs" "\<And>e. mget v e \<noteq> None \<Longrightarrow> mget vs e \<noteq> None"
  shows "mem_inv (s\<lparr>ms_versions := mput k v (ms_versions s)\<rparr>)"
proof -
  obtain es where es: "mget (ms_configs s) k = Some es" "mget (ms_projects s) k \<noteq> None"
    using mem_invD(6,7) [OF assms(1), of k] assms(2) by (cases "mget (ms_configs s) k") auto
  have "mget v e \<noteq> None \<Longrightarrow> mget es e \<noteq> None" for e
    using mem_invD(8) [OF assms(1,2), of e] assms(3) [of e] es(1) by (auto simp: inner_def)
  from mem_inv_tables [OF assms(1) es(2) this] show ?thesis by (simp add: mput_same [OF es(1)])
qed

lemma inv_update_project: "mem_inv s \<Longrightarrow> mem_update_project s p = Inr s' \<Longrightarrow> mem_inv s'"
  by (auto simp: mem_update_project_def intro!: mem_inv_project split: if_splits)

lemma inv_delete_project:
  assumes "mem_inv s" "mem_delete_project s k = Inr s'"
  shows "mem_inv s'"
proof -
  note d = mem_invD [OF assms(1)]
  have s': "s' = s\<lparr>ms_projects := mdel k (ms_projects s), ms_flags := mdel k (ms_flags s),
      ms_segments := mdel k (ms_segments s), ms_configs := mdel k (ms_configs s),
      ms_versions := mdel k (ms_versions s)\<rparr>"
    using assms(2) by (simp add: mem_delete_project_def)
  show ?thesis unfolding mem_inv_def
  proof (intro conjI allI impI)
    fix k' vs e assume "mget (ms_versions s') k' = Some vs" "mget vs e \<noteq> None"
    then show "mget (inner (ms_configs s') k') e \<noteq> None"
      using d(8) by (auto simp: s' map_simps inner_def split: if_splits)
  qed (use d(1-7) in \<open>auto simp: s' map_simps table_ok_del split: if_splits\<close>)
qed

lemma inv_create_environment:
  assumes "mem_inv s" "mem_create_environment s k e = Inr s'"
  shows "mem_inv s'"
proof -
  note d = mem_invD [OF assms(1)]
  obtain p where p: "mget (ms_projects s) k = Some p"
    and s': "s' = s\<lparr>ms_projects := mput k (p\<lparr>proj_environments := proj_environments p @ [e]\<rparr>) (ms_projects s),
      ms_configs := mput k (mput (env_key e) [] (inner (ms_configs s) k)) (ms_configs s),
      ms_versions := mput k (mput (env_key e) 0 (inner (ms_versions s) k)) (ms_versions s)\<rparr>"
    using assms(2) by (auto simp: mem_create_environment_def split: option.splits if_splits)
  let ?s = "s\<lparr>ms_projects := mput k (p\<lparr>proj_environments := proj_environments p @ [e]\<rparr>) (ms_projects s)\<rparr>"
  have "mem_inv ?s" using assms(1) p d(3) [OF p] by (intro mem_inv_project) auto
  moreover have "mget (mput (env_key e) 0 (inner (ms_versions s) k)) x \<noteq> None \<Longrightarrow>
      mget (mput (env_key e) [] (inner (ms_configs s) k)) x \<noteq> None" for x
    using d(8) [of k _ x]
    by (cases "mget (ms_versions s) k") (auto simp: map_simps inner_def [of "ms_versions s"] split: if_splits)
  ultimately have "mem_inv (?s\<lparr>
      ms_configs := mput k (mput (env_key e) [] (inner (ms_configs s) k)) (ms_configs ?s),
      ms_versions := mput k (mput (env_key e) 0 (inner (ms_versions s) k)) (ms_versions ?s)\<rparr>)"
    by (intro mem_inv_tables) (auto simp: map_simps)
  then show ?thesis by (simp add: s')
qed

lemma inv_update_environment: "mem_inv s \<Longrightarrow> mem_update_environment s k e = Inr s' \<Longrightarrow> mem_inv s'"
  by (auto simp: mem_update_environment_def mem_invD(3) intro!: mem_inv_project split: option.splits)

lemma inv_delete_environment:
  assumes "mem_inv s" "mem_delete_environment s k ek = Inr s'"
  shows "mem_inv s'"
proof -
  note d = mem_invD [OF assms(1)]
  obtain p where p: "mget (ms_projects s) k = Some p"
    and s': "s' = s\<lparr>ms_projects := mput k (p\<lparr>proj_environments := remove_env ek (proj_environments p)\<rparr>) (ms_projects s),
      ms_configs := del_inner k ek (ms_configs s), ms_versions := del_inner k ek (ms_versions s)\<rparr>"
    using assms(2) by (auto simp: mem_delete_environment_def split: option.splits)
  obtain es vs where e: "mget (ms_configs s) k = Some es" "mget (ms_versions s) k = Some vs"
    using d(6,7) p by (metis not_None_eq)
  let ?s = "s\<lparr>ms_projects := mput k (p\<lparr>proj_environments := remove_env ek (proj_environments p)\<rparr>) (ms_projects s)\<rparr>"
  have "mem_inv ?s" using assms(1) p d(3) [OF p] by (intro mem_inv_project) auto
  moreover have "mget (mdel ek vs) x \<noteq> None \<Longrightarrow> mget (mdel ek es) x \<noteq> None" for x
    using d(8) [OF e(2), of x] e by (auto simp: map_simps inner_def split: if_splits)
  ultimately have "mem_inv (?s\<lparr>ms_configs := mput k (mdel ek es) (ms_configs ?s),
      ms_versions := mput k (mdel ek vs) (ms_versions ?s)\<rparr>)"
    by (intro mem_inv_tables) (auto simp: map_simps)
  then show ?thesis using e by (simp add: s' del_inner_def)
qed

lemma inv_upsert_flag_config: "mem_inv s \<Longrightarrow> mem_upsert_flag_config s p e k c = Inr s' \<Longrightarrow> mem_inv s'"
  by (auto simp: mem_upsert_flag_config_def map_simps intro!: mem_inv_configs split: option.splits)

lemma inv_increment_env_version:
  "mem_inv s \<Longrightarrow> mem_increment_env_version s p e = Inr (n, s') \<Longrightarrow> mem_inv s'"
  by (auto simp: mem_increment_env_version_def map_simps intro!: mem_inv_versions split: option.splits if_splits)

lemma inv_append_audit: "mem_inv s \<Longrightarrow> mem_inv (mem_append_audit s e)"
  by (simp add: mem_inv_def mem_append_audit_def Let_def)

section \<open>The contract holds\<close>

lemma ok_get_flag: "ok (mem_get_flag s p k) = Option.bind (mget (ms_flags s) p) (\<lambda>t. mget t k)"
  by (auto simp: mem_get_flag_def split: option.split)

lemma ok_list_flags: "ok (mem_list_flags s p) = map_option (map snd) (mget (ms_flags s) p)"
  by (auto simp: mem_list_flags_def split: option.split)

lemma create_flag_iff:
  "mem_create_flag now s p v = Inr s' \<longleftrightarrow>
     (\<exists>t. mget (ms_flags s) p = Some t \<and> mget t (flag_key v) = None \<and>
        s' = s\<lparr>ms_flags := mput p (mput (flag_key v) (v\<lparr>flag_created_at := now, flag_updated_at := now\<rparr>) t) (ms_flags s)\<rparr>)"
  by (auto simp: mem_create_flag_def split: option.split)

lemma update_flag_iff:
  "mem_update_flag now s p v = Inr s' \<longleftrightarrow>
     (\<exists>t. mget (ms_flags s) p = Some t \<and> mget t (flag_key v) \<noteq> None \<and>
        s' = s\<lparr>ms_flags := mput p (mput (flag_key v) (v\<lparr>flag_updated_at := now\<rparr>) t) (ms_flags s)\<rparr>)"
  by (auto simp: mem_update_flag_def split: option.split)

lemma delete_flag_iff:
  "mem_delete_flag s p k = Inr s' \<longleftrightarrow>
     (\<exists>t. mget (ms_flags s) p = Some t \<and> s' = s\<lparr>ms_flags := mput p (mdel k t) (ms_flags s)\<rparr>)"
  by (auto simp: mem_delete_flag_def split: option.split)

lemma listed_flags:
  assumes "mem_inv s" "mem_list_flags s p = Inr vs"
  shows "v \<in> set vs \<longleftrightarrow> ok (mem_get_flag s p (flag_key v)) = Some v" "distinct (map flag_key vs)"
proof -
  from assms(2) obtain t where t: "mget (ms_flags s) p = Some t" "vs = map snd t"
    by (auto simp: mem_list_flags_def split: option.splits)
  have mem: "(k, x) \<in> set t \<longleftrightarrow> mget t k = Some x" for k x using flags_wf [OF assms(1) t(1)] by (rule mget_in)
  have "v \<in> set vs \<longleftrightarrow> (\<exists>k. mget t k = Some v)" unfolding t(2) using mem by force
  also have "\<dots> \<longleftrightarrow> mget t (flag_key v) = Some v" using flags_key [OF assms(1) t(1)] by blast
  finally show "v \<in> set vs \<longleftrightarrow> ok (mem_get_flag s p (flag_key v)) = Some v"
    unfolding ok_get_flag by (simp add: t(1))
  have "map flag_key vs = mkeys t" unfolding t(2) using flags_key [OF assms(1) t(1)] mem by auto
  then show "distinct (map flag_key vs)" using flags_wf [OF assms(1) t(1)] by (simp add: wf_map_def)
qed

interpretation mem_flags: keyed_table flag_key mem_inv mem_get_flag mem_list_flags
  "mem_create_flag now" "mem_update_flag now" mem_delete_flag "\<lambda>f. f\<lparr>flag_created_at := now, flag_updated_at := now\<rparr>" "\<lambda>f. f\<lparr>flag_updated_at := now\<rparr>" for now
proof (unfold_locales, goal_cases)
  case (1 s p v s') then show ?case by (rule inv_create_flag)
next
  case (2 s p v s') then show ?case by (rule inv_update_flag)
next
  case (3 s p k s') then show ?case by (rule inv_delete_flag)
next
  case (4 s p v s' q k) then show ?case by (auto simp: ok_get_flag create_flag_iff map_simps)
next
  case (5 s p v s' q k) then show ?case by (auto simp: ok_get_flag update_flag_iff map_simps)
next
  case (6 s p k s' q j) then show ?case by (auto simp: ok_get_flag delete_flag_iff map_simps)
next
  case (10 s p vs v) then show ?case by (rule listed_flags(1))
next
  case (11 s p vs) then show ?case by (rule listed_flags(2))
next
  case (12 s p k v) then show ?case by (auto simp: ok_get_flag bind_eq_Some_conv simp del: ok_Some dest: flags_key)
qed (auto simp: ok_get_flag ok_list_flags create_flag_iff update_flag_iff delete_flag_iff bind_eq_Some_conv simp del: ok_Some)

lemma ok_get_segment: "ok (mem_get_segment s p k) = Option.bind (mget (ms_segments s) p) (\<lambda>t. mget t k)"
  by (auto simp: mem_get_segment_def split: option.split)

lemma ok_list_segments: "ok (mem_list_segments s p) = map_option (map snd) (mget (ms_segments s) p)"
  by (auto simp: mem_list_segments_def split: option.split)

lemma create_segment_iff:
  "mem_create_segment s p v = Inr s' \<longleftrightarrow>
     (\<exists>t. mget (ms_segments s) p = Some t \<and> mget t (seg_key v) = None \<and>
        s' = s\<lparr>ms_segments := mput p (mput (seg_key v) v t) (ms_segments s)\<rparr>)"
  by (auto simp: mem_create_segment_def split: option.split)

lemma update_segment_iff:
  "mem_update_segment s p v = Inr s' \<longleftrightarrow>
     (\<exists>t. mget (ms_segments s) p = Some t \<and> mget t (seg_key v) \<noteq> None \<and>
        s' = s\<lparr>ms_segments := mput p (mput (seg_key v) v t) (ms_segments s)\<rparr>)"
  by (auto simp: mem_update_segment_def split: option.split)

lemma delete_segment_iff:
  "mem_delete_segment s p k = Inr s' \<longleftrightarrow>
     (\<exists>t. mget (ms_segments s) p = Some t \<and> s' = s\<lparr>ms_segments := mput p (mdel k t) (ms_segments s)\<rparr>)"
  by (auto simp: mem_delete_segment_def split: option.split)

lemma listed_segments:
  assumes "mem_inv s" "mem_list_segments s p = Inr vs"
  shows "v \<in> set vs \<longleftrightarrow> ok (mem_get_segment s p (seg_key v)) = Some v" "distinct (map seg_key vs)"
proof -
  from assms(2) obtain t where t: "mget (ms_segments s) p = Some t" "vs = map snd t"
    by (auto simp: mem_list_segments_def split: option.splits)
  have mem: "(k, x) \<in> set t \<longleftrightarrow> mget t k = Some x" for k x using segments_wf [OF assms(1) t(1)] by (rule mget_in)
  have "v \<in> set vs \<longleftrightarrow> (\<exists>k. mget t k = Some v)" unfolding t(2) using mem by force
  also have "\<dots> \<longleftrightarrow> mget t (seg_key v) = Some v" using segments_key [OF assms(1) t(1)] by blast
  finally show "v \<in> set vs \<longleftrightarrow> ok (mem_get_segment s p (seg_key v)) = Some v"
    unfolding ok_get_segment by (simp add: t(1))
  have "map seg_key vs = mkeys t" unfolding t(2) using segments_key [OF assms(1) t(1)] mem by auto
  then show "distinct (map seg_key vs)" using segments_wf [OF assms(1) t(1)] by (simp add: wf_map_def)
qed

interpretation mem_segments: keyed_table seg_key mem_inv mem_get_segment mem_list_segments
  mem_create_segment mem_update_segment mem_delete_segment "\<lambda>g. g" "\<lambda>g. g"
proof (unfold_locales, goal_cases)
  case (1 s p v s') then show ?case by (rule inv_create_segment)
next
  case (2 s p v s') then show ?case by (rule inv_update_segment)
next
  case (3 s p k s') then show ?case by (rule inv_delete_segment)
next
  case (4 s p v s' q k) then show ?case by (auto simp: ok_get_segment create_segment_iff map_simps)
next
  case (5 s p v s' q k) then show ?case by (auto simp: ok_get_segment update_segment_iff map_simps)
next
  case (6 s p k s' q j) then show ?case by (auto simp: ok_get_segment delete_segment_iff map_simps)
next
  case (10 s p vs v) then show ?case by (rule listed_segments(1))
next
  case (11 s p vs) then show ?case by (rule listed_segments(2))
next
  case (12 s p k v) then show ?case by (auto simp: ok_get_segment bind_eq_Some_conv simp del: ok_Some dest: segments_key)
qed (auto simp: ok_get_segment ok_list_segments create_segment_iff update_segment_iff delete_segment_iff bind_eq_Some_conv simp del: ok_Some)

section \<open>Reachable states\<close>

datatype store_op =
    CreateProject project
  | UpdateProject project
  | DeleteProject string
  | CreateEnvironment string environment
  | UpdateEnvironment string environment
  | DeleteEnvironment string string
  | CreateFlag int string flag
  | UpdateFlag int string flag
  | DeleteFlag string string
  | UpsertFlagConfig string string string flag_config
  | CreateSegment string segment
  | UpdateSegment string segment
  | DeleteSegment string string
  | IncrementEnvVersion string string
  | AppendAudit audit_entry

fun mem_apply :: "mem_store \<Rightarrow> store_op \<Rightarrow> store_error + mem_store" where
  "mem_apply s (CreateProject p) = mem_create_project s p"
| "mem_apply s (UpdateProject p) = mem_update_project s p"
| "mem_apply s (DeleteProject k) = mem_delete_project s k"
| "mem_apply s (CreateEnvironment k e) = mem_create_environment s k e"
| "mem_apply s (UpdateEnvironment k e) = mem_update_environment s k e"
| "mem_apply s (DeleteEnvironment k e) = mem_delete_environment s k e"
| "mem_apply s (CreateFlag now k f) = mem_create_flag now s k f"
| "mem_apply s (UpdateFlag now k f) = mem_update_flag now s k f"
| "mem_apply s (DeleteFlag k f) = mem_delete_flag s k f"
| "mem_apply s (UpsertFlagConfig k e f c) = mem_upsert_flag_config s k e f c"
| "mem_apply s (CreateSegment k g) = mem_create_segment s k g"
| "mem_apply s (UpdateSegment k g) = mem_update_segment s k g"
| "mem_apply s (DeleteSegment k g) = mem_delete_segment s k g"
| "mem_apply s (IncrementEnvVersion k e) = map_sum id snd (mem_increment_env_version s k e)"
| "mem_apply s (AppendAudit e) = Inr (mem_append_audit s e)"

inductive mem_reachable :: "mem_store \<Rightarrow> bool" where
  mem_start: "mem_reachable new_memory_store"
| mem_step: "mem_reachable s \<Longrightarrow> mem_apply s op = Inr s' \<Longrightarrow> mem_reachable s'"

lemmas mem_inv_ops = inv_create_project inv_update_project inv_delete_project
  inv_create_environment inv_update_environment inv_delete_environment
  inv_create_flag inv_update_flag inv_delete_flag inv_upsert_flag_config
  inv_create_segment inv_update_segment inv_delete_segment inv_append_audit

lemma mem_apply_inv: "mem_inv s \<Longrightarrow> mem_apply s op = Inr s' \<Longrightarrow> mem_inv s'"
proof (cases op)
  case (IncrementEnvVersion k e)
  assume "mem_inv s" "mem_apply s op = Inr s'"
  then show ?thesis unfolding IncrementEnvVersion
    by (cases "mem_increment_env_version s k e") (auto intro: inv_increment_env_version)
qed (auto intro: mem_inv_ops)

lemma reachable_inv: "mem_reachable s \<Longrightarrow> mem_inv s"
  by (induction rule: mem_reachable.induct) (auto intro: mem_inv_empty mem_apply_inv)

definition sample_env :: environment where
  "sample_env = \<lparr>env_key = ''prod'', env_name = [], env_color = [], env_project_key = ''p'',
     env_sdk_keys = [], env_version = 0\<rparr>"

definition sample_project :: project where
  "sample_project = \<lparr>proj_key = ''p'', proj_name = [], proj_description = [],
     proj_environments = [sample_env]\<rparr>"

text \<open>The states after a list of operations that all succeed.\<close>

fun mem_run :: "mem_store \<Rightarrow> store_op list \<Rightarrow> mem_store option" where
  "mem_run s [] = Some s"
| "mem_run s (op # ops) = (case mem_apply s op of Inl e \<Rightarrow> None | Inr s' \<Rightarrow> mem_run s' ops)"

lemma mem_run_reachable: "mem_reachable s \<Longrightarrow> mem_run s ops = Some s' \<Longrightarrow> mem_reachable s'"
  by (induction ops arbitrary: s) (auto split: sum.splits intro: mem_step)

lemmas mem_ops = mem_create_project_def mem_update_project_def mem_delete_project_def
  mem_create_environment_def mem_update_environment_def mem_delete_environment_def
  mem_create_flag_def mem_update_flag_def mem_delete_flag_def mem_upsert_flag_config_def
  mem_create_segment_def mem_update_segment_def mem_delete_segment_def
  mem_increment_env_version_def mem_append_audit_def

text \<open>
  C11. The store's invariant: in every state that operations of the interface can reach, flags and
  segments are stored under their own keys and once, each project has exactly its own tables, and
  an environment with a version has a table of configurations.
\<close>

theorem mem_reachable_inv:
  assumes "mem_reachable s"
  shows "mem_inv s"
  using assms by (rule reachable_inv)

lemma mem_reachable_inv_witness:
  "\<exists>s. mem_run new_memory_store [CreateProject sample_project, CreateFlag 5 ''p'' (bool_flag ''f'' [])] = Some s \<and>
     mem_get_flag s ''p'' ''f'' \<noteq> Inl (FlagNotFound ''p'' ''f'') \<and> mem_inv s"
proof -
  obtain s where s: "mem_run new_memory_store
      [CreateProject sample_project, CreateFlag 5 ''p'' (bool_flag ''f'' [])] = Some s"
    "mem_get_flag s ''p'' ''f'' \<noteq> Inl (FlagNotFound ''p'' ''f'')"
    by (simp add: mem_ops Let_def new_memory_store_def sample_project_def sample_env_def bool_flag_def mem_get_flag_def)
  from mem_reachable_inv [OF mem_run_reachable [OF mem_start s(1)]] s show ?thesis by blast
qed

section \<open>Flags and segments\<close>

text \<open>
  A listing and the lookups agree in every reachable state: the map that a reader builds from
  \<open>ListFlags\<close>, keyed by each flag's own key, returns for every key what \<open>GetFlag\<close> returns, whatever
  order the listing came in.
\<close>

theorem list_flags_complete:
  assumes "mem_reachable s" "mem_list_flags s p = Inr fs"
  shows "map_of (map (\<lambda>f. (flag_key f, f)) fs) k = ok (mem_get_flag s p k)"
  using reachable_inv [OF assms(1)] assms(2) by (rule mem_flags.map_of_entries)

lemma list_flags_complete_witness:
  "\<exists>s fs. mem_run new_memory_store [CreateProject sample_project, CreateFlag 5 ''p'' (bool_flag ''f'' [])] = Some s \<and>
     mem_list_flags s ''p'' = Inr fs \<and> length fs = 1 \<and>
     map_of (map (\<lambda>f. (flag_key f, f)) fs) ''f'' = ok (mem_get_flag s ''p'' ''f'')"
proof -
  obtain s fs where s: "mem_run new_memory_store
      [CreateProject sample_project, CreateFlag 5 ''p'' (bool_flag ''f'' [])] = Some s"
    "mem_list_flags s ''p'' = Inr fs" "length fs = 1"
    by (simp add: mem_ops Let_def new_memory_store_def sample_project_def sample_env_def bool_flag_def mem_list_flags_def)
  from list_flags_complete [OF mem_run_reachable [OF mem_start s(1)] s(2)] s show ?thesis by blast
qed

section \<open>Versions\<close>

definition version_at :: "mem_store \<Rightarrow> string \<Rightarrow> string \<Rightarrow> int option" where
  "version_at s k e = ok (mem_get_env_version s k e)"

lemma version_at_bind: "version_at s k e = Option.bind (mget (ms_versions s) k) (\<lambda>vs. mget vs e)"
  by (auto simp: version_at_def mem_get_env_version_def split: option.split)

lemma version_inner: "version_at s k e = mget (inner (ms_versions s) k) e"
  by (auto simp: version_at_bind inner_def split: option.split)

lemma version_same: "ms_versions s' = ms_versions s \<Longrightarrow> version_at s' = version_at s"
  by (simp add: version_at_bind fun_eq_iff)

lemma version_put: "ms_versions s' = mput p vs (ms_versions s) \<Longrightarrow>
    version_at s' k e = (if k = p then mget vs e else version_at s k e)"
  by (simp add: version_at_bind map_simps)

text \<open>What one operation does to the version of one environment.\<close>

definition version_step :: "store_op \<Rightarrow> string \<Rightarrow> string \<Rightarrow> int \<Rightarrow> int \<Rightarrow> bool" where
  "version_step op k e v v' \<longleftrightarrow>
     v' = v \<or> op = IncrementEnvVersion k e \<and> v' = wrap64 (v + 1) \<or>
     (\<exists>en. op = CreateEnvironment k en \<and> env_key en = e \<and> v' = 0)"

lemma create_environment_version:
  "mem_create_environment s p en = Inr s' \<Longrightarrow>
   version_at s' k e = (if k = p \<and> e = env_key en then Some 0 else version_at s k e)"
  by (auto simp: mem_create_environment_def version_inner inner_def map_simps split: option.splits if_splits)

lemma delete_environment_version:
  "mem_delete_environment s p ek = Inr s' \<Longrightarrow>
   version_at s' k e = (if k = p \<and> e = ek then None else version_at s k e)"
  by (auto simp: mem_delete_environment_def del_inner_def version_at_bind map_simps split: option.splits if_splits)

lemma increment_version:
  "mem_increment_env_version s p ek = Inr (n, s') \<Longrightarrow>
   map_option (\<lambda>v. wrap64 (v + 1)) (version_at s p ek) = Some n \<and>
   version_at s' k e = (if k = p \<and> e = ek then Some n else version_at s k e)"
  by (auto simp: mem_increment_env_version_def version_at_bind map_simps split: option.splits if_splits)

lemma create_project_version:
  "mem_inv s \<Longrightarrow> mem_create_project s p = Inr s' \<Longrightarrow> version_at s k e = Some v \<Longrightarrow> version_at s' k e = Some v"
  using mem_invD(7) [of s k]
  by (auto simp: mem_create_project_def Let_def version_at_bind map_simps bind_eq_Some_conv split: if_splits)

lemma delete_project_version:
  "mem_delete_project s p = Inr s' \<Longrightarrow> version_at s' k e = (if k = p then None else version_at s k e)"
  by (auto simp: mem_delete_project_def version_at_bind map_simps)

lemma version_step_inv:
  assumes "mem_inv s" "mem_apply s op = Inr s'" "version_at s k e = Some v" "version_at s' k e = Some v'"
  shows "version_step op k e v v'"
proof -
  have same: "ms_versions s' = ms_versions s \<Longrightarrow> ?thesis"
    using version_same [of s' s] assms(3,4) by (simp add: version_step_def)
  show ?thesis
  proof (cases op)
    case (CreateProject p)
    then show ?thesis using create_project_version [OF assms(1) _ assms(3)] assms(2,4) by (simp add: version_step_def)
  next
    case (DeleteProject p)
    then show ?thesis using delete_project_version [of s p s' k e] assms by (simp add: version_step_def split: if_splits)
  next
    case (CreateEnvironment p en)
    then show ?thesis using create_environment_version [of s p en s' k e] assms
      by (auto simp: version_step_def split: if_splits)
  next
    case (DeleteEnvironment p ek)
    then show ?thesis using delete_environment_version [of s p ek s' k e] assms by (simp add: version_step_def split: if_splits)
  next
    case (IncrementEnvVersion p ek)
    then obtain n where "mem_increment_env_version s p ek = Inr (n, s')"
      using assms(2) by (cases "mem_increment_env_version s p ek") auto
    from increment_version [OF this, of k e] show ?thesis
      using IncrementEnvVersion assms(3,4) by (auto simp: version_step_def split: if_splits)
  qed (use assms(2) same in \<open>auto simp: mem_ops Let_def split: option.splits if_splits\<close>)
qed

text \<open>
  How versions move: in a reachable state, an operation that leaves an environment in place
  either leaves its version alone, or is its increment and adds one (in 64-bit arithmetic), or creates
  an environment of that key and resets it to zero. So between two creations versions never decrease.
\<close>

theorem version_moves:
  assumes "mem_reachable s" "mem_apply s op = Inr s'"
    and "version_at s k e = Some v" "version_at s' k e = Some v'"
  shows "version_step op k e v v'"
  using reachable_inv [OF assms(1)] assms(2-4) by (rule version_step_inv)

lemma version_moves_witness:
  "\<exists>s s'. mem_run new_memory_store [CreateProject sample_project] = Some s \<and>
     mem_apply s (IncrementEnvVersion ''p'' ''prod'') = Inr s' \<and> version_at s' ''p'' ''prod'' = Some 1 \<and>
     version_step (IncrementEnvVersion ''p'' ''prod'') ''p'' ''prod'' 0 1"
proof -
  obtain s s' where s: "mem_run new_memory_store [CreateProject sample_project] = Some s"
    "mem_apply s (IncrementEnvVersion ''p'' ''prod'') = Inr s'"
    "version_at s ''p'' ''prod'' = Some 0" "version_at s' ''p'' ''prod'' = Some 1"
    by (simp add: mem_ops Let_def new_memory_store_def sample_project_def sample_env_def version_at_bind
        wrap64_def)
  from version_moves [OF mem_run_reachable [OF mem_start s(1)] s(2-4)] s show ?thesis by blast
qed

text \<open>
  The reset can hit a live environment: replacing a project by one without environments, which
  \<open>UpdateProject\<close> allows, leaves the versions in place, so the environment can be created again and
  its version jumps from one back to zero while its flag configurations are dropped.
\<close>

definition reset_run :: "store_op list" where
  "reset_run = [CreateProject sample_project, IncrementEnvVersion ''p'' ''prod'',
     UpsertFlagConfig ''p'' ''prod'' ''f'' sample_config,
     UpdateProject (sample_project\<lparr>proj_environments := []\<rparr>), CreateEnvironment ''p'' sample_env]"

theorem version_reset:
  "map_option (\<lambda>s. (version_at s ''p'' ''prod'', ok (mem_get_flag_config s ''p'' ''prod'' ''f'')))
     (mem_run new_memory_store (take 4 reset_run)) = Some (Some 1, Some sample_config) \<and>
   map_option (\<lambda>s. (version_at s ''p'' ''prod'', ok (mem_get_flag_config s ''p'' ''prod'' ''f'')))
     (mem_run new_memory_store reset_run) = Some (Some 0, None)"
  by (simp add: reset_run_def mem_ops Let_def new_memory_store_def sample_project_def sample_env_def
      version_at_bind wrap64_def inner_def mem_get_flag_config_def find_env_def)

end
