(* ===== verification/Explain.thy ===== *)
theory Explain
  imports Prereqs
begin

text \<open>
  The explainer, \<open>internal/eval/explain.go\<close>: a second copy of the evaluation that records its steps.

  It differs from the evaluator in three ways: it evaluates every clause of a rule without stopping at
  the first that fails, it starts each prerequisite with a fresh depth and visited set, and it has no
  test for a rule without clauses. The lemmas show the shape of a trace and when its result is that of
  the evaluator. The field \<open>Bucket\<close> of a trace is never set.
\<close>

section \<open>The code\<close>

datatype trace_step_kind =
  TraceStepOff | TraceStepPrereq | TraceStepTarget | TraceStepRule | TraceStepFallthrough

record clause_result =
  cr_clause :: clause
  cr_matched :: bool

record trace_step =
  ts_kind :: trace_step_kind
  ts_matched :: bool
  ts_rule_index :: "int option"
  ts_rule_id :: string
  ts_prereq_key :: string
  ts_clause_results :: "clause_result list"

record trace =
  tr_steps :: "trace_step list"
  tr_variation :: "int option"
  tr_value :: any
  tr_reason :: reason
  tr_bucket :: "float64 option"

definition step_of :: "trace_step_kind \<Rightarrow> bool \<Rightarrow> trace_step" where
  "step_of k m = \<lparr>ts_kind = k, ts_matched = m, ts_rule_index = None, ts_rule_id = [],
     ts_prereq_key = [], ts_clause_results = []\<rparr>"

definition trace_of :: "trace_step list \<Rightarrow> eval_result \<Rightarrow> trace" where
  "trace_of steps res =
     (case res of (idx, v, rs) \<Rightarrow>
        \<lparr>tr_steps = steps, tr_variation = idx, tr_value = v, tr_reason = rs, tr_bucket = None\<rparr>)"

text \<open>The loop over the prerequisites: the steps, and the key it fails at.\<close>

definition prereq_step :: "string \<Rightarrow> bool \<Rightarrow> trace_step" where
  "prereq_step k m = (step_of TraceStepPrereq m)\<lparr>ts_prereq_key := k\<rparr>"

fun explain_prereqs ::
    "eval_store \<Rightarrow> (flag \<Rightarrow> flag_config \<Rightarrow> eval_result option) \<Rightarrow> prerequisite list \<Rightarrow>
     (trace_step list \<times> string option) option" where
  "explain_prereqs S ev [] = Some ([], None)"
| "explain_prereqs S ev (p # ps) =
     (let k = pq_flag_key p;
          pass = map_option (\<lambda>(steps, r). (prereq_step k False # steps, r)) (explain_prereqs S ev ps);
          fail = Some ([prereq_step k True], Some k)
      in case es_flag S k of
           None \<Rightarrow> fail
         | Some (pf, pcfg) \<Rightarrow>
             if \<not> cfg_on pcfg then fail
             else (case ev pf pcfg of
                     None \<Rightarrow> None
                   | Some (idx, _, _) \<Rightarrow> if idx \<noteq> Some (pq_variation p) then fail else pass))"

text \<open>Every clause of a rule, whether or not an earlier one failed.\<close>

fun clause_results :: "(clause \<Rightarrow> bool option) \<Rightarrow> clause list \<Rightarrow> clause_result list option" where
  "clause_results cm [] = Some []"
| "clause_results cm (c # cs) =
     (case cm c of None \<Rightarrow> None
      | Some m \<Rightarrow> map_option ((#) \<lparr>cr_clause = c, cr_matched = m\<rparr>) (clause_results cm cs))"

definition rule_step :: "nat \<Rightarrow> rule \<Rightarrow> clause_result list \<Rightarrow> trace_step" where
  "rule_step i r crs = \<lparr>ts_kind = TraceStepRule, ts_matched = list_all cr_matched crs,
     ts_rule_index = Some (int i), ts_rule_id = rule_id r, ts_prereq_key = [], ts_clause_results = crs\<rparr>"

fun explain_rules ::
    "(clause \<Rightarrow> bool option) \<Rightarrow> nat \<Rightarrow> rule list \<Rightarrow> (trace_step list \<times> (nat \<times> rule) option) option" where
  "explain_rules cm i [] = Some ([], None)"
| "explain_rules cm i (r # rs) =
     (case clause_results cm (rule_clauses r) of
        None \<Rightarrow> None
      | Some crs \<Rightarrow>
          if ts_matched (rule_step i r crs) then Some ([rule_step i r crs], Some (i, r))
          else map_option (\<lambda>(steps, h). (rule_step i r crs # steps, h)) (explain_rules cm (Suc i) rs))"

definition explain_serve ::
    "libs \<Rightarrow> eval_store \<Rightarrow> nat \<Rightarrow> eval_context \<Rightarrow> flag \<Rightarrow> flag_config \<Rightarrow> trace_step list \<Rightarrow> trace option" where
  "explain_serve L S n ctx f cfg steps =
     (case target_loop (ctx_key ctx) (cfg_targets cfg) of
        Some v \<Rightarrow>
          Some (trace_of (steps @ [step_of TraceStepTarget True])
                  (variation_result f v (reason_of ReasonTargetMatch)))
      | None \<Rightarrow>
          (case explain_rules (clause_matches L S n ctx) 0 (cfg_rules cfg) of
             None \<Rightarrow> None
           | Some (rsteps, Some (i, r)) \<Rightarrow>
               Some (trace_of (steps @ [step_of TraceStepTarget False] @ rsteps)
                       (resolve_variation_or_rollout f cfg (rule_serve r) ctx (rule_reason i r)))
           | Some (rsteps, None) \<Rightarrow>
               Some (trace_of (steps @ [step_of TraceStepTarget False] @ rsteps @ [step_of TraceStepFallthrough True])
                       (resolve_variation_or_rollout f cfg (cfg_fallthrough cfg) ctx
                          (reason_of ReasonFallthrough)))))"

definition explain ::
    "libs \<Rightarrow> eval_store \<Rightarrow> nat \<Rightarrow> eval_context \<Rightarrow> flag \<Rightarrow> flag_config \<Rightarrow> trace option" where
  "explain L S n ctx f cfg =
     (if \<not> cfg_on cfg
      then Some (trace_of [step_of TraceStepOff True] (off_result f cfg (reason_of ReasonOff)))
      else (case explain_prereqs S (evaluate L S n ctx) (cfg_prerequisites cfg) of
              None \<Rightarrow> None
            | Some (psteps, Some k) \<Rightarrow>
                Some (trace_of (step_of TraceStepOff False # psteps) (off_result f cfg (prereq_reason k)))
            | Some (psteps, None) \<Rightarrow>
                explain_serve L S n ctx f cfg (step_of TraceStepOff False # psteps)))"

section \<open>The shape of a trace\<close>

definition trace_result :: "trace \<Rightarrow> eval_result" where
  "trace_result t = (tr_variation t, tr_value t, tr_reason t)"

lemma trace_of_simps [simp]:
  "trace_result (trace_of steps res) = res" "tr_steps (trace_of steps res) = steps"
  by (simp_all add: trace_result_def trace_of_def split: prod.split)

lemma step_simps [simp]:
  "ts_matched (step_of k m) = m" "ts_kind (step_of k m) = k"
  "ts_matched (prereq_step key m) = m" "ts_kind (prereq_step key m) = TraceStepPrereq"
  "ts_kind (rule_step i r crs) = TraceStepRule" "ts_clause_results (rule_step i r crs) = crs"
  by (simp_all add: step_of_def prereq_step_def rule_step_def)

text \<open>All steps but the last are unmatched; the last is matched.\<close>

definition undecided :: "trace_step list \<Rightarrow> bool" where
  "undecided steps \<longleftrightarrow> list_all (\<lambda>s. \<not> ts_matched s) steps"

definition decided :: "trace_step list \<Rightarrow> bool" where
  "decided steps \<longleftrightarrow> steps \<noteq> [] \<and> ts_matched (last steps) \<and> undecided (butlast steps)"

lemma undecided_simps [simp]:
  "undecided []" "undecided (s # ss) \<longleftrightarrow> \<not> ts_matched s \<and> undecided ss"
  "undecided (xs @ ys) \<longleftrightarrow> undecided xs \<and> undecided ys"
  by (simp_all add: undecided_def)

lemma decided_simps [simp]:
  "\<not> decided []" "decided [s] \<longleftrightarrow> ts_matched s"
  "decided (s # s' # ss) \<longleftrightarrow> \<not> ts_matched s \<and> decided (s' # ss)"
  by (auto simp: decided_def)

lemma decided_append: "undecided xs \<Longrightarrow> decided (xs @ ys) \<longleftrightarrow> decided ys"
  by (induction xs) (auto simp: decided_def)

lemma decided_Cons: "\<not> ts_matched s \<Longrightarrow> decided (s # ss) \<longleftrightarrow> decided ss"
  using decided_append [of "[s]" ss] by simp

lemma explain_prereqs_steps:
  "explain_prereqs S ev ps = Some (steps, r) \<Longrightarrow> if r = None then undecided steps else decided steps"
  by (induction ps arbitrary: steps r)
    (auto simp: Let_def decided_Cons split: option.splits if_splits)

lemma explain_rules_steps:
  "explain_rules cm i rs = Some (steps, h) \<Longrightarrow> if h = None then undecided steps else decided steps"
  by (induction rs arbitrary: i steps h) (auto simp: decided_Cons split: option.splits if_splits)

lemma explain_serve_steps:
  "undecided steps \<Longrightarrow> explain_serve L S n ctx f cfg steps = Some t \<Longrightarrow> decided (tr_steps t)"
  by (auto simp: explain_serve_def decided_append decided_Cons dest!: explain_rules_steps split: option.splits)

text \<open>
  A trace tells which step decided: it is never empty, its last step is marked as matched and no
  other is.
\<close>

theorem explain_decided:
  assumes "explain L S n ctx f cfg = Some t"
  shows "decided (tr_steps t)"
  using assms
  by (auto simp: explain_def decided_Cons dest!: explain_prereqs_steps elim!: explain_serve_steps [rotated]
      split: if_splits option.splits)

lemma explain_decided_witness:
  "\<exists>t. explain no_libs base_store 0 (user_ctx ''u'') (bool_flag ''page'' []) on_config = Some t \<and>
     map ts_kind (tr_steps t) = [TraceStepOff, TraceStepTarget, TraceStepFallthrough] \<and> decided (tr_steps t)"
proof -
  let ?f = "bool_flag ''page'' []"
  have e: "explain no_libs base_store 0 (user_ctx ''u'') ?f on_config =
      Some (trace_of [step_of TraceStepOff False, step_of TraceStepTarget False, step_of TraceStepFallthrough True]
        (resolve_variation_or_rollout ?f on_config (cfg_fallthrough on_config) (user_ctx ''u'')
          (reason_of ReasonFallthrough)))"
    by (simp add: explain_def explain_serve_def on_config_def sample_config_def)
  from explain_decided [OF e] e show ?thesis by (intro exI conjI) (assumption, simp, assumption)
qed

section \<open>Agreement with the evaluator\<close>

lemma explain_prereqs_result: "map_option snd (explain_prereqs S ev ps) = prereq_loop S ev ps"
  by (induction ps) (auto simp: Let_def option.map_comp comp_def case_prod_beta split: option.split)

lemma clause_results_all:
  "clause_results cm cs = Some crs \<Longrightarrow> all_opt cm cs = Some (list_all cr_matched crs)"
  by (induction cs arbitrary: crs) (auto split: option.splits)

text \<open>Rules with at least one clause.\<close>

definition no_empty_rule :: "flag_config \<Rightarrow> bool" where
  "no_empty_rule cfg \<longleftrightarrow> (\<forall>r \<in> set (cfg_rules cfg). rule_clauses r \<noteq> [])"

lemma explain_rules_loop:
  "explain_rules (clause_matches L S n ctx) i rs = Some (steps, h) \<Longrightarrow>
   \<forall>r \<in> set rs. rule_clauses r \<noteq> [] \<Longrightarrow> rule_loop (rule_matches L S n ctx) i rs = Some h"
  by (induction rs arbitrary: i steps h)
    (auto simp: rule_matches_def rule_step_def dest!: clause_results_all split: option.splits if_splits)

lemma explain_prereqs_loop: "explain_prereqs S ev ps = Some (steps, r) \<Longrightarrow> prereq_loop S ev ps = Some r"
  using explain_prereqs_result [of S ev ps] by simp

lemma explain_serve_result:
  "explain_serve L S n ctx f cfg steps = Some t \<Longrightarrow> no_empty_rule cfg \<Longrightarrow>
   serve L S n ctx f cfg = Some (trace_result t)"
  by (auto simp: explain_serve_def serve_def no_empty_rule_def dest!: explain_rules_loop split: option.splits)

lemma explain_gate:
  "explain L S n ctx f cfg = Some t \<Longrightarrow> no_empty_rule cfg \<Longrightarrow>
   gate L S n ctx (evaluate L S n ctx) f cfg = Some (trace_result t)"
  by (auto simp: explain_def gate_def dest!: explain_prereqs_loop dest: explain_serve_result
      split: if_splits option.splits)

text \<open>For a stored flag whose prerequisites have no cycle this is the evaluator's own result.\<close>

context keyed_source
begin

lemma explain_evaluate:
  assumes "descending S fr" "es_flag S k = Some (f, cfg)" "fr k \<le> max_prerequisite_depth"
    and "explain L S n ctx f cfg = Some t" "no_empty_rule cfg"
  shows "evaluate L S n ctx f cfg = Some (trace_result t)"
  using recursive_equation [OF assms(1-3)] explain_gate [OF assms(4,5)] by simp

end

section \<open>A rule without clauses\<close>

text \<open>
  Where they disagree: on a rule without clauses, which validation accepts, the evaluator never
  matches and goes on to the fallthrough, but the explainer reports the rule as the one that matched
  and shows what it would serve.
\<close>

theorem explain_empty_rule:
  assumes "cfg_on cfg" "cfg_prerequisites cfg = []" "cfg_targets cfg = []"
    and "cfg_rules cfg = [r]" "rule_clauses r = []"
  shows "evaluate L S n ctx f cfg =
      Some (resolve_variation_or_rollout f cfg (cfg_fallthrough cfg) ctx (reason_of ReasonFallthrough)) \<and>
    map_option trace_result (explain L S n ctx f cfg) =
      Some (resolve_variation_or_rollout f cfg (rule_serve r) ctx (rule_reason 0 r))"
  using assms
  by (simp_all add: evaluate_unfold serve_def rule_matches_def explain_def explain_serve_def rule_step_def)

definition empty_rule_config :: flag_config where
  "empty_rule_config = on_config\<lparr>cfg_rules :=
     [\<lparr>rule_id = ''r1'', rule_description = [], rule_clauses = [], rule_serve = serve_fixed 0\<rparr>]\<rparr>"

lemma explain_empty_rule_witness:
  "flag_validate (bool_flag ''f'' [(''prod'', Some empty_rule_config)]) = Accept \<and>
   map_option fst (evaluate no_libs base_store 0 (user_ctx ''u'') (bool_flag ''f'' []) empty_rule_config) = Some (Some 1) \<and>
   map_option tr_variation (explain no_libs base_store 0 (user_ctx ''u'') (bool_flag ''f'' []) empty_rule_config) =
     Some (Some 0)"
proof -
  note c = empty_rule_config_def small_store
  let ?r = "\<lparr>rule_id = ''r1'', rule_description = [], rule_clauses = [], rule_serve = serve_fixed 0\<rparr>"
  have h: "cfg_on empty_rule_config" "cfg_prerequisites empty_rule_config = []"
    "cfg_targets empty_rule_config = []" "cfg_rules empty_rule_config = [?r]" "rule_clauses ?r = []"
    by (simp_all add: c)
  have "flag_validate (bool_flag ''f'' [(''prod'', Some empty_rule_config)]) = Accept"
    by (simp add: flag_validate_def validate_flag_config_def validate_rule_def c in_range_def)
  moreover have tv: "map_option tr_variation x = map_option fst (map_option trace_result x)" for x
    by (cases x) (simp_all add: trace_result_def)
  note both = explain_empty_rule [OF h, of no_libs base_store 0 "user_ctx ''u''" "bool_flag ''f'' []"]
  have "map_option fst (evaluate no_libs base_store 0 (user_ctx ''u'') (bool_flag ''f'' []) empty_rule_config) = Some (Some 1)"
    unfolding conjunct1 [OF both] by (simp add: resolve_variation_or_rollout_def variation_result_def c)
  moreover have "map_option tr_variation
      (explain no_libs base_store 0 (user_ctx ''u'') (bool_flag ''f'' []) empty_rule_config) = Some (Some 0)"
    unfolding tv conjunct2 [OF both] by (simp add: resolve_variation_or_rollout_def variation_result_def c)
  ultimately show ?thesis by blast
qed

end
