(* ===== verification/Snapshot.thy ===== *)
theory Snapshot
  imports Canonical MemStore Explain
begin

text \<open>
  Snapshots of an environment, \<open>internal/snapshot\<close>: \<open>Builder.Build\<close>, \<open>Checksum\<close>, \<open>ComputeDelta\<close> and
  \<open>ApplyDelta\<close>.

  The builder reads any store through the interface \<open>config_view\<close>; \<open>mem_view\<close> is the memory store's.
  The lemmas show what a built snapshot holds, that its checksum does not depend on the order of its
  maps, and that applying a delta to the snapshot it was computed from gives the target snapshot.
\<close>

section \<open>The code\<close>

record resolved_flag =
  rf_key :: string
  rf_name :: string
  rf_description :: string
  rf_type :: variation_type
  rf_variations :: "variation list"
  rf_tags :: "string list"
  rf_temporary :: bool
  rf_archived :: bool
  rf_config :: flag_config

record snapshot =
  sn_environment_key :: string
  sn_project_key :: string
  sn_version :: int
  sn_flags :: "resolved_flag gomap"
  sn_segments :: "segment gomap"
  sn_checksum :: string
  sn_published_at :: int

record delta =
  dl_environment_key :: string
  dl_project_key :: string
  dl_from_version :: int
  dl_to_version :: int
  dl_upserted_flags :: "resolved_flag list"
  dl_deleted_flags :: "string list"
  dl_upserted_segments :: "segment list"
  dl_deleted_segments :: "string list"
  dl_checksum :: string

text \<open>The four methods of \<open>store.ConfigStore\<close> that the builder calls, on the store's present state.\<close>

record config_view =
  cv_version :: "string \<Rightarrow> string \<Rightarrow> store_error + int"
  cv_flags :: "string \<Rightarrow> store_error + flag list"
  cv_segments :: "string \<Rightarrow> store_error + segment list"
  cv_config :: "string \<Rightarrow> string \<Rightarrow> string \<Rightarrow> store_error + flag_config"

definition mem_view :: "mem_store \<Rightarrow> config_view" where
  "mem_view s = \<lparr>cv_version = mem_get_env_version s, cv_flags = mem_list_flags s,
     cv_segments = mem_list_segments s, cv_config = mem_get_flag_config s\<rparr>"

subsection \<open>The checksum\<close>

definition resolved_json :: "resolved_flag \<Rightarrow> json" where
  "resolved_json f = JObj [(''key'', JStr (rf_key f)), (''name'', JStr (rf_name f)),
     (''description'', JStr (rf_description f)), (''type'', JStr (type_string (rf_type f))),
     (''variations'', JArr (map variation_json (rf_variations f))), (''tags'', jstrs (rf_tags f)),
     (''temporary'', JBool (rf_temporary f)), (''archived'', JBool (rf_archived f)),
     (''config'', config_json (rf_config f))]"

definition json_map :: "('v \<Rightarrow> json) \<Rightarrow> 'v gomap \<Rightarrow> json" where
  "json_map enc m = JObj (map (\<lambda>(k, v). (k, enc v)) m)"

text \<open>The payload leaves out the checksum itself and the time of publication.\<close>

definition payload_json :: "snapshot \<Rightarrow> json" where
  "payload_json sn = JObj [(''environment_key'', JStr (sn_environment_key sn)),
     (''project_key'', JStr (sn_project_key sn)), (''version'', jint (sn_version sn)),
     (''flags'', json_map resolved_json (sn_flags sn)),
     (''segments'', json_map segment_json (sn_segments sn))]"

definition checksum :: "(rat \<Rightarrow> string) \<Rightarrow> snapshot \<Rightarrow> string option" where
  "checksum num sn =
     map_option (\<lambda>b. ''sha256:'' @ hex_encode (sha256_sum b)) (canonical_json num (payload_json sn))"

subsection \<open>The builder\<close>

text \<open>\<open>&model.FlagConfig{On: false, OffVariation: &offVar}\<close>: every other field is its zero value.\<close>

definition default_off_config :: flag_config where
  "default_off_config = \<lparr>cfg_on = False, cfg_prerequisites = [], cfg_targets = [], cfg_rules = [],
     cfg_fallthrough = \<lparr>vr_variation = None, vr_rollout = None\<rparr>, cfg_off_variation = Some 0,
     cfg_salt = [], cfg_track_events = False, cfg_version = 0\<rparr>"

definition resolve_flag :: "flag \<Rightarrow> flag_config \<Rightarrow> resolved_flag" where
  "resolve_flag f c = \<lparr>rf_key = flag_key f, rf_name = flag_name f, rf_description = flag_description f,
     rf_type = flag_type f, rf_variations = flag_variations f, rf_tags = flag_tags f,
     rf_temporary = flag_temporary f, rf_archived = flag_archived f, rf_config = c\<rparr>"

fun resolve_flags :: "config_view \<Rightarrow> string \<Rightarrow> string \<Rightarrow> flag list \<Rightarrow> resolved_flag gomap \<Rightarrow> resolved_flag gomap" where
  "resolve_flags cv pk ek [] m = m"
| "resolve_flags cv pk ek (f # fs) m =
     resolve_flags cv pk ek fs
       (if flag_archived f then m
        else mput (flag_key f)
               (resolve_flag f (case cv_config cv pk ek (flag_key f) of
                  Inl _ \<Rightarrow> default_off_config | Inr c \<Rightarrow> c)) m)"

fun segment_map :: "segment list \<Rightarrow> segment gomap \<Rightarrow> segment gomap" where
  "segment_map [] m = m"
| "segment_map (s # ss) m = segment_map ss (mput (seg_key s) s m)"

datatype build_error = BuildStore store_error | BuildChecksum

definition build ::
    "(rat \<Rightarrow> string) \<Rightarrow> int \<Rightarrow> config_view \<Rightarrow> string \<Rightarrow> string \<Rightarrow> build_error + snapshot" where
  "build num now cv pk ek =
     (case cv_version cv pk ek of Inl e \<Rightarrow> Inl (BuildStore e)
      | Inr v \<Rightarrow>
          (case cv_flags cv pk of Inl e \<Rightarrow> Inl (BuildStore e)
           | Inr fs \<Rightarrow>
               (case cv_segments cv pk of Inl e \<Rightarrow> Inl (BuildStore e)
                | Inr ss \<Rightarrow>
                    (let sn = \<lparr>sn_environment_key = ek, sn_project_key = pk, sn_version = v,
                               sn_flags = resolve_flags cv pk ek fs [], sn_segments = segment_map ss [],
                               sn_checksum = [], sn_published_at = now\<rparr>
                     in case checksum num sn of None \<Rightarrow> Inl BuildChecksum
                        | Some c \<Rightarrow> Inr (sn\<lparr>sn_checksum := c\<rparr>)))))"

subsection \<open>Deltas\<close>

text \<open>The entries of \<open>to\<close> that are new or whose encoding changed, and the keys that are gone.\<close>

definition upserted :: "('v \<Rightarrow> json) \<Rightarrow> 'v gomap \<Rightarrow> 'v gomap \<Rightarrow> 'v list" where
  "upserted enc old new =
     concat (map (\<lambda>(k, v). case mget old k of None \<Rightarrow> [v]
                    | Some u \<Rightarrow> if enc u \<noteq> enc v then [v] else []) new)"

definition deleted :: "'v gomap \<Rightarrow> 'v gomap \<Rightarrow> string list" where
  "deleted old new = filter (\<lambda>k. mget new k = None) (mkeys old)"

definition full_delta :: "snapshot \<Rightarrow> snapshot \<Rightarrow> delta" where
  "full_delta old new = \<lparr>dl_environment_key = sn_environment_key new, dl_project_key = sn_project_key new,
     dl_from_version = sn_version old, dl_to_version = sn_version new,
     dl_upserted_flags = upserted resolved_json (sn_flags old) (sn_flags new),
     dl_deleted_flags = deleted (sn_flags old) (sn_flags new),
     dl_upserted_segments = upserted segment_json (sn_segments old) (sn_segments new),
     dl_deleted_segments = deleted (sn_segments old) (sn_segments new),
     dl_checksum = sn_checksum new\<rparr>"

text \<open>
  The lengths of the two encodings are arguments; \<open>None\<close> tells the caller to send the whole snapshot
  because the delta is longer than 30 percent of it.
\<close>

definition compute_delta :: "(delta \<Rightarrow> int) \<Rightarrow> (snapshot \<Rightarrow> int) \<Rightarrow> snapshot \<Rightarrow> snapshot \<Rightarrow> delta option" where
  "compute_delta dsize ssize old new =
     (let d = full_delta old new
      in if 0 < ssize new \<and> round64 (3 / 10) < float_of_int (dsize d) / float_of_int (ssize new)
         then None else Some d)"

definition apply_entries :: "('v \<Rightarrow> string) \<Rightarrow> 'v gomap \<Rightarrow> 'v list \<Rightarrow> string list \<Rightarrow> 'v gomap" where
  "apply_entries key base ups dels =
     fold mdel dels (fold (\<lambda>v. mput (key v) v) ups base)"

definition apply_delta :: "snapshot \<Rightarrow> delta \<Rightarrow> snapshot" where
  "apply_delta base d = \<lparr>sn_environment_key = sn_environment_key base, sn_project_key = sn_project_key base,
     sn_version = dl_to_version d,
     sn_flags = apply_entries rf_key (sn_flags base) (dl_upserted_flags d) (dl_deleted_flags d),
     sn_segments = apply_entries seg_key (sn_segments base) (dl_upserted_segments d) (dl_deleted_segments d),
     sn_checksum = dl_checksum d, sn_published_at = sn_published_at base\<rparr>"

section \<open>Maps stored under their own keys\<close>

definition keyed_map :: "('v \<Rightarrow> string) \<Rightarrow> 'v gomap \<Rightarrow> bool" where
  "keyed_map key m \<longleftrightarrow> wf_map m \<and> (\<forall>k v. mget m k = Some v \<longrightarrow> key v = k)"

lemma keyed_map_Nil [simp]: "keyed_map key []"
  by (simp add: keyed_map_def)

lemma keyed_map_put: "keyed_map key m \<Longrightarrow> keyed_map key (mput (key v) v m)"
  by (auto simp: keyed_map_def map_simps split: if_splits)

lemma keyed_map_del: "keyed_map key m \<Longrightarrow> keyed_map key (mdel k m)"
  by (auto simp: keyed_map_def map_simps split: if_splits)

lemma keyed_apply: "keyed_map key base \<Longrightarrow> keyed_map key (apply_entries key base ups dels)"
proof -
  have ups: "keyed_map key m \<Longrightarrow> keyed_map key (fold (\<lambda>v. mput (key v) v) vs m)" for m vs
    by (induction vs arbitrary: m) (auto intro: keyed_map_put)
  have dels: "keyed_map key m \<Longrightarrow> keyed_map key (fold mdel ks m)" for m ks
    by (induction ks arbitrary: m) (auto intro: keyed_map_del)
  assume "keyed_map key base"
  then show ?thesis unfolding apply_entries_def by (intro ups dels)
qed

section \<open>Deltas\<close>

lemma mget_fold_del: "mget (fold mdel ks m) k = (if k \<in> set ks then None else mget m k)"
  by (induction ks arbitrary: m) (auto simp: map_simps)

lemma mget_fold_put_none: "k \<notin> key ` set vs \<Longrightarrow> mget (fold (\<lambda>v. mput (key v) v) vs m) k = mget m k"
  by (induction vs arbitrary: m) (auto simp: map_simps)

lemma mget_fold_put_some:
  "v \<in> set vs \<Longrightarrow> (\<forall>w \<in> set vs. key w = key v \<longrightarrow> w = v) \<Longrightarrow>
   mget (fold (\<lambda>v. mput (key v) v) vs m) (key v) = Some v"
proof (induction vs arbitrary: m)
  case (Cons a vs)
  show ?case
  proof (cases "v \<in> set vs")
    case True
    then show ?thesis using Cons by simp
  next
    case False
    then have "a = v" "key v \<notin> key ` set vs" using Cons.prems by auto
    then show ?thesis by (simp add: mget_fold_put_none map_simps)
  qed
qed simp

lemma in_upserted:
  "v \<in> set (upserted enc old new) \<longleftrightarrow>
     (\<exists>k. (k, v) \<in> set new \<and> (\<forall>u. mget old k = Some u \<longrightarrow> enc u \<noteq> enc v))"
  by (force simp: upserted_def split: option.splits if_splits)

lemma in_deleted: "k \<in> set (deleted old new) \<longleftrightarrow> mget old k \<noteq> None \<and> mget new k = None"
  by (auto simp: deleted_def map_of_eq_None_iff)

text \<open>One table: every key holds the encoding it has in the target.\<close>

lemma apply_upserted:
  assumes "keyed_map key new" "keyed_map key old"
  shows "map_option enc (mget (apply_entries key old (upserted enc old new) (deleted old new)) k) =
    map_option enc (mget new k)"
proof -
  note wf = assms(1) [unfolded keyed_map_def, THEN conjunct1]
  have key: "mget new j = Some v \<Longrightarrow> key v = j" for j v using assms(1) by (auto simp: keyed_map_def)
  have ups: "v \<in> set (upserted enc old new) \<longleftrightarrow>
      mget new (key v) = Some v \<and> (\<forall>u. mget old (key v) = Some u \<longrightarrow> enc u \<noteq> enc v)" for v
    unfolding in_upserted mget_in [OF wf] using key by metis
  have one: "w \<in> set (upserted enc old new) \<Longrightarrow> v \<in> set (upserted enc old new) \<Longrightarrow> key w = key v \<Longrightarrow> w = v" for v w
    by (metis ups option.inject)
  let ?put = "mget (fold (\<lambda>v. mput (key v) v) (upserted enc old new) old) k"
  show ?thesis
  proof (cases "mget new k")
    case None
    then have "k \<notin> key ` set (upserted enc old new)" using ups by auto
    then have "?put = mget old k" by (rule mget_fold_put_none)
    then show ?thesis using None by (simp add: apply_entries_def mget_fold_del in_deleted)
  next
    case (Some v)
    have nd: "k \<notin> set (deleted old new)" using Some by (simp add: in_deleted)
    show ?thesis
    proof (cases "v \<in> set (upserted enc old new)")
      case True
      then have "?put = Some v" using mget_fold_put_some [OF True, of key old] one key [OF Some] by blast
      then show ?thesis using nd Some by (simp add: apply_entries_def mget_fold_del)
    next
      case False
      then have "\<exists>u. mget old k = Some u \<and> enc u = enc v" using ups [of v] Some key [OF Some] by auto
      moreover have "k \<notin> key ` set (upserted enc old new)" using False ups Some key by (metis imageE option.inject)
      then have "?put = mget old k" by (rule mget_fold_put_none)
      ultimately show ?thesis using nd Some by (auto simp: apply_entries_def mget_fold_del)
    qed
  qed
qed

text \<open>Snapshots whose values a decoder can produce.\<close>

definition plain_resolved :: "resolved_flag \<Rightarrow> bool" where
  "plain_resolved f \<longleftrightarrow> plain_type (rf_type f) \<and> plain_config (rf_config f) \<and>
     None \<notin> set (map var_value (rf_variations f))"

definition plain_snapshot :: "snapshot \<Rightarrow> bool" where
  "plain_snapshot sn \<longleftrightarrow> keyed_map rf_key (sn_flags sn) \<and> keyed_map seg_key (sn_segments sn) \<and>
     (\<forall>k f. mget (sn_flags sn) k = Some f \<longrightarrow> plain_resolved f) \<and>
     (\<forall>k g. mget (sn_segments sn) k = Some g \<longrightarrow> plain_segment g)"

lemma variations_inj:
  "None \<notin> set (map var_value vs) \<Longrightarrow> None \<notin> set (map var_value ws) \<Longrightarrow>
   map variation_json vs = map variation_json ws \<Longrightarrow> vs = ws"
proof (erule map_enc_inj)
  fix v w :: variation
  assume n: "None \<notin> set (map var_value vs)" "None \<notin> set (map var_value ws)" "v \<in> set vs" "w \<in> set ws"
    and eq: "variation_json v = variation_json w"
  then have "var_value v \<noteq> None" "var_value w \<noteq> None" by force+
  then show "v = w" using eq by (cases v; cases w) (auto simp: variation_json_def jraw_def)
qed

lemma resolved_json_inj: "plain_resolved a \<Longrightarrow> plain_resolved b \<Longrightarrow> resolved_json a = resolved_json b \<Longrightarrow> a = b"
proof -
  assume p: "plain_resolved a" "plain_resolved b" and eq: "resolved_json a = resolved_json b"
  have "rf_variations a = rf_variations b"
    using p eq by (intro variations_inj) (auto simp: plain_resolved_def resolved_json_def)
  moreover have "rf_config a = rf_config b" "rf_type a = rf_type b"
    using p eq by (auto simp: plain_resolved_def resolved_json_def intro: config_json_inj type_string_inj)
  ultimately show "a = b" using eq by (cases a; cases b) (auto simp: resolved_json_def)
qed

lemma table_inj:
  assumes "\<And>k x. mget m k = Some x \<Longrightarrow> P x" "\<And>k x. mget m' k = Some x \<Longrightarrow> P x"
    and "\<And>x y. P x \<Longrightarrow> P y \<Longrightarrow> enc x = enc y \<Longrightarrow> x = y"
    and "map_option enc (mget m k) = map_option enc (mget m' k)"
  shows "mget m k = mget m' k"
  using assms by (cases "mget m k"; cases "mget m' k") auto

lemma fold_del_sub: "mget (fold mdel ks m) k = Some v \<Longrightarrow> mget m k = Some v"
  by (simp add: mget_fold_del split: if_splits)

lemma fold_put_sub: "mget (fold (\<lambda>v. mput (key v) v) vs m) k = Some v \<Longrightarrow> v \<in> set vs \<or> mget m k = Some v"
proof (induction vs arbitrary: m)
  case (Cons a vs)
  from Cons.IH [of "mput (key a) a m"] Cons.prems show ?case by (auto simp: map_simps split: if_splits)
qed simp

lemma apply_upserted_sub:
  "mget (apply_entries key old (upserted enc old new) (deleted old new)) k = Some v \<Longrightarrow>
   wf_map new \<Longrightarrow> (\<exists>j. mget new j = Some v) \<or> mget old k = Some v"
  by (auto simp: apply_entries_def in_upserted mget_in dest!: fold_del_sub fold_put_sub)

text \<open>The maps of the snapshot that a delta leads to.\<close>

lemma apply_full_delta:
  assumes "plain_snapshot old" "plain_snapshot new"
  shows "mget (sn_flags (apply_delta old (full_delta old new))) = mget (sn_flags new)"
    and "mget (sn_segments (apply_delta old (full_delta old new))) = mget (sn_segments new)"
proof -
  have keyed: "keyed_map rf_key (sn_flags new)" "keyed_map rf_key (sn_flags old)"
    "keyed_map seg_key (sn_segments new)" "keyed_map seg_key (sn_segments old)"
    and wf: "wf_map (sn_flags new)" "wf_map (sn_segments new)"
    using assms by (simp_all add: plain_snapshot_def keyed_map_def)
  show "mget (sn_flags (apply_delta old (full_delta old new))) = mget (sn_flags new)"
  proof
    fix k show "mget (sn_flags (apply_delta old (full_delta old new))) k = mget (sn_flags new) k"
      by (rule table_inj [where P = plain_resolved and enc = resolved_json])
        (use assms apply_upserted [OF keyed(1,2)] in
          \<open>auto simp: apply_delta_def full_delta_def plain_snapshot_def intro: resolved_json_inj
             dest!: apply_upserted_sub [OF _ wf(1)]\<close>)
  qed
  show "mget (sn_segments (apply_delta old (full_delta old new))) = mget (sn_segments new)"
  proof
    fix k show "mget (sn_segments (apply_delta old (full_delta old new))) k = mget (sn_segments new) k"
      by (rule table_inj [where P = plain_segment and enc = segment_json])
        (use assms apply_upserted [OF keyed(3,4)] in
          \<open>auto simp: apply_delta_def full_delta_def plain_snapshot_def intro: segment_json_inj
             dest!: apply_upserted_sub [OF _ wf(2)]\<close>)
  qed
qed

text \<open>
  C7. Deltas are faithful: applying the delta computed between two snapshots of an environment to the
  first gives the second, flag by flag and segment by segment, with its version and checksum; only
  the time of publication stays that of the first.
\<close>

theorem delta_round_trip:
  assumes "plain_snapshot old" "plain_snapshot new"
    and "sn_environment_key old = sn_environment_key new" "sn_project_key old = sn_project_key new"
    and "compute_delta dsize ssize old new = Some d"
  shows "mget (sn_flags (apply_delta old d)) = mget (sn_flags new) \<and>
    mget (sn_segments (apply_delta old d)) = mget (sn_segments new) \<and>
    apply_delta old d = new\<lparr>sn_flags := sn_flags (apply_delta old d),
      sn_segments := sn_segments (apply_delta old d), sn_published_at := sn_published_at old\<rparr>"
proof -
  have d: "d = full_delta old new" using assms(5) by (simp add: compute_delta_def Let_def split: if_splits)
  show ?thesis using apply_full_delta [OF assms(1,2)] assms(3,4)
    by (simp add: d) (simp add: apply_delta_def full_delta_def)
qed

definition sample_resolved :: "string \<Rightarrow> flag_config \<Rightarrow> resolved_flag" where
  "sample_resolved k c = resolve_flag (bool_flag k []) c"

definition sample_snapshot :: "int \<Rightarrow> resolved_flag list \<Rightarrow> snapshot" where
  "sample_snapshot v fs = \<lparr>sn_environment_key = ''prod'', sn_project_key = ''p'', sn_version = v,
     sn_flags = map (\<lambda>f. (rf_key f, f)) fs, sn_segments = [], sn_checksum = ''sha256:'' @ itoa v,
     sn_published_at = v\<rparr>"

lemma delta_round_trip_witness:
  "\<exists>d. compute_delta (\<lambda>_. 1) (\<lambda>_. 0) (sample_snapshot 1 [sample_resolved ''a'' sample_config])
       (sample_snapshot 2 [sample_resolved ''b'' sample_config]) = Some d \<and>
     dl_deleted_flags d = [''a''] \<and>
     mget (sn_flags (apply_delta (sample_snapshot 1 [sample_resolved ''a'' sample_config]) d)) =
       [''b'' \<mapsto> sample_resolved ''b'' sample_config]"
proof -
  let ?o = "sample_snapshot 1 [sample_resolved ''a'' sample_config]"
  let ?n = "sample_snapshot 2 [sample_resolved ''b'' sample_config]"
  note ev = sample_snapshot_def sample_resolved_def resolve_flag_def bool_flag_def sample_config_def serve_split_def
  have d: "compute_delta (\<lambda>_. 1) (\<lambda>_. 0) ?o ?n = Some (full_delta ?o ?n)" by (simp add: compute_delta_def ev)
  have p: "plain_snapshot ?o" "plain_snapshot ?n"
    by (auto simp: plain_snapshot_def keyed_map_def wf_map_def plain_resolved_def plain_type_def
        plain_config_def ev split: if_splits)
  have e: "sn_environment_key ?o = sn_environment_key ?n" "sn_project_key ?o = sn_project_key ?n"
    by (simp_all add: sample_snapshot_def)
  have k: "rf_key (sample_resolved ''b'' sample_config) = ''b''" by (simp add: ev)
  have "dl_deleted_flags (full_delta ?o ?n) = [''a'']" by (simp add: full_delta_def deleted_def ev)
  moreover have "mget (sn_flags ?n) = [''b'' \<mapsto> sample_resolved ''b'' sample_config]"
    using k by (simp add: sample_snapshot_def fun_eq_iff)
  ultimately show ?thesis using delta_round_trip [OF p e d] d by metis
qed

section \<open>The checksum does not depend on the order of the maps\<close>

text \<open>What the canonical text of a document is made of.\<close>

definition canon :: "(rat \<Rightarrow> string) \<Rightarrow> json \<Rightarrow> string" where
  "canon num j = marshal_sorted num (decode_any (fix_json j))"

definition decodable :: "json \<Rightarrow> bool" where
  "decodable j \<longleftrightarrow> decodes_ok (fix_json j)"

lemma canonical_json_canon: "canonical_json num j = (if decodable j then Some (canon num j) else None)"
  by (simp add: canonical_json_def canon_def decodable_def Let_def)

lemma canon_object: "canon num (JObj ms) = object_text (last_wins (map (\<lambda>(k, j). (utf8_fix k, canon num j)) ms))"
  by (simp add: canon_def comp_def split_def)

lemma decodable_object: "decodable (JObj ms) \<longleftrightarrow> (\<forall>(k, j) \<in> set ms. decodable j)"
  by (auto simp: decodable_def)

text \<open>Keys that are valid UTF-8 are written as they are.\<close>

definition clean_keys :: "'v gomap \<Rightarrow> bool" where
  "clean_keys m \<longleftrightarrow> (\<forall>k \<in> set (mkeys m). utf8_fix k = k)"

lemma clean_map: "clean_keys m \<Longrightarrow> map (\<lambda>(k, v). (utf8_fix k, f v)) m = map (\<lambda>(k, v). (k, f v)) m"
  by (auto simp: clean_keys_def)

lemma canon_json_map: "clean_keys m \<Longrightarrow> canon num (json_map enc m) = object_text (last_wins (map (\<lambda>(k, v). (k, canon num (enc v))) m))"
  by (drule clean_map [where f = "\<lambda>v. canon num (enc v)"])
    (simp add: json_map_def canon_object comp_def split_def del: map_eq_conv)

lemma json_map_order:
  assumes "wf_map m" "wf_map m'" "clean_keys m" "clean_keys m'" "mget m = mget m'"
  shows "canon num (json_map enc m) = canon num (json_map enc m')"
    and "decodable (json_map enc m) = decodable (json_map enc m')"
proof -
  show "canon num (json_map enc m) = canon num (json_map enc m')"
    unfolding canon_json_map [OF assms(3)] canon_json_map [OF assms(4)]
    using assms(1,2,5) by (intro object_text_cong) (simp_all add: mget_last_wins_wf wf_map_value mget_map_value)
  have "set m = set m'" using mget_in [OF assms(1)] mget_in [OF assms(2)] assms(5) by auto
  then show "decodable (json_map enc m) = decodable (json_map enc m')"
    by (auto simp: json_map_def decodable_object)
qed

definition regular :: "snapshot \<Rightarrow> bool" where
  "regular sn \<longleftrightarrow> wf_map (sn_flags sn) \<and> wf_map (sn_segments sn) \<and>
     clean_keys (sn_flags sn) \<and> clean_keys (sn_segments sn)"

lemma checksum_same:
  assumes "regular sn" "regular sn'"
    and "sn_environment_key sn = sn_environment_key sn'" "sn_project_key sn = sn_project_key sn'"
    and "sn_version sn = sn_version sn'"
    and "mget (sn_flags sn) = mget (sn_flags sn')" "mget (sn_segments sn) = mget (sn_segments sn')"
  shows "checksum num sn = checksum num sn'"
proof -
  note r = assms(1,2) [unfolded regular_def]
  note f = json_map_order [of "sn_flags sn" "sn_flags sn'"]
  note g = json_map_order [of "sn_segments sn" "sn_segments sn'"]
  have "canonical_json num (payload_json sn) = canonical_json num (payload_json sn')"
    using f g r assms(3-7)
    by (simp add: canonical_json_canon payload_json_def canon_object decodable_object)
  then show ?thesis by (simp add: checksum_def)
qed

text \<open>
  The checksum is a function of what a snapshot holds: two snapshots with the same keys, version,
  flags and segments have the same checksum, in whatever order their maps are visited, whenever they
  were published and whatever checksum they carry.
\<close>

theorem checksum_order:
  assumes "regular sn" "regular sn'"
    and "sn_environment_key sn = sn_environment_key sn'" "sn_project_key sn = sn_project_key sn'"
    and "sn_version sn = sn_version sn'"
    and "mget (sn_flags sn) = mget (sn_flags sn')" "mget (sn_segments sn) = mget (sn_segments sn')"
  shows "checksum num sn = checksum num sn'"
  using assms by (rule checksum_same)

lemma checksum_order_witness:
  "checksum (\<lambda>_. []) ((sample_snapshot 1 [sample_resolved ''a'' sample_config, sample_resolved ''b'' on_config])\<lparr>sn_checksum := ''x''\<rparr>) =
   checksum (\<lambda>_. []) (sample_snapshot 1 [sample_resolved ''b'' on_config, sample_resolved ''a'' sample_config])"
proof (rule checksum_order)
  have k: "rf_key (sample_resolved k c) = k" for k c
    by (simp add: sample_resolved_def resolve_flag_def bool_flag_def)
  have u: "utf8_fix ''a'' = ''a''" "utf8_fix ''b'' = ''b''"
    by (simp_all add: utf8_fix_def utf8_len_def byte_def)
  show "regular ((sample_snapshot 1 [sample_resolved ''a'' sample_config, sample_resolved ''b'' on_config])\<lparr>sn_checksum := ''x''\<rparr>)"
    "regular (sample_snapshot 1 [sample_resolved ''b'' on_config, sample_resolved ''a'' sample_config])"
    by (simp_all add: regular_def sample_snapshot_def k wf_map_def clean_keys_def u)
qed (auto simp: sample_snapshot_def sample_resolved_def resolve_flag_def bool_flag_def fun_eq_iff)

text \<open>
  A client that has verified the snapshot it holds and applies a delta holds a snapshot that
  verifies as well: the checksum the delta carries, which \<open>ApplyDelta\<close> copies without recomputing, is
  the checksum of what the delta produces.
\<close>

theorem delta_checksum:
  assumes "plain_snapshot old" "plain_snapshot new" "clean_keys (sn_flags old)" "clean_keys (sn_segments old)"
    and "clean_keys (sn_flags new)" "clean_keys (sn_segments new)"
    and "sn_environment_key old = sn_environment_key new" "sn_project_key old = sn_project_key new"
    and "checksum num new = Some (sn_checksum new)" "compute_delta dsize ssize old new = Some d"
  shows "checksum num (apply_delta old d) = Some (sn_checksum (apply_delta old d))"
proof -
  let ?r = "apply_delta old d"
  have d: "d = full_delta old new" using assms(10) by (simp add: compute_delta_def Let_def split: if_splits)
  have keyed: "keyed_map rf_key (sn_flags ?r)" "keyed_map seg_key (sn_segments ?r)"
    using assms(1) by (simp_all add: apply_delta_def keyed_apply plain_snapshot_def)
  have same: "mget (sn_flags ?r) = mget (sn_flags new)" "mget (sn_segments ?r) = mget (sn_segments new)"
    using apply_full_delta [OF assms(1,2)] by (simp_all add: d)
  have clean: "clean_keys m" if "mget m = mget m'" "clean_keys m'" for m m' :: "'v gomap"
    using that unfolding clean_keys_def set_map by (metis dom_map_of_conv_image_fst)
  have "regular ?r" "regular new"
    using keyed assms(2,5,6) clean [OF same(1)] clean [OF same(2)]
    by (auto simp: regular_def plain_snapshot_def keyed_map_def)
  then have "checksum num ?r = checksum num new"
    using same assms(7,8) by (intro checksum_same) (simp_all add: d apply_delta_def full_delta_def)
  then show ?thesis using assms(9) by (simp add: d apply_delta_def full_delta_def)
qed

section \<open>What the builder builds\<close>

definition config_or_off :: "config_view \<Rightarrow> string \<Rightarrow> string \<Rightarrow> string \<Rightarrow> flag_config" where
  "config_or_off cv pk ek k = (case cv_config cv pk ek k of Inl _ \<Rightarrow> default_off_config | Inr c \<Rightarrow> c)"

lemma resolve_flags_get:
  "distinct (map flag_key fs) \<Longrightarrow>
   mget (resolve_flags cv pk ek fs m) k =
     (case map_of (map (\<lambda>f. (flag_key f, f)) fs) k of None \<Rightarrow> mget m k
      | Some f \<Rightarrow> if flag_archived f then mget m k else Some (resolve_flag f (config_or_off cv pk ek k)))"
proof (induction fs arbitrary: m)
  case (Cons f fs)
  then have "flag_key f \<notin> flag_key ` set fs" by simp
  then have "map_of (map (\<lambda>f. (flag_key f, f)) fs) (flag_key f) = None"
    by (auto simp: map_of_eq_None_iff image_image)
  then show ?case using Cons
    by (auto simp: map_simps config_or_off_def split: option.split)
qed simp

lemma resolve_flags_keyed: "keyed_map rf_key m \<Longrightarrow> keyed_map rf_key (resolve_flags cv pk ek fs m)"
proof (induction fs arbitrary: m)
  case (Cons f fs)
  have "rf_key (resolve_flag f c) = flag_key f" for c by (simp add: resolve_flag_def)
  then have "keyed_map rf_key (mput (flag_key f) (resolve_flag f c) m)" for c
    using keyed_map_put [OF Cons.prems, of "resolve_flag f c"] by simp
  then show ?case using Cons by simp
qed simp

lemma segment_map_get:
  "distinct (map seg_key ss) \<Longrightarrow>
   mget (segment_map ss m) k =
     (case map_of (map (\<lambda>g. (seg_key g, g)) ss) k of None \<Rightarrow> mget m k | Some g \<Rightarrow> Some g)"
proof (induction ss arbitrary: m)
  case (Cons g ss)
  then have "seg_key g \<notin> seg_key ` set ss" by simp
  then have "map_of (map (\<lambda>g. (seg_key g, g)) ss) (seg_key g) = None"
    by (auto simp: map_of_eq_None_iff image_image)
  then show ?case using Cons by (auto simp: map_simps split: option.split)
qed simp

lemma segment_map_keyed: "keyed_map seg_key m \<Longrightarrow> keyed_map seg_key (segment_map ss m)"
  by (induction ss arbitrary: m) (auto intro: keyed_map_put)

lemma checksum_update [simp]: "checksum num (sn\<lparr>sn_checksum := c\<rparr>) = checksum num sn"
  by (simp add: checksum_def payload_json_def)

lemma build_parts:
  assumes "build num now cv pk ek = Inr sn"
  obtains v fs ss where "cv_version cv pk ek = Inr v" "cv_flags cv pk = Inr fs" "cv_segments cv pk = Inr ss"
    "sn_environment_key sn = ek" "sn_project_key sn = pk" "sn_version sn = v"
    "sn_flags sn = resolve_flags cv pk ek fs []" "sn_segments sn = segment_map ss []"
    "checksum num sn = Some (sn_checksum sn)" "sn_published_at sn = now"
  using assms by (auto simp: build_def Let_def checksum_def payload_json_def split: sum.splits option.splits)

definition served_flag :: "mem_store \<Rightarrow> string \<Rightarrow> string \<Rightarrow> string \<Rightarrow> resolved_flag option" where
  "served_flag s pk ek k =
     (case mem_get_flag s pk k of Inl _ \<Rightarrow> None
      | Inr f \<Rightarrow> if flag_archived f then None
                else Some (resolve_flag f (config_or_off (mem_view s) pk ek k)))"

lemma build_complete:
  assumes "mem_reachable s" "build num now (mem_view s) pk ek = Inr sn"
  shows "mget (sn_flags sn) k = served_flag s pk ek k \<and>
    mget (sn_segments sn) k = ok (mem_get_segment s pk k) \<and>
    Some (sn_version sn) = version_at s pk ek \<and> checksum num sn = Some (sn_checksum sn)"
proof -
  have i: "mem_inv s" using assms(1) by (rule reachable_inv)
  obtain v fs ss where b: "mem_get_env_version s pk ek = Inr v" "mem_list_flags s pk = Inr fs"
    "mem_list_segments s pk = Inr ss" "sn_version sn = v"
    "sn_flags sn = resolve_flags (mem_view s) pk ek fs []" "sn_segments sn = segment_map ss []"
    "checksum num sn = Some (sn_checksum sn)"
    by (rule build_parts [OF assms(2)]) (simp add: mem_view_def)
  have "mget (sn_flags sn) k = served_flag s pk ek k"
    unfolding b(5) resolve_flags_get [OF mem_flags.distinct_entries [OF i b(2)]]
      mem_flags.map_of_entries [OF i b(2)] served_flag_def
    by (cases "mem_get_flag s pk k") auto
  moreover have "mget (sn_segments sn) k = ok (mem_get_segment s pk k)"
    unfolding b(6) segment_map_get [OF mem_segments.distinct_entries [OF i b(3)]]
      mem_segments.map_of_entries [OF i b(3)]
    by (cases "mem_get_segment s pk k") auto
  ultimately show ?thesis using b by (simp add: version_at_def)
qed

text \<open>
  C8. A snapshot holds exactly what the store holds: under each key the flag of that key, unless it is
  archived, with its configuration in the environment or, if it has none there, an off configuration;
  every segment under its key; the environment's version; and a checksum that verifies.
\<close>

theorem build_contents:
  assumes "mem_reachable s" "build num now (mem_view s) pk ek = Inr sn"
  shows "mget (sn_flags sn) k = served_flag s pk ek k \<and>
    mget (sn_segments sn) k = ok (mem_get_segment s pk k) \<and>
    Some (sn_version sn) = version_at s pk ek \<and> checksum num sn = Some (sn_checksum sn)"
  using assms by (rule build_complete)

section \<open>Evaluating against a snapshot\<close>

text \<open>
  \<open>snapshotStore\<close>, which the SDK (\<open>sdk/go/pennant/client.go\<close>) and the server (\<open>internal/api/server.go\<close>)
  each define: a snapshot as the evaluator's store. The server's copy drops the description.
\<close>

definition flag_of_resolved :: "resolved_flag \<Rightarrow> flag" where
  "flag_of_resolved rf = \<lparr>flag_key = rf_key rf, flag_name = rf_name rf, flag_description = rf_description rf,
     flag_type = rf_type rf, flag_variations = rf_variations rf, flag_tags = rf_tags rf,
     flag_temporary = rf_temporary rf, flag_archived = rf_archived rf, flag_created_at = 0,
     flag_updated_at = 0, flag_environments = []\<rparr>"

definition snapshot_store :: "snapshot \<Rightarrow> eval_store" where
  "snapshot_store sn =
     \<lparr>es_flag = (\<lambda>k. map_option (\<lambda>rf. (flag_of_resolved rf, rf_config rf)) (mget (sn_flags sn) k)),
      es_segment = mget (sn_segments sn)\<rparr>"

text \<open>The store a reader of a freshly built snapshot evaluates against; empty if the build fails.\<close>

definition built_store :: "(rat \<Rightarrow> string) \<Rightarrow> int \<Rightarrow> config_view \<Rightarrow> string \<Rightarrow> string \<Rightarrow> eval_store" where
  "built_store num now cv pk ek =
     (case build num now cv pk ek of Inl _ \<Rightarrow> \<lparr>es_flag = (\<lambda>_. None), es_segment = (\<lambda>_. None)\<rparr>
      | Inr sn \<Rightarrow> snapshot_store sn)"

lemma build_keyed: "build num now cv pk ek = Inr sn \<Longrightarrow> keyed_map rf_key (sn_flags sn)"
  by (erule build_parts) (simp add: resolve_flags_keyed)

interpretation served: keyed_source "built_store num now cv pk ek" for num now cv pk ek
proof
  fix k f cfg
  assume "es_flag (built_store num now cv pk ek) k = Some (f, cfg)"
  then show "flag_key f = k"
    by (auto simp: built_store_def snapshot_store_def flag_of_resolved_def keyed_map_def
        dest!: build_keyed split: sum.splits)
qed

section \<open>A small environment\<close>

text \<open>The flags \<open>''base''\<close> and \<open>''page''\<close> of the evaluator's example, as a store and as a snapshot.\<close>

definition small_view :: config_view where
  "small_view = \<lparr>cv_version = (\<lambda>_ _. Inr 1), cv_flags = (\<lambda>_. Inr [bool_flag ''base'' [], bool_flag ''page'' []]),
     cv_segments = (\<lambda>_. Inr []),
     cv_config = (\<lambda>_ _ k. if k = ''page'' then Inr gated_config else Inr on_config)\<rparr>"

lemma num_fits_small: "\<bar>i\<bar> \<le> 2 ^ 53 \<Longrightarrow> num_fits (of_int i)"
proof -
  assume "\<bar>i\<bar> \<le> 2 ^ 53"
  then have "\<bar>of_int i\<bar> \<le> (of_int (2 ^ 53) :: rat)" by (simp only: of_int_abs [symmetric] of_int_le_iff)
  also have "\<dots> \<le> 2 ^ 1023" by simp
  finally show ?thesis by (simp add: num_fits_def round64_small)
qed

lemma num_fits_examples [simp]: "num_fits 0" "num_fits 1" "numeral n \<le> (2 :: int) ^ 53 \<Longrightarrow> num_fits (numeral n)"
  using num_fits_small [of 0] num_fits_small [of 1] num_fits_small [of "numeral n"] by simp_all

lemmas encoders = payload_json_def json_map_def resolved_json_def config_json_def variation_json_def
  segment_json_def serve_members_def omitempty_def prerequisite_json_def target_json_def jstrs_def jptr_def
  jraw_def jint_def rollout_json_def weighted_json_def

lemma small_build:
  "\<exists>c. build num now small_view pk ek = Inr \<lparr>sn_environment_key = ek, sn_project_key = pk, sn_version = 1,
     sn_flags = [(''base'', resolve_flag (bool_flag ''base'' []) on_config),
                 (''page'', resolve_flag (bool_flag ''page'' []) gated_config)],
     sn_segments = [], sn_checksum = c, sn_published_at = now\<rparr>"
proof -
  have k: "flag_key (bool_flag k es) = k" "\<not> flag_archived (bool_flag k es)" for k es by (simp_all add: bool_flag_def)
  let ?m = "[(''base'', resolve_flag (bool_flag ''base'' []) on_config),
             (''page'', resolve_flag (bool_flag ''page'' []) gated_config)]"
  let ?sn = "\<lparr>sn_environment_key = ek, sn_project_key = pk, sn_version = 1, sn_flags = ?m,
     sn_segments = [], sn_checksum = [], sn_published_at = now\<rparr>"
  have "decodable (payload_json ?sn)"
    by (simp add: decodable_def encoders resolve_flag_def small_store)
  then obtain c where c: "checksum num ?sn = Some c" by (simp add: checksum_def canonical_json_canon)
  have "resolve_flags small_view pk ek [bool_flag ''base'' [], bool_flag ''page'' []] [] = ?m"
    by (simp add: k small_view_def)
  then have "build num now small_view pk ek = Inr (?sn\<lparr>sn_checksum := c\<rparr>)"
    using c by (simp add: build_def Let_def small_view_def)
  then show ?thesis by simp
qed

text \<open>
  C9. On the snapshot of any store, if prerequisites have no cycle and chains of at most 20 flags, the
  depth counter and the visited set play no part: a flag is evaluated by the plain recursive scheme in
  which every prerequisite is evaluated as a client would evaluate it on its own.
\<close>

theorem served_recursive:
  assumes "descending (built_store num now cv pk ek) fr"
    and "es_flag (built_store num now cv pk ek) k = Some (f, cfg)" "fr k \<le> max_prerequisite_depth"
  shows "evaluate L (built_store num now cv pk ek) n ctx f cfg =
    gate L (built_store num now cv pk ek) n ctx (evaluate L (built_store num now cv pk ek) n ctx) f cfg"
  using assms by (rule served.recursive_equation)

text \<open>
  On such a snapshot the explainer and the evaluator agree on variation, value and reason for every
  flag without an empty rule.
\<close>

theorem served_explain:
  assumes "descending (built_store num now cv pk ek) fr"
    and "es_flag (built_store num now cv pk ek) k = Some (f, cfg)" "fr k \<le> max_prerequisite_depth"
    and "explain L (built_store num now cv pk ek) n ctx f cfg = Some t" "no_empty_rule cfg"
  shows "evaluate L (built_store num now cv pk ek) n ctx f cfg = Some (trace_result t)"
  using assms by (rule served.explain_evaluate)

section \<open>Instances\<close>

lemma small_flags:
  "es_flag (built_store num now small_view pk ek) =
     [''base'' \<mapsto> (bool_flag ''base'' [], on_config), ''page'' \<mapsto> (bool_flag ''page'' [], gated_config)]"
proof -
  have f: "flag_of_resolved (resolve_flag (bool_flag k []) c) = bool_flag k []" for k c
    by (simp add: flag_of_resolved_def resolve_flag_def bool_flag_def)
  have g: "rf_config (resolve_flag f c) = c" for f c by (simp add: resolve_flag_def)
  obtain c where "build num now small_view pk ek = Inr \<lparr>sn_environment_key = ek, sn_project_key = pk,
     sn_version = 1, sn_flags = [(''base'', resolve_flag (bool_flag ''base'' []) on_config),
                 (''page'', resolve_flag (bool_flag ''page'' []) gated_config)],
     sn_segments = [], sn_checksum = c, sn_published_at = now\<rparr>"
    using small_build by blast
  then show ?thesis by (auto simp: built_store_def snapshot_store_def f g fun_eq_iff)
qed

definition small_rank :: "string \<Rightarrow> nat" where
  "small_rank k = (if k = ''page'' then 1 else 0)"

lemma small_descending: "descending (built_store num now small_view pk ek) small_rank"
  unfolding descending_def small_flags
  by (auto simp: small_rank_def on_config_def gated_config_def sample_config_def split: if_splits)

lemma served_recursive_witness:
  "evaluate no_libs (built_store (\<lambda>_. []) 0 small_view ''p'' ''prod'') 0 (user_ctx ''u'') (bool_flag ''page'' []) gated_config =
   gate no_libs (built_store (\<lambda>_. []) 0 small_view ''p'' ''prod'') 0 (user_ctx ''u'')
     (evaluate no_libs (built_store (\<lambda>_. []) 0 small_view ''p'' ''prod'') 0 (user_ctx ''u'')) (bool_flag ''page'' []) gated_config"
  by (rule served_recursive [OF small_descending, where k = "''page''"])
    (simp_all add: small_flags small_rank_def max_prerequisite_depth_def)

lemma served_explain_witness:
  "\<exists>t. explain no_libs (built_store (\<lambda>_. []) 0 small_view ''p'' ''prod'') 0 (user_ctx ''u'') (bool_flag ''page'' []) gated_config = Some t \<and>
     tr_variation t = Some 1 \<and>
     evaluate no_libs (built_store (\<lambda>_. []) 0 small_view ''p'' ''prod'') 0 (user_ctx ''u'') (bool_flag ''page'' []) gated_config =
       Some (trace_result t)"
proof -
  let ?S = "built_store (\<lambda>_. []) 0 small_view ''p'' ''prod''"
  have b: "es_flag ?S ''base'' = Some (bool_flag ''base'' [], on_config)" by (simp add: small_flags)
  have s: "es_flag ?S ''page'' = Some (bool_flag ''page'' [], gated_config)" by (simp add: small_flags)
  have r: "small_rank ''page'' \<le> max_prerequisite_depth" by (simp add: small_rank_def max_prerequisite_depth_def)
  have "evaluate no_libs ?S 0 (user_ctx ''u'') (bool_flag ''base'' []) on_config =
      Some (Some 1, ABool True, reason_of ReasonFallthrough)"
    by (simp add: evaluate_unfold serve_def resolve_variation_or_rollout_def variation_result_def
        unmarshal_any_def small_store)
  then obtain t where t: "explain no_libs ?S 0 (user_ctx ''u'') (bool_flag ''page'' []) gated_config = Some t" "tr_variation t = Some 1"
    using b by (simp add: explain_def explain_serve_def gated_config_def on_config_def sample_config_def
        serve_fixed_def resolve_variation_or_rollout_def variation_result_def bool_flag_def trace_of_def)
  have e: "no_empty_rule gated_config" by (simp add: no_empty_rule_def small_store)
  from served_explain [OF small_descending s r t(1) e] t show ?thesis by blast
qed

lemma build_contents_witness:
  "\<exists>s sn. mem_run new_memory_store [CreateProject sample_project, CreateFlag 5 ''p'' (bool_flag ''f'' [])] = Some s \<and>
     build (\<lambda>_. []) 0 (mem_view s) ''p'' ''prod'' = Inr sn \<and> mget (sn_flags sn) ''f'' \<noteq> None \<and>
     mget (sn_flags sn) ''f'' = served_flag s ''p'' ''prod'' ''f''"
proof -
  let ?f = "(bool_flag ''f'' [])\<lparr>flag_created_at := 5, flag_updated_at := 5\<rparr>"
  obtain s where s: "mem_run new_memory_store [CreateProject sample_project, CreateFlag 5 ''p'' (bool_flag ''f'' [])] = Some s"
    "mem_get_env_version s ''p'' ''prod'' = Inr 0" "mem_list_flags s ''p'' = Inr [?f]"
    "mem_list_segments s ''p'' = Inr []" "mem_get_flag_config s ''p'' ''prod'' ''f'' = Inl (ConfigNotFound ''prod'' ''f'')"
    by (simp add: mem_ops Let_def new_memory_store_def sample_project_def sample_env_def bool_flag_def
        mem_get_env_version_def mem_list_flags_def mem_list_segments_def mem_get_flag_config_def)
  let ?m = "[(''f'', resolve_flag ?f default_off_config)]"
  let ?sn = "\<lparr>sn_environment_key = ''prod'', sn_project_key = ''p'', sn_version = 0, sn_flags = ?m,
     sn_segments = [], sn_checksum = [], sn_published_at = 0\<rparr>"
  have "resolve_flags (mem_view s) ''p'' ''prod'' [?f] [] = ?m"
    using s(5) by (simp add: mem_view_def bool_flag_def)
  moreover have "decodable (payload_json ?sn)"
    by (simp add: decodable_def encoders resolve_flag_def default_off_config_def bool_flag_def)
  then obtain c where "checksum (\<lambda>_. []) ?sn = Some c" by (simp add: checksum_def canonical_json_canon)
  ultimately have b: "build (\<lambda>_. []) 0 (mem_view s) ''p'' ''prod'' = Inr (?sn\<lparr>sn_checksum := c\<rparr>)"
    using s by (simp add: build_def Let_def mem_view_def)
  have c: "mget (sn_flags (?sn\<lparr>sn_checksum := c\<rparr>)) ''f'' = served_flag s ''p'' ''prod'' ''f''"
    by (rule conjunct1 [OF build_contents [OF mem_run_reachable [OF mem_start s(1)] b]])
  show ?thesis by (rule exI, rule exI, intro conjI, rule s(1), rule b, simp, rule c)
qed

lemma delta_checksum_witness:
  "\<exists>old new d. checksum (\<lambda>_. []) new = Some (sn_checksum new) \<and>
     compute_delta (\<lambda>_. 1) (\<lambda>_. 0) old new = Some d \<and> dl_deleted_flags d = [''a''] \<and>
     checksum (\<lambda>_. []) (apply_delta old d) = Some (sn_checksum (apply_delta old d))"
proof -
  let ?o = "sample_snapshot 1 [sample_resolved ''a'' sample_config]"
  let ?m = "sample_snapshot 2 [sample_resolved ''b'' sample_config]"
  note ev = sample_snapshot_def sample_resolved_def resolve_flag_def bool_flag_def sample_config_def serve_split_def
  have "decodable (payload_json ?m)" by (simp add: decodable_def encoders ev)
  then obtain c where c: "checksum (\<lambda>_. []) ?m = Some c" by (simp add: checksum_def canonical_json_canon)
  let ?n = "?m\<lparr>sn_checksum := c\<rparr>"
  have n: "checksum (\<lambda>_. []) ?n = Some (sn_checksum ?n)" using c by simp
  have d: "compute_delta (\<lambda>_. 1) (\<lambda>_. 0) ?o ?n = Some (full_delta ?o ?n)"
    by (simp add: compute_delta_def sample_snapshot_def)
  have p: "plain_snapshot ?o" "plain_snapshot ?n"
    by (auto simp: plain_snapshot_def keyed_map_def wf_map_def plain_resolved_def plain_type_def
        plain_config_def ev split: if_splits)
  have k: "clean_keys (sn_flags ?o)" "clean_keys (sn_segments ?o)" "clean_keys (sn_flags ?n)" "clean_keys (sn_segments ?n)"
    by (simp_all add: clean_keys_def ev utf8_fix_def utf8_len_def byte_def)
  have e: "sn_environment_key ?o = sn_environment_key ?n" "sn_project_key ?o = sn_project_key ?n"
    by (simp_all add: sample_snapshot_def)
  have "dl_deleted_flags (full_delta ?o ?n) = [''a'']" by (simp add: full_delta_def deleted_def ev)
  with delta_checksum [OF p k e n d] n d show ?thesis by blast
qed

end
