(* ===== verification/SdkAuth.thy ===== *)
theory SdkAuth
  imports Prelude
begin

text \<open>
  SDK keys, \<open>internal/sdkauth/auth.go\<close>, and the server's check of a request's key
  (\<open>authenticateSDK\<close> in \<open>internal/api/server.go\<close>).

  The lemmas relate the table of keys to the history of registrations and revocations.
\<close>

section \<open>The code\<close>

record sdk_key_record =
  kr_value :: string
  kr_project_key :: string
  kr_env_key :: string
  kr_type :: string
  kr_revoked :: bool

type_synonym authenticator = "sdk_key_record gomap"

definition new_authenticator :: authenticator where
  "new_authenticator = []"

definition register :: "authenticator \<Rightarrow> sdk_key_record \<Rightarrow> authenticator" where
  "register a rec = mput (kr_value rec) rec a"

definition revoke :: "authenticator \<Rightarrow> string \<Rightarrow> authenticator" where
  "revoke a k = (case mget a k of None \<Rightarrow> a | Some rec \<Rightarrow> mput k (rec\<lparr>kr_revoked := True\<rparr>) a)"

definition validate_sdk_key :: "authenticator \<Rightarrow> string \<Rightarrow> string \<Rightarrow> bool" where
  "validate_sdk_key a k env =
     (case mget a k of None \<Rightarrow> False
      | Some rec \<Rightarrow> if kr_revoked rec then False else kr_env_key rec = env)"

definition lookup_key :: "authenticator \<Rightarrow> string \<Rightarrow> sdk_key_record option" where
  "lookup_key a k = (case mget a k of None \<Rightarrow> None | Some rec \<Rightarrow> if kr_revoked rec then None else Some rec)"

definition is_client_key :: "authenticator \<Rightarrow> string \<Rightarrow> bool" where
  "is_client_key a k =
     (case lookup_key a k of None \<Rightarrow> False | Some rec \<Rightarrow> kr_type rec = ''client'' \<or> kr_type rec = ''mobile'')"

definition bearer_prefix :: string where
  "bearer_prefix = ''Bearer ''"

definition extract_bearer :: "string \<Rightarrow> string" where
  "extract_bearer header =
     (if take (length bearer_prefix) header = bearer_prefix then drop (length bearer_prefix) header else [])"

text \<open>\<open>None\<close> is the answer 401.\<close>

definition authenticate_sdk :: "authenticator \<Rightarrow> string \<Rightarrow> sdk_key_record option" where
  "authenticate_sdk a header =
     (let k = extract_bearer header in if k = [] then None else lookup_key a k)"

section \<open>Keys and their history\<close>

datatype key_op = Register sdk_key_record | Revoke string

fun key_apply :: "authenticator \<Rightarrow> key_op \<Rightarrow> authenticator" where
  "key_apply a (Register rec) = register a rec"
| "key_apply a (Revoke k) = revoke a k"

text \<open>What the history says of one key: the last registration of it, unless revoked after or revoked when
  it was registered.\<close>

fun status :: "sdk_key_record option \<Rightarrow> key_op list \<Rightarrow> string \<Rightarrow> sdk_key_record option" where
  "status cur [] k = cur"
| "status cur (Register rec # ops) k =
     status (if kr_value rec = k then (if kr_revoked rec then None else Some rec) else cur) ops k"
| "status cur (Revoke j # ops) k = status (if j = k then None else cur) ops k"

lemma lookup_apply:
  "lookup_key (key_apply a (Register rec)) k =
     (if kr_value rec = k then (if kr_revoked rec then None else Some rec) else lookup_key a k)"
  "lookup_key (key_apply a (Revoke j)) k = (if j = k then None else lookup_key a k)"
  by (auto simp: lookup_key_def register_def revoke_def map_simps split: option.split)

lemma lookup_foldl: "lookup_key (foldl key_apply a ops) k = status (lookup_key a k) ops k"
proof (induction ops arbitrary: a)
  case (Cons op ops)
  then show ?case by (cases op) (simp_all add: lookup_apply del: key_apply.simps)
qed simp

lemma status_revoked: "\<forall>rec. Register rec \<in> set ops \<longrightarrow> kr_value rec \<noteq> k \<Longrightarrow> status None ops k = None"
proof (induction ops)
  case (Cons op ops)
  then show ?case by (cases op) auto
qed simp

lemma status_append: "status cur (xs @ ys) k = status (status cur xs k) ys k"
  by (induction cur xs k rule: status.induct) auto

text \<open>
  A request is let in exactly if its header is \<open>Bearer\<close> and a non-empty key that the history of
  registrations and revocations leaves valid, and then with the project and environment of the key's last
  registration.
\<close>

theorem authenticate_history:
  "authenticate_sdk (foldl key_apply new_authenticator ops) header = Some rec \<longleftrightarrow>
     (\<exists>k. k \<noteq> [] \<and> header = ''Bearer '' @ k \<and> status None ops k = Some rec)"
proof -
  have l: "lookup_key (foldl key_apply new_authenticator ops) k = status None ops k" for k
  proof -
    have "lookup_key [] k = None" by (simp add: lookup_key_def)
    then show ?thesis by (simp add: lookup_foldl new_authenticator_def)
  qed
  have len: "length bearer_prefix = 7" by (simp add: bearer_prefix_def)
  have h: "take 7 header = bearer_prefix \<longleftrightarrow> (\<exists>k. header = bearer_prefix @ k)"
    by (metis append_eq_conv_conj append_take_drop_id len)
  show ?thesis unfolding authenticate_sdk_def Let_def l extract_bearer_def
    unfolding len h by (auto simp: len) (simp add: bearer_prefix_def)+
qed

text \<open>
  C16. A revoked key stays out: after \<open>Revoke\<close> no request with the key is let in until the key is
  registered again.
\<close>

theorem revoked_stays_out:
  assumes "\<forall>rec. Register rec \<in> set later \<longrightarrow> kr_value rec \<noteq> k"
  shows "authenticate_sdk (foldl key_apply new_authenticator (ops @ Revoke k # later)) (''Bearer '' @ k) = None"
proof -
  have "lookup_key (foldl key_apply new_authenticator (ops @ Revoke k # later)) k = None"
    unfolding lookup_foldl status_append using status_revoked [OF assms] by simp
  then show ?thesis by (simp add: authenticate_sdk_def extract_bearer_def bearer_prefix_def)
qed

definition sample_key :: sdk_key_record where
  "sample_key = \<lparr>kr_value = ''k1'', kr_project_key = ''p'', kr_env_key = ''prod'', kr_type = ''server'',
     kr_revoked = False\<rparr>"

lemma revoked_stays_out_witness:
  "authenticate_sdk (foldl key_apply new_authenticator [Register sample_key]) ''Bearer k1'' = Some sample_key \<and>
   authenticate_sdk (foldl key_apply new_authenticator ([Register sample_key] @ Revoke ''k1'' # [])) (''Bearer '' @ ''k1'') = None"
  using revoked_stays_out [of "[]" "''k1''" "[Register sample_key]"]
  by (simp add: authenticate_sdk_def extract_bearer_def bearer_prefix_def register_def lookup_key_def
      new_authenticator_def sample_key_def)

end
