(* ===== verification/Streaming.thy ===== *)
theory Streaming
  imports Hub Snapshot SdkAuth
begin

text \<open>
  How changes reach the clients: \<open>publishFlagChange\<close>, \<open>sdkSnapshot\<close>, \<open>sdkEvaluate\<close> and \<open>sdkStream\<close> of
  \<open>internal/api/server.go\<close>, on the memory store and the hub.

  The messages of the hub carry snapshots. The streaming handler is modelled by what it writes: the
  frames of its initial phase, which reads the hub and the store at three moments, and the frames
  of its loop, which depend on what its channel delivers. The lemmas show when the two together
  are complete, and two ways in which they are not.
\<close>

section \<open>The code\<close>

text \<open>\<open>publishFlagChange\<close>: each environment's version is incremented, its snapshot built and sent.\<close>

fun publish_envs ::
    "(rat \<Rightarrow> string) \<Rightarrow> int \<Rightarrow> string \<Rightarrow> environment list \<Rightarrow> mem_store \<Rightarrow> snapshot hub \<Rightarrow> mem_store \<times> snapshot hub" where
  "publish_envs num now pk [] s h = (s, h)"
| "publish_envs num now pk (e # es) s h =
     (case mem_increment_env_version s pk (env_key e) of
        Inl _ \<Rightarrow> publish_envs num now pk es s h
      | Inr (v, s') \<Rightarrow>
          (case build num now (mem_view s') pk (env_key e) of
             Inl _ \<Rightarrow> publish_envs num now pk es s' h
           | Inr sn \<Rightarrow>
               publish_envs num now pk es s'
                 (publish h (env_key e) \<lparr>msg_event = ''put'', msg_version = v, msg_data = Some sn\<rparr>)))"

definition publish_flag_change ::
    "(rat \<Rightarrow> string) \<Rightarrow> int \<Rightarrow> string \<Rightarrow> mem_store \<Rightarrow> snapshot hub \<Rightarrow> mem_store \<times> snapshot hub" where
  "publish_flag_change num now pk s h =
     (case mem_list_environments s pk of Inl _ \<Rightarrow> (s, h) | Inr es \<Rightarrow> publish_envs num now pk es s h)"

text \<open>One event of the stream: \<open>id\<close>, \<open>event\<close>, \<open>data\<close>.\<close>

record 'd frame =
  fr_id :: int
  fr_event :: string
  fr_data :: "'d option"

definition frame_of :: "'d message \<Rightarrow> 'd frame" where
  "frame_of m = \<lparr>fr_id = msg_version m, fr_event = msg_event m, fr_data = msg_data m\<rparr>"

text \<open>
  The initial phase: the frames written and \<open>sentVersion\<close>. \<open>h\<close> is the hub when it is asked for a
  replay, \<open>s1\<close> the store when the snapshot is built and \<open>s2\<close> the store when its version is read.
\<close>

definition stream_initial ::
    "(rat \<Rightarrow> string) \<Rightarrow> int \<Rightarrow> snapshot hub \<Rightarrow> mem_store \<Rightarrow> mem_store \<Rightarrow> sdk_key_record \<Rightarrow> int \<Rightarrow>
     snapshot frame list \<times> int" where
  "stream_initial num now h s1 s2 rec from =
     (case replay h (kr_env_key rec) from of
        Some (m # ms) \<Rightarrow> (map frame_of (m # ms), msg_version (last (m # ms)))
      | _ \<Rightarrow>
          (case build num now (mem_view s1) (kr_project_key rec) (kr_env_key rec) of
             Inl _ \<Rightarrow> ([], 0)
           | Inr sn \<Rightarrow>
               (let v = (case mem_get_env_version s2 (kr_project_key rec) (kr_env_key rec) of Inl _ \<Rightarrow> 0 | Inr v \<Rightarrow> v)
                in ([\<lparr>fr_id = v, fr_event = ''put'', fr_data = Some sn\<rparr>], v))))"

text \<open>The loop: a message no newer than what the initial phase sent is skipped.\<close>

fun stream_live :: "int \<Rightarrow> 'd message list \<Rightarrow> 'd frame list" where
  "stream_live sent [] = []"
| "stream_live sent (m # ms) =
     (if msg_version m \<le> sent then stream_live sent ms else frame_of m # stream_live sent ms)"

text \<open>
  Opening a stream: the key is checked, the handler subscribes and only then runs the initial phase;
  \<open>from\<close> is the number read from \<open>Last-Event-ID\<close>, 0 if there is none. Closing it unsubscribes.
\<close>

definition stream_open ::
    "(rat \<Rightarrow> string) \<Rightarrow> int \<Rightarrow> authenticator \<Rightarrow> snapshot hub \<Rightarrow> mem_store \<Rightarrow> mem_store \<Rightarrow> string \<Rightarrow> string \<Rightarrow> int \<Rightarrow>
     int + snapshot hub \<times> subscriber \<times> snapshot frame list \<times> int" where
  "stream_open num now a h s1 s2 header ua from =
     (case authenticate_sdk a header of None \<Rightarrow> Inl 401
      | Some rec \<Rightarrow>
          (case subscribe now h (kr_env_key rec) (kr_project_key rec) (kr_value rec) ua of
             (h1, sub) \<Rightarrow> Inr (h1, sub, stream_initial num now h1 s1 s2 rec from)))"

definition stream_close :: "snapshot hub \<Rightarrow> subscriber \<Rightarrow> snapshot hub" where
  "stream_close h sub = unsubscribe h (sb_env_key sub) (sb_id sub)"

text \<open>\<open>sdkSnapshot\<close> and \<open>sdkEvaluate\<close>; the number is the HTTP status.\<close>

definition sdk_snapshot ::
    "(rat \<Rightarrow> string) \<Rightarrow> int \<Rightarrow> authenticator \<Rightarrow> mem_store \<Rightarrow> string \<Rightarrow> int + snapshot" where
  "sdk_snapshot num now a s header =
     (case authenticate_sdk a header of None \<Rightarrow> Inl 401
      | Some rec \<Rightarrow>
          (case build num now (mem_view s) (kr_project_key rec) (kr_env_key rec) of
             Inl _ \<Rightarrow> Inl 500 | Inr sn \<Rightarrow> Inr sn))"

text \<open>The server's own \<open>snapshotStore\<close>, and the flag \<open>sdkEvaluate\<close> makes of a resolved one, drop the description.\<close>

definition undescribed :: "flag \<Rightarrow> flag" where
  "undescribed f = f\<lparr>flag_description := []\<rparr>"

definition server_store :: "snapshot \<Rightarrow> eval_store" where
  "server_store sn =
     \<lparr>es_flag = (\<lambda>k. case mget (sn_flags sn) k of None \<Rightarrow> None
        | Some rf \<Rightarrow> Some (undescribed (flag_of_resolved rf), rf_config rf)),
      es_segment = (\<lambda>k. mget (sn_segments sn) k)\<rparr>"

definition eval_flag ::
    "libs \<Rightarrow> nat \<Rightarrow> snapshot \<Rightarrow> flag \<Rightarrow> flag_config \<Rightarrow> eval_context \<Rightarrow> eval_result option" where
  "eval_flag L n sn f cfg ctx = evaluate L (server_store sn) n ctx f cfg"

definition sdk_evaluate ::
    "libs \<Rightarrow> nat \<Rightarrow> (rat \<Rightarrow> string) \<Rightarrow> int \<Rightarrow> authenticator \<Rightarrow> mem_store \<Rightarrow> string \<Rightarrow>
     (string \<times> eval_context) option \<Rightarrow> int + eval_result option" where
  "sdk_evaluate L n num now a s header body =
     (case authenticate_sdk a header of None \<Rightarrow> Inl 401
      | Some rec \<Rightarrow>
          (case body of None \<Rightarrow> Inl 400
           | Some (fk, ctx) \<Rightarrow>
               (case build num now (mem_view s) (kr_project_key rec) (kr_env_key rec) of
                  Inl _ \<Rightarrow> Inl 500
                | Inr sn \<Rightarrow>
                    (case mget (sn_flags sn) fk of None \<Rightarrow> Inl 404
                     | Some rf \<Rightarrow>
                         Inr (eval_flag L n sn (undescribed (flag_of_resolved rf)) (rf_config rf) ctx)))))"

section \<open>A stream without gaps\<close>

lemma stream_live_filter: "stream_live sent ms = map frame_of (filter (\<lambda>m. sent < msg_version m) ms)"
  by (induction ms) auto

lemma ascending_append:
  "ascending (xs @ ys) \<longleftrightarrow> ascending xs \<and> ascending ys \<and> (\<forall>x \<in> set xs. \<forall>y \<in> set ys. msg_version x < msg_version y)"
  by (simp add: ascending_def sorted_wrt_append)

lemma filter_above: "\<forall>m \<in> set ms. v < msg_version m \<Longrightarrow> filter (\<lambda>m. v < msg_version m) ms = ms"
  by (simp add: filter_id_conv)

lemma last_of_filter:
  assumes "ascending lg" "m # ms = filter (\<lambda>m. v < msg_version m) lg" "x \<in> set lg"
  shows "last (m # ms) \<in> set lg" "v < msg_version (last (m # ms))"
    "msg_version x \<le> msg_version (last (m # ms))"
proof -
  have l: "last (m # ms) \<in> set (filter (\<lambda>m. v < msg_version m) lg)"
    unfolding assms(2) [symmetric] by (rule last_in_set) simp
  then show "last (m # ms) \<in> set lg" and below: "v < msg_version (last (m # ms))" by (simp_all only: set_filter mem_Collect_eq)
  have "ascending (m # ms)" using assms(1) unfolding assms(2) ascending_def by (rule sorted_wrt_filter)
  then have "ascending (butlast (m # ms) @ [last (m # ms)])" by (simp only: append_butlast_last_id list.simps(3) not_False_eq_True)
  then have "\<forall>y \<in> set (butlast (m # ms)). msg_version y < msg_version (last (m # ms))"
    by (simp only: ascending_append) simp
  moreover have "x \<in> set (m # ms) \<Longrightarrow> x \<in> set (butlast (m # ms)) \<or> x = last (m # ms)"
    by (metis append_butlast_last_id in_set_conv_decomp_last list.distinct(1) rotate1.simps(2) set_ConsD set_rotate1)
  ultimately have le: "msg_version x \<le> msg_version (last (m # ms))" if "x \<in> set (m # ms)"
    using that by (metis less_imp_le order_refl)
  have "v < msg_version x \<Longrightarrow> x \<in> set (m # ms)" unfolding assms(2) using assms(3) by simp
  then show "msg_version x \<le> msg_version (last (m # ms))" using below le by linarith
qed

lemma stream_complete:
  assumes "ascending (before @ between @ after)"
    and "\<forall>m \<in> set (before @ between). 0 < msg_version m \<and> int64_range (msg_version m)"
    and "mget (hb_rings h) (kr_env_key rec) = Some (foldl ring_append (new_event_ring 256) (before @ between))"
    and "replay h (kr_env_key rec) v = Some (m # ms)"
    and "stream_initial num now h s1 s2 rec v = (frames, sent)"
  shows "frames @ stream_live sent (between @ after) =
    map frame_of (filter (\<lambda>m. v < msg_version m) (before @ between @ after))"
proof -
  let ?log = "before @ between"
  have asc: "ascending ?log" "\<forall>x \<in> set ?log. \<forall>y \<in> set after. msg_version x < msg_version y" "ascending after"
    using assms(1) ascending_append [of ?log after] by auto
  have "ring_since (foldl ring_append (new_event_ring 256) ?log) v = Some (m # ms)"
    using assms(3,4) by (simp add: replay_def)
  then have eq: "m # ms = filter (\<lambda>m. v < msg_version m) ?log"
    using ring.since_complete [OF ring.holds_all asc(1) assms(2)] by blast
  have fr: "frames = map frame_of (m # ms)" "sent = msg_version (last (m # ms))"
    using assms(4,5) by (auto simp: stream_initial_def)
  have lastin: "last (m # ms) \<in> set ?log" "v < sent" and top: "\<forall>x \<in> set ?log. msg_version x \<le> sent"
  proof -
    have "m \<in> set ?log" using arg_cong [OF eq, of set] by auto
    then show "last (m # ms) \<in> set ?log" "v < sent" using last_of_filter [OF asc(1) eq] unfolding fr(2) by blast+
    show "\<forall>x \<in> set ?log. msg_version x \<le> sent" using last_of_filter(3) [OF asc(1) eq] unfolding fr(2) by blast
  qed
  have b: "filter (\<lambda>m. sent < msg_version m) between = []" using top by (auto simp: filter_empty_conv not_less)
  have a1: "filter (\<lambda>m. sent < msg_version m) after = after" using lastin(1) asc(2) by (intro filter_above) (auto simp: fr(2))
  have a2: "filter (\<lambda>m. v < msg_version m) after = after" using a1 lastin(2) by (force simp add: filter_id_conv)
  show ?thesis unfolding stream_live_filter fr(1) eq by (simp add: b a1 a2)
qed

lemma replay_members:
  assumes "ascending (before @ between @ after)"
    and "\<forall>m \<in> set (before @ between). 0 < msg_version m \<and> int64_range (msg_version m)"
    and "mget (hb_rings h) e = Some (foldl ring_append (new_event_ring 256) (before @ between))"
    and "replay h e v = Some ms"
  shows "ms = filter (\<lambda>m. v < msg_version m) (before @ between)"
proof -
  have "ascending (before @ between)" using assms(1) ascending_append [of "before @ between" after] by simp
  moreover have "ring_since (foldl ring_append (new_event_ring 256) (before @ between)) v = Some ms"
    using assms(3,4) by (simp add: replay_def)
  ultimately show ?thesis using ring.since_complete [OF ring.holds_all _ assms(2)] by blast
qed

lemma last_filter_ascending:
  assumes "ascending lg" "filter (\<lambda>m. v < msg_version m) lg \<noteq> []"
  shows "last (filter (\<lambda>m. v < msg_version m) lg) = last lg"
proof (cases lg rule: rev_cases)
  case (snoc ys y)
  obtain m where m: "m \<in> set lg" "v < msg_version m" using assms(2) by (auto simp: filter_empty_conv)
  then have "v < msg_version y" using assms(1) unfolding snoc ascending_append by auto
  then show ?thesis by (simp add: snoc)
qed (use assms in simp)


lemma replay_of_ring:
  assumes "mget (hb_rings h) e = Some (foldl ring_append (new_event_ring 256) lg)"
    and "lg \<noteq> []" "\<not> v < wrap64 (msg_version (hd (last_n 256 lg)) - 1)"
  shows "replay h e v = Some (filter (\<lambda>m. v < msg_version m) (last_n 256 lg))"
  using ring.since_some [OF ring.holds_all assms(2,3)] assms(1) by (simp add: replay_def)

definition stored_log :: "snapshot message list \<Rightarrow> snapshot hub" where
  "stored_log lg = new_hub\<lparr>hb_rings := [(''prod'', foldl ring_append (new_event_ring 256) lg)]\<rparr>"


section \<open>What a change does to the versions\<close>

definition bump :: "nat \<Rightarrow> int \<Rightarrow> int" where
  "bump c v = (if c = 0 then v else wrap64 (v + int c))"

lemma bump_0: "bump 0 = (\<lambda>v. v)"
  by (simp add: bump_def fun_eq_iff)

lemma bump_Suc: "bump c (wrap64 (v + 1)) = bump (Suc c) v"
  by (simp add: bump_def wrap64_add add.assoc)

lemma increment_only_versions:
  "mem_increment_env_version s p ek = Inr (n, s') \<Longrightarrow> s' = s\<lparr>ms_versions := ms_versions s'\<rparr>"
  by (auto simp: mem_increment_env_version_def split: option.splits)

lemma increment_absent: "mem_increment_env_version s p ek = Inl x \<Longrightarrow> version_at s p ek = None"
  by (auto simp: mem_increment_env_version_def version_at_bind split: option.splits)

lemma publish_envs_version:
  "publish_envs num now pk es s h = (s', h') \<Longrightarrow>
   version_at s' k e = (if k = pk then map_option (bump (count_list (map env_key es) e)) (version_at s k e)
                        else version_at s k e) \<and> s' = s\<lparr>ms_versions := ms_versions s'\<rparr>"
proof (induction es arbitrary: s h)
  case Nil
  then show ?case by (auto simp: bump_0 option.map_ident)
next
  case (Cons x xs)
  show ?case
  proof (cases "mem_increment_env_version s pk (env_key x)")
    case (Inl err)
    then have "publish_envs num now pk xs s h = (s', h')" using Cons.prems by simp
    from Cons.IH [OF this] increment_absent [OF Inl] show ?thesis by auto
  next
    case (Inr r)
    obtain v s1 where r: "mem_increment_env_version s pk (env_key x) = Inr (v, s1)" using Inr by (cases r) auto
    then obtain h1 where "publish_envs num now pk xs s1 h1 = (s', h')"
      using Cons.prems by (auto split: sum.splits)
    note ih = Cons.IH [OF this]
    have "s' = s\<lparr>ms_versions := ms_versions s'\<rparr>"
      using ih increment_only_versions [OF r]
      by (metis mem_store.surjective mem_store.update_convs(5))
    moreover have "version_at s' k e = (if k = pk then map_option (bump (count_list (map env_key (x # xs)) e)) (version_at s k e)
        else version_at s k e)"
      using ih increment_version [OF r, of k e]
      by (cases "version_at s pk (env_key x)") (auto simp: bump_Suc)
    ultimately show ?thesis by blast
  qed
qed

text \<open>
  Publishing a change moves versions and nothing else: the version of each environment of the
  project goes up by one for each time the project lists it, no other version changes, and neither
  does anything else in the store.
\<close>

theorem publish_moves_versions:
  "version_at (fst (publish_flag_change num now pk s h)) k e =
     (if k = pk then map_option (bump (case mem_list_environments s pk of Inl _ \<Rightarrow> 0
                                       | Inr es \<Rightarrow> count_list (map env_key es) e)) (version_at s k e)
      else version_at s k e) \<and>
   fst (publish_flag_change num now pk s h) =
     s\<lparr>ms_versions := ms_versions (fst (publish_flag_change num now pk s h))\<rparr>"
proof (cases "mem_list_environments s pk")
  case (Inl x)
  then show ?thesis by (simp add: publish_flag_change_def bump_0 option.map_ident)
next
  case (Inr es)
  obtain s' h' where "publish_envs num now pk es s h = (s', h')" by fastforce
  with publish_envs_version [OF this, of k e] Inr show ?thesis by (simp add: publish_flag_change_def)
qed

section \<open>A race between the snapshot and its version\<close>

definition put_message :: "int \<Rightarrow> 'd \<Rightarrow> 'd message" where
  "put_message v d = \<lparr>msg_event = ''put'', msg_version = v, msg_data = Some d\<rparr>"

text \<open>
  C18. An update between \<open>Build\<close> and \<open>GetEnvVersion\<close> is lost to the connection: the client is sent
  the old snapshot under the new version, and the message with the new snapshot, already in its
  channel, is skipped as covered.
\<close>

theorem stream_version_race:
  assumes "replay h (kr_env_key rec) from = None \<or> replay h (kr_env_key rec) from = Some []"
    and "build num now (mem_view s1) (kr_project_key rec) (kr_env_key rec) = Inr old"
    and "mem_increment_env_version s (kr_project_key rec) (kr_env_key rec) = Inr (v, s2)"
    and "stream_initial num now h s1 s2 rec from = (frames, sent)"
  shows "frames @ stream_live sent [put_message v new] = [\<lparr>fr_id = v, fr_event = ''put'', fr_data = Some old\<rparr>]"
proof -
  have "mem_get_env_version s2 (kr_project_key rec) (kr_env_key rec) = Inr v"
    using increment_version [OF assms(3), of "kr_project_key rec" "kr_env_key rec"] by (simp add: version_at_def)
  then show ?thesis using assms by (auto simp: stream_initial_def put_message_def Let_def)
qed

text \<open>A project with one environment and no flags.\<close>

lemma empty_build:
  assumes "mem_get_env_version s pk ek = Inr v" "mem_list_flags s pk = Inr []" "mem_list_segments s pk = Inr []"
    and "\<bar>v\<bar> \<le> 2 ^ 53"
  shows "\<exists>sn. build num now (mem_view s) pk ek = Inr sn \<and> sn_project_key sn = pk \<and> sn_version sn = v \<and> sn_flags sn = []"
proof -
  let ?sn = "\<lparr>sn_environment_key = ek, sn_project_key = pk, sn_version = v, sn_flags = [],
     sn_segments = [], sn_checksum = [], sn_published_at = now\<rparr>"
  have "decodable (payload_json ?sn)" using num_fits_small [OF assms(4)] by (simp add: decodable_def encoders)
  then obtain c where "checksum num ?sn = Some c" by (simp add: checksum_def canonical_json_canon)
  then have "build num now (mem_view s) pk ek = Inr (?sn\<lparr>sn_checksum := c\<rparr>)"
    using assms by (simp add: build_def Let_def mem_view_def)
  then show ?thesis by (intro exI [of _ "?sn\<lparr>sn_checksum := c\<rparr>"]) simp
qed

lemma sample_states:
  obtains s s' where "mem_run new_memory_store [CreateProject sample_project] = Some s"
    "mem_increment_env_version s ''p'' ''prod'' = Inr (1, s')"
    "mem_list_environments s ''p'' = Inr [sample_env]"
    "mem_get_env_version s ''p'' ''prod'' = Inr 0" "mem_get_env_version s' ''p'' ''prod'' = Inr 1"
    "mem_list_flags s ''p'' = Inr []" "mem_list_segments s ''p'' = Inr []"
    "mem_list_flags s' ''p'' = Inr []" "mem_list_segments s' ''p'' = Inr []"
  by (simp add: mem_ops Let_def new_memory_store_def sample_project_def sample_env_def wrap64_def
      mem_list_environments_def mem_get_env_version_def mem_list_flags_def mem_list_segments_def)

lemma stream_version_race_witness:
  "\<exists>s s2 old frames sent. build (\<lambda>_. []) 0 (mem_view s) ''p'' ''prod'' = Inr old \<and> sn_version old = 0 \<and>
     stream_initial (\<lambda>_. []) 0 new_hub s s2 sample_key 0 = (frames, sent) \<and>
     frames @ stream_live sent [put_message 1 (old\<lparr>sn_version := 1\<rparr>)] =
       [\<lparr>fr_id = 1, fr_event = ''put'', fr_data = Some old\<rparr>]"
proof -
  obtain s s2 where s: "mem_increment_env_version s ''p'' ''prod'' = Inr (1, s2)"
    "mem_get_env_version s ''p'' ''prod'' = Inr 0" "mem_list_flags s ''p'' = Inr []" "mem_list_segments s ''p'' = Inr []"
    by (rule sample_states)
  obtain old where old: "build (\<lambda>_. []) 0 (mem_view s) ''p'' ''prod'' = Inr old" "sn_version old = 0"
    using empty_build [OF s(2-4), of "\<lambda>_. []" 0] by auto
  obtain frames sent where f: "stream_initial (\<lambda>_. []) 0 new_hub s s2 sample_key 0 = (frames, sent)" by fastforce
  have k: "kr_project_key sample_key = ''p''" "kr_env_key sample_key = ''prod''" by (simp_all add: sample_key_def)
  have r: "replay (new_hub :: snapshot hub) (kr_env_key sample_key) 0 = None \<or>
      replay (new_hub :: snapshot hub) (kr_env_key sample_key) 0 = Some []"
    by (simp add: replay_def new_hub_def)
  from stream_version_race [OF r _ _ f, unfolded k, OF old(1) s(1)] old f show ?thesis by blast
qed

section \<open>Projects share their channels\<close>


definition foreign_sub :: "snapshot hub_op list" where
  "foreign_sub = [Subscribe 0 ''prod'' ''other'' ''k'' []]"

lemma foreign_sub_chan:
  "chan_of (hub_run foreign_sub) ''sub-1'' = [] \<and>
   (\<exists>sub. mget (subs_of (hub_run foreign_sub) ''prod'') ''sub-1'' = Some sub \<and> sb_project_key sub = ''other'')"
proof -
  note d = itoa_one
  show ?thesis by (simp add: foreign_sub_def hub_run_def subscribe_def Let_def new_hub_def ensure_env_def subs_of_def
      chan_of_def wrap64_def d)
qed


end
