(* ===== verification/SdkClient.thy ===== *)
theory SdkClient
  imports Streaming
begin

text \<open>
  The Go SDK, \<open>sdk/go/pennant/client.go\<close>, and the text of the event stream it reads, which
  \<open>sdkStream\<close> of \<open>internal/api/server.go\<close> writes.

  A client is its snapshot and whether its channel \<open>ready\<close> is closed. Decoding a snapshot or a delta
  from text is a parameter of the event handler. The lemmas show that the text of a stream is read back
  as the events it was written from, as long as no line reaches the scanner's limit, and that a client
  evaluates flags as the server does.
\<close>

section \<open>The stream's text\<close>

text \<open>\<open>json.Marshal\<close>: members in the order of the struct's fields, the keys of a map sorted.\<close>

fun json_text :: "(rat \<Rightarrow> string) \<Rightarrow> json \<Rightarrow> string" where
  "json_text num JNull = ''null''"
| "json_text num (JBool b) = (if b then ''true'' else ''false'')"
| "json_text num (JNum q) = num q"
| "json_text num (JStr s) = json_string s"
| "json_text num (JArr js) = CHR ''['' # join_comma (map (json_text num) js) @ '']''"
| "json_text num (JObj ms) =
     CHR ''{'' # join_comma (map (\<lambda>(k, j). json_string k @ CHR '':'' # json_text num j) ms) @ ''}''"

definition sorted_map :: "('v \<Rightarrow> json) \<Rightarrow> 'v gomap \<Rightarrow> json" where
  "sorted_map enc m = JObj (map (\<lambda>(k, v). (k, enc v)) (sort_key fst m))"

text \<open>\<open>time\<close> is \<open>Time.MarshalJSON\<close> without its quotes.\<close>

definition snapshot_json :: "(int \<Rightarrow> string) \<Rightarrow> snapshot \<Rightarrow> json" where
  "snapshot_json time sn = JObj [(''environment_key'', JStr (sn_environment_key sn)),
     (''project_key'', JStr (sn_project_key sn)), (''version'', jint (sn_version sn)),
     (''flags'', sorted_map resolved_json (sn_flags sn)),
     (''segments'', sorted_map segment_json (sn_segments sn)),
     (''checksum'', JStr (sn_checksum sn)), (''published_at'', JStr (time (sn_published_at sn)))]"

definition newline :: char where
  "newline = char_of (10 :: nat)"

text \<open>\<open>id: %d\nevent: %s\ndata: %s\n\n\<close>; a nil \<open>Data\<close> is marshalled as \<open>null\<close>.\<close>

definition frame_text :: "('d \<Rightarrow> string) \<Rightarrow> 'd frame \<Rightarrow> string" where
  "frame_text enc fr =
     ''id: '' @ itoa (fr_id fr) @ newline # ''event: '' @ fr_event fr @ newline #
     ''data: '' @ (case fr_data fr of None \<Rightarrow> ''null'' | Some d \<Rightarrow> enc d) @ [newline, newline]"

definition stream_text :: "('d \<Rightarrow> string) \<Rightarrow> 'd frame list \<Rightarrow> string" where
  "stream_text enc frs = concat (map (frame_text enc) frs)"

section \<open>The scanner\<close>

text \<open>\<open>bufio.Scanner\<close> with \<open>ScanLines\<close> and the default buffer: a line's final \<open>\r\<close> is dropped, and a line
  that does not fit, with its newline, into 64 KiB ends the scan with \<open>ErrTooLong\<close> (\<open>False\<close>).\<close>

definition drop_cr :: "string \<Rightarrow> string" where
  "drop_cr l = (if l \<noteq> [] \<and> last l = char_of (13 :: nat) then butlast l else l)"

definition max_token :: nat where
  "max_token = 64 * 1024"

function scan_lines :: "string \<Rightarrow> string list \<times> bool" where
  "scan_lines s =
     (if s = [] then ([], True)
      else let l = takeWhile (\<lambda>c. c \<noteq> newline) s
           in if max_token \<le> length l then ([], False)
              else (case dropWhile (\<lambda>c. c \<noteq> newline) s of
                      [] \<Rightarrow> ([drop_cr l], True)
                    | _ # rest \<Rightarrow> (case scan_lines rest of (ls, fine) \<Rightarrow> (drop_cr l # ls, fine))))"
  by pat_completeness auto
termination
proof (relation "measure length", goal_cases)
  case (2 s l x rest)
  then have "length (x # rest) \<le> length s" by (metis length_dropWhile_le)
  then show ?case by simp
qed simp

text \<open>\<open>strings.TrimSpace\<close>: the UTF-8 encodings of the characters that \<open>unicode.IsSpace\<close> accepts.\<close>

definition spaces :: "string list" where
  "spaces = map (map (char_of :: nat \<Rightarrow> char))
     ([[9], [10], [11], [12], [13], [32], [194, 133], [194, 160], [225, 154, 128]] @
      map (\<lambda>i. [226, 128, 128 + i]) [0..<11] @
      [[226, 128, 168], [226, 128, 169], [226, 128, 175], [226, 129, 159], [227, 128, 128]])"

function trim_front :: "string list \<Rightarrow> string \<Rightarrow> string" where
  "trim_front ws s =
     (case find (\<lambda>w. w \<noteq> [] \<and> take (length w) s = w) ws of
        None \<Rightarrow> s | Some w \<Rightarrow> trim_front ws (drop (length w) s))"
  by pat_completeness auto
termination
proof (relation "measure (\<lambda>(ws, s). length s)", goal_cases)
  case (2 ws s w)
  then have "w \<noteq> []" "take (length w) s = w" by (auto simp: find_Some_iff)
  then show ?case by (cases s) auto
qed simp

definition trim_space :: "string \<Rightarrow> string" where
  "trim_space s = rev (trim_front (map rev spaces) (rev (trim_front spaces s)))"

declare scan_lines.simps [simp del] trim_front.simps [simp del]

section \<open>The client\<close>

record client =
  cl_snap :: "snapshot option"
  cl_ready :: bool

definition new_client :: client where
  "new_client = \<lparr>cl_snap = None, cl_ready = False\<rparr>"

record decoders =
  dec_snapshot :: "string \<Rightarrow> snapshot option"
  dec_delta :: "string \<Rightarrow> delta option"

definition handle_event :: "decoders \<Rightarrow> client \<Rightarrow> string \<Rightarrow> string \<Rightarrow> client" where
  "handle_event D c event data =
     (if event = ''put'' then
        (case dec_snapshot D data of None \<Rightarrow> c | Some sn \<Rightarrow> c\<lparr>cl_snap := Some sn, cl_ready := True\<rparr>)
      else if event = ''patch'' then
        (case dec_delta D data of None \<Rightarrow> c
         | Some d \<Rightarrow>
             (case cl_snap c of None \<Rightarrow> c
              | Some current \<Rightarrow> c\<lparr>cl_snap := Some (apply_delta current d), cl_ready := True\<rparr>))
      else c)"

definition has_prefix :: "string \<Rightarrow> string \<Rightarrow> bool" where
  "has_prefix p s \<longleftrightarrow> take (length p) s = p"

fun parse_lines :: "decoders \<Rightarrow> string \<Rightarrow> string \<Rightarrow> string list \<Rightarrow> client \<Rightarrow> client" where
  "parse_lines D event data [] c = c"
| "parse_lines D event data (l # ls) c =
     (if l = [] then
        parse_lines D [] [] ls (if event \<noteq> [] \<and> data \<noteq> [] then handle_event D c event data else c)
      else if has_prefix ''event:'' l then parse_lines D (trim_space (drop 6 l)) data ls c
      else if has_prefix ''data:'' l then parse_lines D event (trim_space (drop 5 l)) ls c
      else parse_lines D event data ls c)"

text \<open>The client after the stream has ended and whether it ended without an error.\<close>

definition parse_sse :: "decoders \<Rightarrow> client \<Rightarrow> string \<Rightarrow> client \<times> bool" where
  "parse_sse D c body = (case scan_lines body of (ls, fine) \<Rightarrow> (parse_lines D [] [] ls c, fine))"

text \<open>The headers of a connection.\<close>

definition last_event_id :: "client \<Rightarrow> string option" where
  "last_event_id c = map_option (\<lambda>sn. itoa (sn_version sn)) (cl_snap c)"

text \<open>The wait before the next attempt and the one after it, in nanoseconds.\<close>

definition second :: int where
  "second = 1000000000"

definition next_backoff :: "int \<Rightarrow> int" where
  "next_backoff b =
     (case min (float_of_int (wrap64 (b * 2))) (float_of_int (30 * second)) of Fin q \<Rightarrow> \<lfloor>q\<rfloor> | _ \<Rightarrow> 0)"

fun stream_waits :: "int \<Rightarrow> bool list \<Rightarrow> int list" where
  "stream_waits b [] = []"
| "stream_waits b (clean # cs) =
     (let b' = (if clean then second else b) in b' # stream_waits (next_backoff b') cs)"

subsection \<open>Evaluation\<close>

definition client_evaluate ::
    "libs \<Rightarrow> nat \<Rightarrow> client \<Rightarrow> string \<Rightarrow> eval_context \<Rightarrow> eval_result option" where
  "client_evaluate L n c k ctx =
     (case cl_snap c of None \<Rightarrow> Some (None, ANil, error_reason ErrClientNotReady)
      | Some sn \<Rightarrow>
          (case es_flag (snapshot_store sn) k of
             None \<Rightarrow> Some (None, ANil, error_reason ErrFlagNotFound)
           | Some (f, cfg) \<Rightarrow> evaluate L (snapshot_store sn) n ctx f cfg))"

text \<open>\<open>evalFlag\<close>: index, value and whether the flag was found.\<close>

definition client_eval_flag ::
    "libs \<Rightarrow> nat \<Rightarrow> client \<Rightarrow> string \<Rightarrow> eval_context \<Rightarrow> (int option \<times> any \<times> bool) option" where
  "client_eval_flag L n c k ctx =
     (case cl_snap c of None \<Rightarrow> Some (None, ANil, False)
      | Some sn \<Rightarrow>
          (case es_flag (snapshot_store sn) k of None \<Rightarrow> Some (None, ANil, False)
           | Some (f, cfg) \<Rightarrow>
               map_option (\<lambda>(idx, v, _). (idx, v, True)) (evaluate L (snapshot_store sn) n ctx f cfg)))"

definition bool_variation ::
    "libs \<Rightarrow> nat \<Rightarrow> client \<Rightarrow> string \<Rightarrow> eval_context \<Rightarrow> bool \<Rightarrow> bool option" where
  "bool_variation L n c k ctx d =
     map_option (\<lambda>(idx, v, ready). if \<not> ready \<or> idx = None then d else case v of ABool b \<Rightarrow> b | _ \<Rightarrow> d)
       (client_eval_flag L n c k ctx)"

definition string_variation ::
    "libs \<Rightarrow> nat \<Rightarrow> client \<Rightarrow> string \<Rightarrow> eval_context \<Rightarrow> string \<Rightarrow> string option" where
  "string_variation L n c k ctx d =
     map_option (\<lambda>(idx, v, ready). if \<not> ready \<or> idx = None then d else case v of AStr s \<Rightarrow> s | _ \<Rightarrow> d)
       (client_eval_flag L n c k ctx)"

definition float64_variation ::
    "libs \<Rightarrow> nat \<Rightarrow> client \<Rightarrow> string \<Rightarrow> eval_context \<Rightarrow> float64 \<Rightarrow> float64 option" where
  "float64_variation L n c k ctx d =
     map_option (\<lambda>(idx, v, ready). if \<not> ready \<or> idx = None then d else case v of AFloat q \<Rightarrow> q | _ \<Rightarrow> d)
       (client_eval_flag L n c k ctx)"

text \<open>\<open>JSONVariation\<close>: \<open>into\<close> marshals the value and unmarshals it into the caller's target.\<close>

definition json_variation ::
    "libs \<Rightarrow> nat \<Rightarrow> (any \<Rightarrow> 'e + 'a) \<Rightarrow> client \<Rightarrow> string \<Rightarrow> eval_context \<Rightarrow> ('e option + 'a) option" where
  "json_variation L n into c k ctx =
     map_option (\<lambda>(idx, v, ready). if \<not> ready \<or> idx = None then Inl None else map_sum Some id (into v))
       (client_eval_flag L n c k ctx)"

section \<open>The text of a document is one line\<close>

definition printable :: "string \<Rightarrow> bool" where
  "printable s \<longleftrightarrow> (\<forall>c \<in> set s. 32 \<le> byte c)"

lemma printable_simps [simp]:
  "printable []"
  "printable (c # s) \<longleftrightarrow> 32 \<le> byte c \<and> printable s"
  "printable (s @ t) \<longleftrightarrow> printable s \<and> printable t"
  by (auto simp: printable_def)

lemma printable_rest: "printable s \<Longrightarrow> printable (tl s)" "printable s \<Longrightarrow> printable (drop n s)"
  by (auto simp: printable_def dest: in_set_dropD list.set_sel(2) [rotated], cases s, auto)

lemma join_comma_printable: "(\<And>x. x \<in> set xs \<Longrightarrow> printable x) \<Longrightarrow> printable (join_comma xs)"
  by (induction xs rule: join_comma.induct) (auto simp: byte_def)

lemma utf8_take_printable: "1 < utf8_len (map byte s) \<Longrightarrow> printable (take (utf8_len (map byte s)) s)"
  by (auto simp: utf8_len_def cont_def printable_def numeral_eq_Suc map_eq_Cons_conv split: list.splits if_splits)

lemma byte_char_of [simp]: "byte (char_of (n :: nat)) = int (n mod 256)"
proof -
  have "byte (char_of n) = int (of_char (char_of n))" by (simp only: byte_def of_nat_of_char)
  then show ?thesis by simp
qed

lemma byte_hex: "0 \<le> d \<Longrightarrow> d < 16 \<Longrightarrow> 32 \<le> byte (hex_char d)"
  by (auto simp: hex_char_def byte_def)

lemma byte_range: "0 \<le> byte c" "byte c < 256"
proof -
  have "byte c = int (of_char c mod 256)" using byte_char_of [of "of_char c"] by simp
  then show "0 \<le> byte c" "byte c < 256" by simp_all
qed

lemma escape_ascii_printable: "printable (escape_ascii c)"
proof -
  have "0 \<le> byte c div 16" "byte c div 16 < 16" "0 \<le> byte c mod 16" "byte c mod 16 < 16" using byte_range [of c] by auto
  moreover have "32 \<le> byte (char_of (92 :: nat))" "32 \<le> byte CHR ''u''" "32 \<le> byte CHR ''0''" "32 \<le> byte CHR ''b''"
    "32 \<le> byte CHR ''f''" "32 \<le> byte CHR ''n''" "32 \<le> byte CHR ''r''" "32 \<le> byte CHR ''t''"
    by simp (simp_all add: byte_def)
  moreover have "32 \<le> byte (hex_char (byte c div 16))" "32 \<le> byte (hex_char (byte c mod 16))"
    using calculation(1-4) by (simp_all only: byte_hex)
  ultimately show ?thesis by (simp add: escape_ascii_def Let_def del: byte_char_of)
qed

lemma escape_go_printable: "printable (escape_go n s)"
proof (induction n s rule: escape_go.induct)
  case (2 n s)
  have k: "utf8_len (map byte s) \<noteq> 0 \<Longrightarrow> utf8_len (map byte s) \<noteq> 1 \<Longrightarrow>
      printable (take (utf8_len (map byte s)) s)"
    using utf8_take_printable [of s] by linarith
  have "32 \<le> byte (char_of (92 :: nat))" "printable ''ufffd''" "printable ''u2028''" "printable ''u2029''"
    by simp (simp_all add: byte_def)
  with 2 k show ?case by (simp add: Let_def escape_ascii_printable)
qed simp

lemma json_string_printable: "printable (json_string s)"
  by (simp add: json_string_def escape_go_printable byte_def)

lemma json_text_printable: "(\<And>q. printable (num q)) \<Longrightarrow> printable (json_text num j)"
proof (induction num j rule: json_text.induct)
  case (6 num ms)
  have "printable (join_comma (map (\<lambda>(k, j). json_string k @ CHR '':'' # json_text num j) ms))"
    using 6 by (intro join_comma_printable) (auto simp: json_string_printable byte_def)
  then show ?case by (simp add: byte_def)
qed (auto simp: json_string_printable byte_def intro!: join_comma_printable)

lemma printable_no_newline: "printable s \<Longrightarrow> newline \<notin> set s"
  by (force simp: printable_def newline_def)

section \<open>Reading lines back\<close>

lemma scan_line:
  assumes "newline \<notin> set l" "length l < max_token"
  shows "scan_lines (l @ newline # rest) = (case scan_lines rest of (ls, fine) \<Rightarrow> (drop_cr l # ls, fine))"
proof -
  have "takeWhile (\<lambda>c. c \<noteq> newline) (l @ newline # rest) = l" "dropWhile (\<lambda>c. c \<noteq> newline) (l @ newline # rest) = newline # rest"
    using assms(1) by (metis (mono_tags, lifting) takeWhile_append2 append_Nil2 takeWhile.simps(2),
      metis (mono_tags, lifting) dropWhile_append2 dropWhile.simps(2))
  then show ?thesis using assms(2) by (subst scan_lines.simps) simp
qed

lemma scan_too_long:
  assumes "newline \<notin> set l" "max_token \<le> length l"
  shows "scan_lines (l @ newline # rest) = ([], False)"
proof -
  have "takeWhile (\<lambda>c. c \<noteq> newline) (l @ newline # rest) = l" using assms(1)
    by (metis (mono_tags, lifting) takeWhile_append2 append_Nil2 takeWhile.simps(2))
  then show ?thesis using assms(2) by (subst scan_lines.simps) simp
qed

lemma spaces_literal:
  "spaces = [[CHR 0x09], [CHR 0x0A], [CHR 0x0B], [CHR 0x0C], [CHR 0x0D], [CHR 0x20], [CHR 0xC2, CHR 0x85],
     [CHR 0xC2, CHR 0xA0], [CHR 0xE1, CHR 0x9A, CHR 0x80]] @
     map (\<lambda>c. [CHR 0xE2, CHR 0x80, c]) [CHR 0x80, CHR 0x81, CHR 0x82, CHR 0x83, CHR 0x84, CHR 0x85,
       CHR 0x86, CHR 0x87, CHR 0x88, CHR 0x89, CHR 0x8A, CHR 0xA8, CHR 0xA9, CHR 0xAF] @
     [[CHR 0xE2, CHR 0x81, CHR 0x9F], [CHR 0xE3, CHR 0x80, CHR 0x80]]"
  by code_simp

lemma trim_front_space: "trim_front spaces (CHR '' '' # s) = trim_front spaces s"
  by (subst trim_front.simps) (simp add: spaces_literal)

lemma trim_front_stop:
  "c \<notin> {CHR 0x09, CHR 0x0A, CHR 0x0B, CHR 0x0C, CHR 0x0D, CHR 0x20, CHR 0xC2, CHR 0xE1, CHR 0xE2, CHR 0xE3} \<Longrightarrow>
   trim_front spaces (c # s) = c # s"
  by (subst trim_front.simps) (simp add: spaces_literal)

lemma trim_back_stop:
  "c \<in> {CHR 0x22, CHR 0x5D, CHR 0x7D} \<Longrightarrow> trim_front (map rev spaces) (c # s) = c # s"
proof -
  have "\<forall>w \<in> set (map rev spaces). w \<noteq> [] \<longrightarrow> hd w \<notin> {CHR 0x22, CHR 0x5D, CHR 0x7D}"
    unfolding spaces_literal by code_simp
  moreover assume "c \<in> {CHR 0x22, CHR 0x5D, CHR 0x7D}"
  ultimately have "find (\<lambda>w. w \<noteq> [] \<and> take (length w) (c # s) = w) (map rev spaces) = None"
    unfolding find_None_iff by (metis length_0_conv list.sel(1) take_Cons' )
  then show ?thesis by (subst trim_front.simps) simp
qed

text \<open>A text that survives as the rest of a line: printable, not empty, and trimmed already.\<close>

definition tidy :: "string \<Rightarrow> bool" where
  "tidy s \<longleftrightarrow> s \<noteq> [] \<and> printable s \<and> trim_space s = s"

lemma trim_after_space: "tidy s \<Longrightarrow> trim_space (CHR '' '' # s) = s"
  by (simp add: tidy_def trim_space_def trim_front_space)

lemma printable_object: "printable t \<Longrightarrow> tidy (CHR ''{'' # t @ ''}'')"
proof -
  assume "printable t"
  moreover have "trim_front spaces (CHR ''{'' # t @ ''}'') = CHR ''{'' # t @ ''}''" by (rule trim_front_stop) simp
  moreover have "trim_front (map rev spaces) (CHR ''}'' # rev t @ ''{'') = CHR ''}'' # rev t @ ''{''" by (rule trim_back_stop) simp
  ultimately show ?thesis by (simp add: tidy_def trim_space_def byte_def)
qed

lemma drop_cr_printable: "printable l \<Longrightarrow> drop_cr l = l"
  by (cases l rule: rev_cases) (auto simp: drop_cr_def)

lemma scan_printable:
  "printable l \<Longrightarrow> length l < max_token \<Longrightarrow>
   scan_lines (l @ newline # rest) = (case scan_lines rest of (ls, fine) \<Rightarrow> (l # ls, fine))"
  using scan_line [OF printable_no_newline] by (simp add: drop_cr_printable)

lemma nat_digits_length: "n < 10 ^ k \<Longrightarrow> 0 < k \<Longrightarrow> length (nat_digits n) \<le> k"
proof (induction n arbitrary: k rule: nat_digits.induct)
  case (1 n)
  show ?case
  proof (cases "n < 10")
    case False
    then obtain k' where k: "k = Suc k'" "0 < k'" using 1(2,3) by (cases k; cases "k - 1") auto
    then have "n div 10 < 10 ^ k'" using 1(2) by (simp add: less_mult_imp_div_less mult.commute)
    from 1(1) [OF False this k(2)] False k show ?thesis by (subst nat_digits.simps) simp
  qed (use 1(3) in \<open>simp add: nat_digits.simps\<close>)
qed

lemma itoa_length: "int64_range i \<Longrightarrow> length (itoa i) \<le> 20"
proof -
  assume "int64_range i"
  then have "\<bar>i\<bar> < 10 ^ 19" by (simp add: int64_range_def abs_if)
  then have "nat \<bar>i\<bar> < 10 ^ 19" by (simp add: nat_less_iff)
  then have "length (nat_digits (nat \<bar>i\<bar>)) \<le> 19" by (rule nat_digits_length) simp
  then show ?thesis by (simp add: itoa_def abs_if split: if_splits)
qed

lemma nat_digits_printable: "printable (nat_digits n)"
proof (induction n rule: nat_digits.induct)
  case (1 n)
  then show ?case by (subst nat_digits.simps) (auto simp: digit_char_def)
qed

lemma itoa_printable: "printable (itoa i)"
  using nat_digits_printable by (simp add: itoa_def byte_def)

definition data_text :: "('d \<Rightarrow> string) \<Rightarrow> 'd frame \<Rightarrow> string" where
  "data_text enc fr = (case fr_data fr of None \<Rightarrow> ''null'' | Some d \<Rightarrow> enc d)"

text \<open>A frame each of whose lines the scanner can take.\<close>

definition frame_fits :: "('d \<Rightarrow> string) \<Rightarrow> 'd frame \<Rightarrow> bool" where
  "frame_fits enc fr \<longleftrightarrow> int64_range (fr_id fr) \<and> tidy (fr_event fr) \<and> length (fr_event fr) < 65529 \<and>
     tidy (data_text enc fr) \<and> length (data_text enc fr) < 65530"

lemma scan_frame:
  assumes "frame_fits enc fr"
  shows "scan_lines (frame_text enc fr @ rest) =
    (case scan_lines rest of (ls, fine) \<Rightarrow>
       ((''id: '' @ itoa (fr_id fr)) # (''event: '' @ fr_event fr) # (''data: '' @ data_text enc fr) # [] # ls, fine))"
proof -
  let ?i = "''id: '' @ itoa (fr_id fr)" and ?e = "''event: '' @ fr_event fr" and ?d = "''data: '' @ data_text enc fr"
  have t: "frame_text enc fr @ rest = ?i @ newline # ?e @ newline # ?d @ newline # [] @ newline # rest"
    by (simp add: frame_text_def data_text_def)
  have p: "printable ?i" "printable ?e" "printable ?d" "printable []"
    using assms itoa_printable by (simp_all add: frame_fits_def tidy_def byte_def)
  have n: "length ?i < max_token" "length ?e < max_token" "length ?d < max_token" "length ([] :: string) < max_token"
    using assms itoa_length [of "fr_id fr"] by (simp_all add: frame_fits_def max_token_def)
  show ?thesis unfolding t scan_printable [OF p(1) n(1)] scan_printable [OF p(2) n(2)] scan_printable [OF p(3) n(3)]
      scan_printable [OF p(4) n(4)] by (simp split: prod.split)
qed

lemma parse_frame:
  assumes "frame_fits enc fr"
  shows "parse_lines D [] [] ((''id: '' @ itoa (fr_id fr)) # (''event: '' @ fr_event fr) # (''data: '' @ data_text enc fr) # [] # ls) c =
    parse_lines D [] [] ls (handle_event D c (fr_event fr) (data_text enc fr))"
  using assms by (simp add: frame_fits_def has_prefix_def trim_after_space) (simp add: tidy_def)

lemma scan_empty [simp]: "scan_lines [] = ([], True)"
  by (subst scan_lines.simps) simp

definition handled :: "decoders \<Rightarrow> ('d \<Rightarrow> string) \<Rightarrow> client \<Rightarrow> 'd frame list \<Rightarrow> client" where
  "handled D enc c frs = foldl (\<lambda>c fr. handle_event D c (fr_event fr) (data_text enc fr)) c frs"

lemma parse_stream:
  "\<forall>fr \<in> set frs. frame_fits enc fr \<Longrightarrow> parse_sse D c (stream_text enc frs) = (handled D enc c frs, True)"
proof (induction frs arbitrary: c)
  case Nil
  then show ?case by (simp add: parse_sse_def stream_text_def handled_def)
next
  case (Cons fr frs)
  have fit: "frame_fits enc fr" using Cons.prems by simp
  obtain ls fine where ls: "scan_lines (stream_text enc frs) = (ls, fine)" by fastforce
  have "stream_text enc (fr # frs) = frame_text enc fr @ stream_text enc frs" by (simp add: stream_text_def)
  then have "parse_sse D c (stream_text enc (fr # frs)) =
      (parse_lines D [] [] ls (handle_event D c (fr_event fr) (data_text enc fr)), fine)"
    by (simp only: parse_sse_def scan_frame [OF fit] ls prod.case parse_frame [OF fit])
  also have "\<dots> = parse_sse D (handle_event D c (fr_event fr) (data_text enc fr)) (stream_text enc frs)"
    by (simp add: parse_sse_def ls)
  finally show ?case using Cons by (simp add: handled_def)
qed

text \<open>
  C20. The stream's text is read back exactly: if every frame's event and data are printable and
  trimmed and fit the scanner's buffer, the client handles precisely the events that were written, each
  once and in order, and the stream ends without an error.
\<close>

theorem sse_round_trip:
  assumes "\<forall>fr \<in> set frs. frame_fits enc fr"
  shows "parse_sse D c (stream_text enc frs) =
    (foldl (\<lambda>c fr. handle_event D c (fr_event fr) (data_text enc fr)) c frs, True)"
  using parse_stream [OF assms] by (simp add: handled_def)

text \<open>
  A snapshot whose text is 64 KiB or longer never arrives: the scanner gives up on its line, the
  client handles neither that event nor any after it, keeps the snapshot it had (none, if it is new) and
  reconnects, to be sent the same snapshot again.
\<close>

theorem oversized_snapshot_never_arrives:
  assumes "printable (fr_event fr)" "length (fr_event fr) < 65529" "int64_range (fr_id fr)"
    and "printable (data_text enc fr)" "64 * 1024 \<le> length (data_text enc fr)"
  shows "parse_sse D c (stream_text enc (fr # frs)) = (c, False)"
proof -
  let ?i = "''id: '' @ itoa (fr_id fr)" and ?e = "''event: '' @ fr_event fr" and ?d = "''data: '' @ data_text enc fr"
  let ?rest = "newline # stream_text enc frs"
  have t: "stream_text enc (fr # frs) = ?i @ newline # ?e @ newline # ?d @ newline # ?rest"
    by (simp add: stream_text_def frame_text_def data_text_def)
  have p: "printable ?i" "printable ?e" "printable ?d" using assms(1,4) itoa_printable by (simp_all add: byte_def)
  have n: "length ?i < max_token" "length ?e < max_token" "max_token \<le> length ?d"
    using assms(2,5) itoa_length [OF assms(3)] by (simp_all add: max_token_def)
  have "scan_lines (stream_text enc (fr # frs)) = ([?i, ?e], False)"
    unfolding t scan_printable [OF p(1) n(1)] scan_printable [OF p(2) n(2)]
      scan_too_long [OF printable_no_newline [OF p(3)] n(3)] by simp
  then show ?thesis by (simp add: parse_sse_def has_prefix_def)
qed

section \<open>From the server to the client\<close>

text \<open>What \<open>sdkStream\<close> writes for a snapshot.\<close>

definition put_text :: "(rat \<Rightarrow> string) \<Rightarrow> (int \<Rightarrow> string) \<Rightarrow> snapshot \<Rightarrow> string" where
  "put_text num time sn = json_text num (snapshot_json time sn)"

lemma put_text_tidy: "(\<And>q. printable (num q)) \<Longrightarrow> tidy (put_text num time sn)"
proof -
  assume num: "\<And>q. printable (num q)"
  obtain ms where ms: "snapshot_json time sn = JObj ms" by (simp add: snapshot_json_def)
  have "printable (join_comma (map (\<lambda>(k, j). json_string k @ CHR '':'' # json_text num j) ms))"
    using json_text_printable [of num, OF num]
    by (intro join_comma_printable) (auto simp: json_string_printable byte_def)
  then show ?thesis unfolding put_text_def ms json_text.simps by (rule printable_object)
qed

lemma put_tidy: "tidy ''put''"
proof -
  have "trim_front spaces ''put'' = ''put''" by (rule trim_front_stop) simp
  moreover have "trim_front (map rev spaces) ''tup'' = ''tup''" by code_simp
  ultimately show ?thesis by (simp add: tidy_def trim_space_def byte_def)
qed

text \<open>A message that publishes a snapshot the client can read and decode.\<close>

definition readable :: "decoders \<Rightarrow> (snapshot \<Rightarrow> string) \<Rightarrow> snapshot message \<Rightarrow> bool" where
  "readable D enc m \<longleftrightarrow> msg_event m = ''put'' \<and> int64_range (msg_version m) \<and>
     (\<exists>sn. msg_data m = Some sn \<and> dec_snapshot D (enc sn) = Some sn \<and> length (enc sn) < 65530)"

lemma readable_fits:
  "readable D enc m \<Longrightarrow> (\<And>sn. tidy (enc sn)) \<Longrightarrow> frame_fits enc (frame_of m)"
  by (auto simp: readable_def frame_fits_def frame_of_def data_text_def put_tidy)

lemma handled_readable:
  "\<forall>m \<in> set ms. readable D enc m \<Longrightarrow> ms \<noteq> [] \<Longrightarrow>
   handled D enc c (map frame_of ms) = c\<lparr>cl_snap := msg_data (last ms), cl_ready := True\<rparr>"
proof (induction ms rule: rev_induct)
  case (snoc m ms)
  obtain sn where sn: "msg_event m = ''put''" "msg_data m = Some sn" "dec_snapshot D (enc sn) = Some sn"
    using snoc.prems(1) by (auto simp: readable_def)
  have "handled D enc c (map frame_of (ms @ [m])) = handle_event D (handled D enc c (map frame_of ms)) ''put'' (enc sn)"
    using sn by (simp add: handled_def frame_of_def data_text_def)
  also have "\<dots> = (handled D enc c (map frame_of ms))\<lparr>cl_snap := Some sn, cl_ready := True\<rparr>"
    using sn(3) by (simp add: handle_event_def)
  also have "\<dots> = c\<lparr>cl_snap := Some sn, cl_ready := True\<rparr>"
    using snoc by (cases "ms = []") (auto simp: handled_def)
  finally show ?case using sn(2) by simp
qed simp


lemma sse_round_trip_witness:
  "parse_sse \<lparr>dec_snapshot = (\<lambda>_. Some (sample_snapshot 3 [])), dec_delta = (\<lambda>_. None)\<rparr> new_client
     (stream_text (\<lambda>_ :: int. ''{}'') [\<lparr>fr_id = 7, fr_event = ''put'', fr_data = Some 0\<rparr>]) =
   (\<lparr>cl_snap = Some (sample_snapshot 3 []), cl_ready = True\<rparr>, True)"
proof -
  have "tidy ''{}''" using printable_object [of "[]"] by simp
  then have "\<forall>fr \<in> set [\<lparr>fr_id = 7, fr_event = ''put'', fr_data = Some (0 :: int)\<rparr>]. frame_fits (\<lambda>_. ''{}'') fr"
    using put_tidy by (simp add: frame_fits_def data_text_def int64_range_def)
  from sse_round_trip [OF this] show ?thesis by (simp add: handle_event_def new_client_def)
qed

lemma oversized_snapshot_never_arrives_witness:
  "parse_sse \<lparr>dec_snapshot = (\<lambda>_. Some (sample_snapshot 3 [])), dec_delta = (\<lambda>_. None)\<rparr> new_client
     (stream_text (\<lambda>_. replicate 65536 CHR ''x'') [\<lparr>fr_id = 7, fr_event = ''put'', fr_data = Some (0 :: int)\<rparr>]) =
   (new_client, False)"
  by (rule oversized_snapshot_never_arrives)
    (auto simp: data_text_def int64_range_def printable_def byte_def)

lemma escape_ascii_length: "length (escape_ascii c) \<le> 6"
  by (simp add: escape_ascii_def Let_def)

lemma escape_go_length: "length (escape_go n s) \<le> 6 * length s"
proof (induction n s rule: escape_go.induct)
  case (2 n s)
  let ?n = "utf8_len (map byte s)"
  show ?case
  proof (cases s)
    case (Cons c r)
    have d: "length (take ?n s) + 6 * length (drop ?n s) \<le> 6 * length s" "?n \<noteq> 0 \<Longrightarrow> length (drop ?n s) \<le> length r"
      by (simp_all add: Cons)
    show ?thesis using 2 d escape_ascii_length [of c] by (auto simp: Let_def Cons)
  qed simp
qed simp

lemma json_string_length: "length (json_string s) \<le> 6 * length s + 2"
  using escape_go_length [of "length s" s] by (simp add: json_string_def)

text \<open>The text of a snapshot without flags and segments.\<close>

lemma put_text_small:
  assumes "sn_flags sn = []" "sn_segments sn = []"
  shows "length (put_text (\<lambda>_. ''0'') (\<lambda>_. ''t'') sn) \<le>
    1000 + 6 * (length (sn_environment_key sn) + length (sn_project_key sn) + length (sn_checksum sn))"
proof -
  note l = json_string_length
  show ?thesis
    using l [of "''environment_key''"] l [of "''project_key''"] l [of "''version''"] l [of "''flags''"]
      l [of "''segments''"] l [of "''checksum''"] l [of "''published_at''"] l [of "''t''"]
      l [of "sn_environment_key sn"] l [of "sn_project_key sn"] l [of "sn_checksum sn"]
    by (simp add: put_text_def snapshot_json_def sorted_map_def jint_def assms)
qed

lemma itoa_three: "itoa 3 = ''3''"
  by code_simp

definition tiny_message :: "int \<Rightarrow> snapshot message" where
  "tiny_message v = put_message v (sample_snapshot v [])"


section \<open>Readiness and the typed variations\<close>

lemma handle_event_ready:
  "(cl_ready c \<longleftrightarrow> cl_snap c \<noteq> None) \<Longrightarrow>
   cl_ready (handle_event D c e d) \<longleftrightarrow> cl_snap (handle_event D c e d) \<noteq> None"
  by (auto simp: handle_event_def split: option.splits)

lemma parse_lines_ready:
  "(cl_ready c \<longleftrightarrow> cl_snap c \<noteq> None) \<Longrightarrow>
   cl_ready (parse_lines D e d ls c) \<longleftrightarrow> cl_snap (parse_lines D e d ls c) \<noteq> None"
proof (induction D e d ls c rule: parse_lines.induct)
  case (2 D e d l ls c)
  have "cl_ready (if e \<noteq> [] \<and> d \<noteq> [] then handle_event D c e d else c) \<longleftrightarrow>
      cl_snap (if e \<noteq> [] \<and> d \<noteq> [] then handle_event D c e d else c) \<noteq> None"
    using handle_event_ready [OF 2(5)] 2(5) by simp
  with 2 show ?case by (auto simp del: not_None_eq split: if_splits)
qed simp

lemma parse_sse_ready:
  "(cl_ready c \<longleftrightarrow> cl_snap c \<noteq> None) \<Longrightarrow>
   cl_ready (fst (parse_sse D c body)) \<longleftrightarrow> cl_snap (fst (parse_sse D c body)) \<noteq> None"
  using parse_lines_ready by (simp add: parse_sse_def split: prod.split)

lemma typed_variation:
  "map_option (\<lambda>(idx, v, ready). if \<not> ready \<or> idx = None then d else g v) (client_eval_flag L n c k ctx) =
   map_option (\<lambda>(idx, v, _). if idx = None then d else g v) (client_evaluate L n c k ctx)"
proof (cases "cl_snap c")
  case (Some sn)
  then show ?thesis
    by (cases "es_flag (snapshot_store sn) k")
      (auto simp: client_eval_flag_def client_evaluate_def option.map_comp comp_def case_prod_beta intro!: option.map_cong)
qed (simp add: client_eval_flag_def client_evaluate_def)

text \<open>
  C22. The client is ready exactly when it has a snapshot, whatever the servers it has been connected to
  sent it, and until then every variation is the caller's default; afterwards a variation is the value
  that the detailed evaluation gives, if it has an index and is of the asked type, and the default otherwise.
\<close>

theorem variations_follow_detail:
  fixes D bodies
  defines "c \<equiv> foldl (\<lambda>c body. fst (parse_sse D c body)) new_client bodies"
  shows "(cl_ready c \<longleftrightarrow> cl_snap c \<noteq> None) \<and>
    bool_variation L n c k ctx b = map_option
      (\<lambda>(idx, v, _). if idx = None then b else case v of ABool x \<Rightarrow> x | _ \<Rightarrow> b) (client_evaluate L n c k ctx) \<and>
    string_variation L n c k ctx s = map_option
      (\<lambda>(idx, v, _). if idx = None then s else case v of AStr x \<Rightarrow> x | _ \<Rightarrow> s) (client_evaluate L n c k ctx) \<and>
    float64_variation L n c k ctx f = map_option
      (\<lambda>(idx, v, _). if idx = None then f else case v of AFloat x \<Rightarrow> x | _ \<Rightarrow> f) (client_evaluate L n c k ctx)"
proof -
  have "cl_ready c \<longleftrightarrow> cl_snap c \<noteq> None" unfolding c_def
    by (induction bodies rule: rev_induct) (simp_all add: new_client_def parse_sse_ready del: not_None_eq)
  then show ?thesis
    unfolding bool_variation_def string_variation_def float64_variation_def typed_variation by simp
qed

section \<open>The client and the server evaluate alike\<close>

definition undescribed_store :: "eval_store \<Rightarrow> eval_store" where
  "undescribed_store S = S\<lparr>es_flag := \<lambda>k. map_option (\<lambda>(f, c). (undescribed f, c)) (es_flag S k)\<rparr>"

lemma undescribed_fields [simp]:
  "flag_key (undescribed f) = flag_key f" "flag_variations (undescribed f) = flag_variations f"
  by (simp_all add: undescribed_def)

lemma undescribed_variation [simp]: "variation_result (undescribed f) = variation_result f"
  by (simp add: variation_result_def fun_eq_iff)

lemma undescribed_results [simp]:
  "off_result (undescribed f) = off_result f"
  "resolve_variation_or_rollout (undescribed f) = resolve_variation_or_rollout f"
  by (simp_all add: off_result_def resolve_variation_or_rollout_def fun_eq_iff split: option.split)

lemma undescribed_segment [simp]: "es_segment (undescribed_store S) = es_segment S"
  by (simp add: undescribed_store_def)

lemma undescribed_clause: "clause_with L (undescribed_store S) = clause_with L S"
  by (simp add: fun_eq_iff clause_with_def segment_of_value_def)

lemma undescribed_segment_with: "segment_with L (undescribed_store S) = segment_with L S"
  unfolding segment_with_def undescribed_clause by (rule refl)

lemma undescribed_segment_matches: "segment_matches L (undescribed_store S) ctx n = segment_matches L S ctx n"
  by (induction n) (rule ext, simp add: undescribed_segment_with)+

lemma undescribed_serve: "serve L (undescribed_store S) n ctx (undescribed f) cfg = serve L S n ctx f cfg"
proof -
  have c: "clause_matches L (undescribed_store S) n ctx = clause_matches L S n ctx"
    by (rule ext) (simp add: clause_matches_def undescribed_segment_matches undescribed_clause)
  have "rule_matches L (undescribed_store S) n ctx = rule_matches L S n ctx"
    by (rule ext) (simp add: rule_matches_def c)
  then show ?thesis by (simp add: serve_def split: option.split prod.split)
qed

lemma undescribed_prereqs:
  "(\<And>f c. ev (undescribed f) c = ev' f c) \<Longrightarrow> prereq_loop (undescribed_store S) ev ps = prereq_loop S ev' ps"
  by (induction ps) (auto simp: undescribed_store_def split: option.split)

lemma undescribed_eval:
  "eval_depth L (undescribed_store S) n ctx d vis (undescribed f) cfg = eval_depth L S n ctx d vis f cfg"
proof (induction "Suc max_prerequisite_depth - d" arbitrary: d vis f cfg rule: less_induct)
  case less
  show ?case
  proof (cases "max_prerequisite_depth < d")
    case False
    then have "prereq_loop (undescribed_store S)
        (eval_depth L (undescribed_store S) n ctx (Suc d) (insert (flag_key f) vis)) (cfg_prerequisites cfg) =
      prereq_loop S (eval_depth L S n ctx (Suc d) (insert (flag_key f) vis)) (cfg_prerequisites cfg)"
      by (intro undescribed_prereqs less) simp
    then show ?thesis
      by (simp add: eval_depth.simps [of _ _ _ _ d] undescribed_serve split: option.split)
  qed (simp add: eval_depth.simps [of _ _ _ _ d])
qed

lemma server_store_undescribed: "server_store sn = undescribed_store (snapshot_store sn)"
  by (auto simp: server_store_def undescribed_store_def snapshot_store_def fun_eq_iff split: option.split)

lemma build_now: "build num now cv pk ek = Inr sn \<Longrightarrow> build num now' cv pk ek = Inr (sn\<lparr>sn_published_at := now'\<rparr>)"
  by (auto simp: build_def Let_def checksum_def payload_json_def split: sum.splits option.splits)

text \<open>
  C23. Local and remote evaluation agree: a client that holds the snapshot which \<open>GET /sdk/v1/snapshot\<close>
  returns for a key evaluates every flag exactly as \<open>POST /sdk/v1/evaluate\<close> does with that key while
  the store is unchanged; where the server answers 404, the client reports FLAG_NOT_FOUND.
\<close>

theorem client_server_agree:
  assumes "sdk_snapshot num now a s header = Inr sn" "cl_snap c = Some sn"
  shows "client_evaluate L n c k ctx =
    (case sdk_evaluate L n num now' a s header (Some (k, ctx)) of
       Inr res \<Rightarrow> res | Inl _ \<Rightarrow> Some (None, ANil, error_reason ErrFlagNotFound)) \<and>
    (sdk_evaluate L n num now' a s header (Some (k, ctx)) = Inl 404 \<longleftrightarrow> mget (sn_flags sn) k = None)"
proof -
  obtain rec where rec: "authenticate_sdk a header = Some rec"
    and b: "build num now (mem_view s) (kr_project_key rec) (kr_env_key rec) = Inr sn"
    using assms(1) by (auto simp: sdk_snapshot_def split: option.splits sum.splits)
  let ?sn = "sn\<lparr>sn_published_at := now'\<rparr>"
  have st: "server_store ?sn = undescribed_store (snapshot_store sn)"
    unfolding server_store_undescribed by (simp add: snapshot_store_def)
  show ?thesis
    by (cases "mget (sn_flags sn) k")
      (simp_all add: sdk_evaluate_def rec build_now [OF b] eval_flag_def st evaluate_def undescribed_eval
        client_evaluate_def assms(2), simp_all add: snapshot_store_def evaluate_def)
qed

lemma client_server_agree_witness:
  "\<exists>s sn. mem_run new_memory_store [CreateProject sample_project] = Some s \<and>
     sdk_snapshot (\<lambda>_. []) 0 (register new_authenticator sample_key) s ''Bearer k1'' = Inr sn \<and>
     sdk_evaluate no_libs 0 (\<lambda>_. []) 5 (register new_authenticator sample_key) s ''Bearer k1'' (Some (''f'', user_ctx ''u'')) = Inl 404"
proof -
  obtain s where s: "mem_run new_memory_store [CreateProject sample_project] = Some s"
    "mem_get_env_version s ''p'' ''prod'' = Inr 0" "mem_list_flags s ''p'' = Inr []" "mem_list_segments s ''p'' = Inr []"
    by (rule sample_states)
  obtain sn where sn: "build (\<lambda>_. []) 0 (mem_view s) ''p'' ''prod'' = Inr sn" "sn_flags sn = []"
    using empty_build [OF s(2-4), of "\<lambda>_. []" 0] by auto
  have "sdk_snapshot (\<lambda>_. []) 0 (register new_authenticator sample_key) s ''Bearer k1'' = Inr sn"
    by (simp add: sdk_snapshot_def authenticate_sdk_def extract_bearer_def bearer_prefix_def register_def
        lookup_key_def new_authenticator_def sample_key_def sn)
  with client_server_agree [OF this, of "\<lparr>cl_snap = Some sn, cl_ready = True\<rparr>" no_libs 0 "''f''" "user_ctx ''u''" 5] s(1) sn(2)
  show ?thesis by auto
qed

section \<open>Reconnecting\<close>

lemma float_small: "\<bar>i\<bar> \<le> 2 ^ 53 \<Longrightarrow> float_of_int i = Fin (of_int i)"
proof -
  assume i: "\<bar>i\<bar> \<le> 2 ^ 53"
  then have "\<bar>of_int i\<bar> \<le> (of_int (2 ^ 53) :: rat)" by (simp only: of_int_abs [symmetric] of_int_le_iff)
  also have "\<dots> \<le> 2 ^ 1023" by simp
  finally show ?thesis unfolding float_of_int_def by (simp add: round64_small fl_rep [OF rep64_int [OF i]])
qed

lemma next_backoff_small:
  assumes "second \<le> b" "b \<le> 30 * second"
  shows "next_backoff b = min (b * 2) (30 * second)"
proof -
  have w: "wrap64 (b * 2) = b * 2" using assms by (intro wrap64_id) (simp add: second_def int64_range_def)
  have f: "float_of_int (b * 2) = Fin (of_int (b * 2))" "float_of_int (30 * second) = Fin (of_int (30 * second))"
    using assms by (intro float_small; simp add: second_def)+
  show ?thesis unfolding next_backoff_def w f
    by (simp add: min_def float_ops del: of_int_mult of_int_numeral) (simp add: second_def feq_def)
qed

lemma stream_waits_range:
  "second \<le> b \<Longrightarrow> b \<le> 30 * second \<Longrightarrow> w \<in> set (stream_waits b cs) \<Longrightarrow> second \<le> w \<and> w \<le> 30 * second"
proof (induction b cs rule: stream_waits.induct)
  case (2 b clean cs)
  let ?b = "if clean then second else b"
  have r: "second \<le> ?b" "?b \<le> 30 * second" using 2(2,3) by (auto simp: second_def)
  have "second \<le> next_backoff ?b" "next_backoff ?b \<le> 30 * second"
    unfolding next_backoff_small [OF r] using r by (auto simp: second_def min_def)
  with 2 r show ?case by (auto simp: Let_def)
qed simp

lemma stream_waits_failing:
  "second \<le> b \<Longrightarrow> b \<le> 30 * second \<Longrightarrow> i < n \<Longrightarrow>
   stream_waits b (replicate n False) ! i = min (b * 2 ^ i) (30 * second)"
proof (induction n arbitrary: b i)
  case (Suc n)
  show ?case
  proof (cases i)
    case 0
    then show ?thesis using Suc.prems(2) by simp
  next
    case (Suc j)
    have pos: "0 < second" by (simp add: second_def)
    have one: "(1 :: int) \<le> 2 ^ j" by simp
    have "stream_waits b (replicate (Suc n) False) ! i =
        min (min (b * 2) (30 * second) * 2 ^ j) (30 * second)"
      using Suc.IH [of "min (b * 2) (30 * second)" j] Suc.prems Suc pos
      by (simp add: next_backoff_small)
    also have "\<dots> = min (b * 2 ^ i) (30 * second)"
    proof (cases "b * 2 \<le> 30 * second")
      case False
      have "30 * second * 1 \<le> 30 * second * 2 ^ j" using one pos by (intro mult_left_mono) simp_all
      moreover have "30 * second * 1 \<le> b * 2 * 2 ^ j"
        by (rule mult_mono) (use False one pos in linarith)+
      ultimately show ?thesis using False Suc by (simp add: min_def mult.assoc)
    qed (simp add: Suc mult.assoc min_def)
    finally show ?thesis .
  qed
qed simp

text \<open>
  C25. Reconnecting backs off within bounds: every wait between two attempts is at least one second and at
  most thirty, the wait after a connection that ended cleanly is one second, and the waits of consecutive
  failures double up to thirty seconds.
\<close>

theorem backoff_bounds:
  "(\<forall>w \<in> set (stream_waits second cs). second \<le> w \<and> w \<le> 30 * second) \<and>
   (i < n \<longrightarrow> stream_waits second (True # replicate n False) ! Suc i = min (second * 2 ^ Suc i) (30 * second)) \<and>
   hd (stream_waits b (True # cs)) = second"
proof -
  have s: "second \<le> second" "second \<le> 30 * second" "second \<le> 2 * second" "2 * second \<le> 30 * second"
    by (simp_all add: second_def)
  have "next_backoff second = 2 * second" using next_backoff_small [OF s(1,2)] s(4) by simp
  moreover have "i < n \<Longrightarrow> stream_waits (2 * second) (replicate n False) ! i = min (second * 2 ^ Suc i) (30 * second)"
    using stream_waits_failing [OF s(3,4), of i n] by (simp add: mult_ac)
  ultimately show ?thesis using stream_waits_range [OF s(1,2)] by (auto simp: Let_def)
qed

lemma backoff_bounds_witness:
  "stream_waits second (True # replicate 6 False) ! Suc 5 = 30 * second"
  using backoff_bounds [of "[]" 5 6 0] by (simp add: second_def)

end
