(* ===== verification/ClientLoop.thy ===== *)
theory ClientLoop
  imports SdkClient
begin

text \<open>
  The life of the Go client, \<open>sdk/go/pennant/client.go\<close>: \<open>New\<close>, \<open>connect\<close> and \<open>streamLoop\<close> around the parsing
  and evaluation of \<open>SdkClient\<close>, and the accessors.

  A connection attempt ends in an outcome: no response at all, or a status with the text that arrived until
  the stream ended. The loop is a fold over the outcomes, up to the one at which the context is cancelled;
  the goroutine, its wait group and the cancellation are the end of that list. The lemmas show that
  failing connections cost the client nothing but time.
\<close>

section \<open>A connection\<close>

record options =
  opt_sdk_key :: string
  opt_base_url :: string
  opt_init_timeout :: int

record stream_request =
  sr_url :: string
  sr_authorization :: string
  sr_accept :: string
  sr_last_event_id :: "string option"

datatype outcome = NoResponse | Response int string

definition connect_request :: "options \<Rightarrow> client \<Rightarrow> stream_request" where
  "connect_request opts c = \<lparr>sr_url = opt_base_url opts @ ''/sdk/v1/stream'',
     sr_authorization = ''Bearer '' @ opt_sdk_key opts, sr_accept = ''text/event-stream'',
     sr_last_event_id = last_event_id c\<rparr>"

text \<open>The client after the connection, and whether \<open>connect\<close> returned no error.\<close>

definition connect :: "decoders \<Rightarrow> client \<Rightarrow> outcome \<Rightarrow> client \<times> bool" where
  "connect D c x =
     (case x of NoResponse \<Rightarrow> (c, False)
      | Response code body \<Rightarrow> if code \<noteq> 200 then (c, False) else parse_sse D c body)"

section \<open>The loop\<close>

text \<open>The client, the requests sent and the waits, for a back-off and the outcomes of the attempts.\<close>

fun stream_loop ::
    "options \<Rightarrow> decoders \<Rightarrow> client \<Rightarrow> int \<Rightarrow> outcome list \<Rightarrow> client \<times> stream_request list \<times> int list" where
  "stream_loop opts D c b [] = (c, [], [])"
| "stream_loop opts D c b (x # xs) =
     (case connect D c x of
        (c', clean) \<Rightarrow>
          let b' = (if clean then second else b)
          in (case stream_loop opts D c' (next_backoff b') xs of
                (c'', rs, ws) \<Rightarrow> (c'', connect_request opts c # rs, b' # ws)))"

text \<open>
  \<open>New\<close>: the timeout it waits, and its error, if the outcomes that arrive in time do not make the client
  ready; the client is returned in either case.
\<close>

definition init_timeout :: "options \<Rightarrow> int" where
  "init_timeout opts = (if opt_init_timeout opts = 0 then 5 * second else opt_init_timeout opts)"

definition new_connected :: "options \<Rightarrow> decoders \<Rightarrow> outcome list \<Rightarrow> client \<times> bool" where
  "new_connected opts D in_time =
     (let c = fst (stream_loop opts D new_client second in_time) in (c, cl_ready c))"

section \<open>Accessors\<close>

definition is_ready :: "client \<Rightarrow> bool" where
  "is_ready c = cl_ready c"

definition current_snapshot :: "client \<Rightarrow> snapshot option" where
  "current_snapshot c = cl_snap c"

definition evaluate_detail ::
    "libs \<Rightarrow> nat \<Rightarrow> client \<Rightarrow> string \<Rightarrow> eval_context \<Rightarrow> eval_result option" where
  "evaluate_detail L n c k ctx = client_evaluate L n c k ctx"

section \<open>The client keeps what it has\<close>

lemma handle_event_keeps: "cl_snap c \<noteq> None \<Longrightarrow> cl_snap (handle_event D c e d) \<noteq> None"
  by (auto simp: handle_event_def split: option.splits)

lemma parse_lines_keeps: "cl_snap c \<noteq> None \<Longrightarrow> cl_snap (parse_lines D e d ls c) \<noteq> None"
proof (induction D e d ls c rule: parse_lines.induct)
  case (2 D e d l ls c)
  then show ?case using handle_event_keeps [OF 2(5)] by (simp del: not_None_eq)
qed simp

lemma connect_keeps: "cl_snap c \<noteq> None \<Longrightarrow> cl_snap (fst (connect D c x)) \<noteq> None"
  using parse_lines_keeps by (auto simp: connect_def parse_sse_def simp del: not_None_eq split: outcome.split prod.split)

lemma loop_client: "fst (stream_loop opts D c b xs) = foldl (\<lambda>c x. fst (connect D c x)) c xs"
proof (induction xs arbitrary: c b)
  case (Cons x xs)
  show ?case
    by (cases "connect D c x"; simp add: Let_def case_prod_beta) (simp add: Cons.IH)
qed simp

lemma loop_keeps: "cl_snap c \<noteq> None \<Longrightarrow> cl_snap (fst (stream_loop opts D c b xs)) \<noteq> None"
  unfolding loop_client by (induction xs arbitrary: c) (simp_all add: connect_keeps del: not_None_eq)

lemma connect_ready:
  "(cl_ready c \<longleftrightarrow> cl_snap c \<noteq> None) \<Longrightarrow> cl_ready (fst (connect D c x)) \<longleftrightarrow> cl_snap (fst (connect D c x)) \<noteq> None"
  using parse_sse_ready by (auto simp: connect_def simp del: not_None_eq split: outcome.split)

lemma loop_ready:
  "(cl_ready c \<longleftrightarrow> cl_snap c \<noteq> None) \<Longrightarrow>
   cl_ready (fst (stream_loop opts D c b xs)) \<longleftrightarrow> cl_snap (fst (stream_loop opts D c b xs)) \<noteq> None"
  unfolding loop_client by (induction xs arbitrary: c) (simp_all add: connect_ready del: not_None_eq)

definition failing :: "outcome \<Rightarrow> bool" where
  "failing x = (case x of NoResponse \<Rightarrow> True | Response code _ \<Rightarrow> code \<noteq> 200)"

lemma connect_failing: "failing x \<Longrightarrow> connect D c x = (c, False)"
  by (cases x) (simp_all add: failing_def connect_def)

lemma loop_failing:
  "\<forall>x \<in> set xs. failing x \<Longrightarrow>
   stream_loop opts D c b xs = (c, replicate (length xs) (connect_request opts c), stream_waits b (replicate (length xs) False))"
  by (induction xs arbitrary: b) (simp_all add: connect_failing Let_def)

text \<open>
  C24. An outage costs the client nothing but time. Connections that fail, however many, leave it the snapshot it
  has, so that every flag evaluates as before; each attempt asks the server for what came after that
  snapshot; and the waits between the attempts are those of the back-off. A client that has become ready
  stays ready whatever the servers it reaches send, and \<open>New\<close> reports success exactly for a client that
  has a snapshot.
\<close>

theorem outage_harmless:
  assumes "is_ready c \<longleftrightarrow> current_snapshot c \<noteq> None"
  shows "((\<forall>x \<in> set xs. failing x) \<longrightarrow>
      stream_loop opts D c b xs =
        (c, replicate (length xs) (connect_request opts c), stream_waits b (replicate (length xs) False))) \<and>
    (is_ready c \<longrightarrow> is_ready (fst (stream_loop opts D c b xs))) \<and>
    (snd (new_connected opts D xs) \<longleftrightarrow> current_snapshot (fst (new_connected opts D xs)) \<noteq> None)"
proof -
  have "is_ready (fst (stream_loop opts D c b xs))" if "is_ready c"
    using loop_ready [of c opts D b xs] loop_keeps [of c opts D b xs] assms that
    unfolding is_ready_def current_snapshot_def by blast
  moreover have "snd (new_connected opts D xs) \<longleftrightarrow> current_snapshot (fst (new_connected opts D xs)) \<noteq> None"
    using loop_ready [of new_client opts D second xs]
    by (simp add: new_connected_def current_snapshot_def new_client_def Let_def del: not_None_eq)
  ultimately show ?thesis using loop_failing [of xs opts D c b] by blast
qed

lemma failing_waits:
  "stream_waits second (replicate 7 False) =
   [second, 2 * second, 4 * second, 8 * second, 16 * second, 30 * second, 30 * second]"
  by (simp add: numeral_eq_Suc) (simp add: next_backoff_small second_def)

lemma outage_harmless_witness:
  "stream_loop \<lparr>opt_sdk_key = ''k'', opt_base_url = ''http://h'', opt_init_timeout = 0\<rparr>
     \<lparr>dec_snapshot = \<lambda>_. None, dec_delta = \<lambda>_. None\<rparr> new_client second
     [NoResponse, Response 503 [], NoResponse, Response 401 [], NoResponse, NoResponse, NoResponse] =
   (new_client, replicate 7 \<lparr>sr_url = ''http://h/sdk/v1/stream'', sr_authorization = ''Bearer k'',
      sr_accept = ''text/event-stream'', sr_last_event_id = None\<rparr>,
    [second, 2 * second, 4 * second, 8 * second, 16 * second, 30 * second, 30 * second])"
proof -
  let ?o = "\<lparr>opt_sdk_key = ''k'', opt_base_url = ''http://h'', opt_init_timeout = 0\<rparr>"
  let ?D = "\<lparr>dec_snapshot = \<lambda>_. None, dec_delta = \<lambda>_. None\<rparr>"
  let ?xs = "[NoResponse, Response 503 [], NoResponse, Response 401 [], NoResponse, NoResponse, NoResponse]"
  have "is_ready new_client \<longleftrightarrow> current_snapshot new_client \<noteq> None"
    by (simp add: is_ready_def current_snapshot_def new_client_def)
  from conjunct1 [OF outage_harmless [OF this, of ?xs ?o ?D second]]
  have "stream_loop ?o ?D new_client second ?xs =
      (new_client, replicate (length ?xs) (connect_request ?o new_client), stream_waits second (replicate (length ?xs) False))"
    by (simp only: list.set ball_simps) (simp add: failing_def)
  moreover have "length ?xs = 7" by simp
  ultimately show ?thesis
    by (simp only: failing_waits) (simp add: connect_request_def last_event_id_def new_client_def)
qed

text \<open>
  The back-off is forgotten only after a stream that ended cleanly: a connection that delivered for hours and
  then broke is retried after the wait the failures before it had reached.
\<close>

lemma backoff_not_reset:
  "snd (snd (stream_loop opts D c b [NoResponse, Response 200 body])) =
   b # (if snd (connect D c (Response 200 body)) then [second] else [next_backoff b])"
  by (simp add: connect_def Let_def split: prod.split)

end
