(* ===== verification/Api.thy ===== *)
theory Api
  imports Auth SdkClient
begin

text \<open>
  The management API of \<open>internal/api/server.go\<close>: its routes with their role checks, its handlers on the
  memory store, the hub and the SDK keys, pagination and the audit log.

  A request carries its decoded body (\<open>None\<close> if the body does not decode) and its path parameters; the
  answer is the HTTP status with the body written, and the next state of the server. \<open>num\<close> and \<open>time\<close>
  write a number and a time as JSON does; \<open>now\<close> is the clock in nanoseconds.
\<close>

section \<open>State and answers\<close>

record server =
  sv_store :: mem_store
  sv_hub :: "snapshot hub"
  sv_keys :: authenticator

datatype 'b response = Problem int | Reply int 'b

fun status_code :: "'b response \<Rightarrow> int" where
  "status_code (Problem c) = c"
| "status_code (Reply c _) = c"

section \<open>Pagination\<close>

text \<open>The values of the query parameters; absent ones are empty.\<close>

definition parse_pagination :: "string \<Rightarrow> string \<Rightarrow> int \<times> int" where
  "parse_pagination lm off =
     (let l = (case atoi lm of None \<Rightarrow> 50 | Some n \<Rightarrow> if 0 < n then n else 50);
          l' = (if 500 < l then 500 else l);
          f = (case atoi off of None \<Rightarrow> 0 | Some n \<Rightarrow> if 0 \<le> n then n else 0)
      in (l', f))"

definition apply_pagination :: "'a list \<Rightarrow> int \<Rightarrow> int \<Rightarrow> 'a list \<times> int" where
  "apply_pagination items lm off =
     (let n = int (length items)
      in if n \<le> off then ([], n)
         else let stop = wrap64 (off + lm);
                  stop' = (if n < stop then n else stop)
              in (take (nat stop' - nat off) (drop (nat off) items), n))"

definition page_of :: "'a list \<Rightarrow> string \<Rightarrow> string \<Rightarrow> 'a list \<times> int \<times> int \<times> int" where
  "page_of items lm off =
     (case parse_pagination lm off of (l, f) \<Rightarrow>
        (case apply_pagination items l f of (page, n) \<Rightarrow> (page, n, l, f)))"

definition audit_limit :: "string \<Rightarrow> int" where
  "audit_limit lm = (case atoi lm of None \<Rightarrow> 100 | Some n \<Rightarrow> if 0 < n then min n 1000 else 100)"

section \<open>The audit log\<close>

fun key_type_text :: "sdk_key_type \<Rightarrow> string" where
  "key_type_text SDKKeyServer = ''server''"
| "key_type_text SDKKeyClient = ''client''"
| "key_type_text SDKKeyMobile = ''mobile''"
| "key_type_text (SDKKeyOther s) = s"

definition key_type_of :: "string \<Rightarrow> sdk_key_type" where
  "key_type_of s = (if s = ''server'' then SDKKeyServer else if s = ''client'' then SDKKeyClient
     else if s = ''mobile'' then SDKKeyMobile else SDKKeyOther s)"

definition sdk_key_json :: "(int \<Rightarrow> string) \<Rightarrow> sdk_key \<Rightarrow> json" where
  "sdk_key_json time k = JObj [(''value'', JStr (sk_value k)), (''type'', JStr (key_type_text (sk_type k))),
     (''created_at'', JStr (time (sk_created_at k)))]"

definition environment_json :: "(int \<Rightarrow> string) \<Rightarrow> environment \<Rightarrow> json" where
  "environment_json time e = JObj [(''key'', JStr (env_key e)), (''name'', JStr (env_name e)),
     (''color'', JStr (env_color e)), (''project_key'', JStr (env_project_key e)),
     (''sdk_keys'', JArr (map (sdk_key_json time) (env_sdk_keys e))), (''version'', jint (env_version e))]"

definition project_json :: "(int \<Rightarrow> string) \<Rightarrow> project \<Rightarrow> json" where
  "project_json time p = JObj [(''key'', JStr (proj_key p)), (''name'', JStr (proj_name p)),
     (''description'', JStr (proj_description p)),
     (''environments'', JArr (map (environment_json time) (proj_environments p)))]"

definition flag_json :: "(int \<Rightarrow> string) \<Rightarrow> flag \<Rightarrow> json" where
  "flag_json time f = JObj [(''key'', JStr (flag_key f)), (''name'', JStr (flag_name f)),
     (''description'', JStr (flag_description f)), (''type'', JStr (type_string (flag_type f))),
     (''variations'', JArr (map variation_json (flag_variations f))), (''tags'', jstrs (flag_tags f)),
     (''temporary'', JBool (flag_temporary f)), (''archived'', JBool (flag_archived f)),
     (''created_at'', JStr (time (flag_created_at f))), (''updated_at'', JStr (time (flag_updated_at f))),
     (''environments'', sorted_map (jptr config_json) (flag_environments f))]"

text \<open>
  \<open>appendAudit\<close>. A value that was looked up and not found is a nil pointer in a non-nil interface: it is
  written as \<open>null\<close>; \<open>None\<close> is the nil that some callers pass, for which nothing is written.
\<close>

definition append_audit ::
    "(rat \<Rightarrow> string) \<Rightarrow> int \<Rightarrow> claims option \<Rightarrow> string \<Rightarrow> string \<Rightarrow> string \<Rightarrow> string \<Rightarrow>
     json option \<Rightarrow> json option \<Rightarrow> server \<Rightarrow> server" where
  "append_audit num now c pk action resource rid before after s =
     s\<lparr>sv_store := mem_append_audit (sv_store s)
         \<lparr>au_id = [], au_project_key = pk,
          au_actor = (case c of None \<Rightarrow> ''anonymous'' | Some c \<Rightarrow> cla_email c),
          au_action = action, au_resource = resource, au_resource_id = rid,
          au_before = (case before of None \<Rightarrow> [] | Some j \<Rightarrow> json_text num j),
          au_after = (case after of None \<Rightarrow> [] | Some j \<Rightarrow> json_text num j),
          au_at = now div 1000000\<rparr>\<rparr>"

definition found :: "('a \<Rightarrow> json) \<Rightarrow> 'e + 'a \<Rightarrow> json option" where
  "found enc r = Some (case r of Inl _ \<Rightarrow> JNull | Inr x \<Rightarrow> enc x)"

definition publish_change :: "(rat \<Rightarrow> string) \<Rightarrow> int \<Rightarrow> string \<Rightarrow> server \<Rightarrow> server" where
  "publish_change num now pk s =
     (case publish_flag_change num now pk (sv_store s) (sv_hub s) of
        (st, h) \<Rightarrow> s\<lparr>sv_store := st, sv_hub := h\<rparr>)"

section \<open>Reading\<close>

definition list_projects :: "string \<Rightarrow> string \<Rightarrow> server \<Rightarrow> (project list \<times> int \<times> int \<times> int) response" where
  "list_projects lm off s = Reply 200 (page_of (mem_list_projects (sv_store s)) lm off)"

definition or_status :: "int \<Rightarrow> 'e + 'b \<Rightarrow> 'b response" where
  "or_status c r = (case r of Inl _ \<Rightarrow> Problem c | Inr x \<Rightarrow> Reply 200 x)"

definition get_project :: "string \<Rightarrow> server \<Rightarrow> project response" where
  "get_project pk s = or_status 404 (mem_get_project (sv_store s) pk)"

definition list_environments :: "string \<Rightarrow> server \<Rightarrow> environment list response" where
  "list_environments pk s = or_status 404 (mem_list_environments (sv_store s) pk)"

definition list_sdk_keys :: "string \<Rightarrow> string \<Rightarrow> server \<Rightarrow> sdk_key list response" where
  "list_sdk_keys pk ek s = or_status 404 (map_sum id env_sdk_keys (mem_get_environment (sv_store s) pk ek))"

definition list_flags :: "string \<Rightarrow> string \<Rightarrow> string \<Rightarrow> server \<Rightarrow> (flag list \<times> int \<times> int \<times> int) response" where
  "list_flags pk lm off s =
     (case mem_list_flags (sv_store s) pk of Inl _ \<Rightarrow> Problem 404 | Inr fs \<Rightarrow> Reply 200 (page_of fs lm off))"

definition get_flag :: "string \<Rightarrow> string \<Rightarrow> server \<Rightarrow> flag response" where
  "get_flag pk fk s = or_status 404 (mem_get_flag (sv_store s) pk fk)"

definition get_flag_config :: "string \<Rightarrow> string \<Rightarrow> string \<Rightarrow> server \<Rightarrow> flag_config response" where
  "get_flag_config pk fk ek s = or_status 404 (mem_get_flag_config (sv_store s) pk ek fk)"

definition list_segments :: "string \<Rightarrow> string \<Rightarrow> string \<Rightarrow> server \<Rightarrow> (segment list \<times> int \<times> int \<times> int) response" where
  "list_segments pk lm off s =
     (case mem_list_segments (sv_store s) pk of Inl _ \<Rightarrow> Problem 404 | Inr gs \<Rightarrow> Reply 200 (page_of gs lm off))"

definition get_segment :: "string \<Rightarrow> string \<Rightarrow> server \<Rightarrow> segment response" where
  "get_segment pk sk s = or_status 404 (mem_get_segment (sv_store s) pk sk)"

definition list_audit_log :: "string \<Rightarrow> string \<Rightarrow> server \<Rightarrow> audit_entry list response" where
  "list_audit_log pk lm s = Reply 200 (mem_list_audit (sv_store s) pk (audit_limit lm))"

section \<open>Projects and environments\<close>

text \<open>The route of \<open>createProject\<close> has no parameter \<open>projectKey\<close>: its audit entry has an empty one.\<close>

definition create_project ::
    "(rat \<Rightarrow> string) \<Rightarrow> (int \<Rightarrow> string) \<Rightarrow> int \<Rightarrow> claims option \<Rightarrow> project option \<Rightarrow> server \<Rightarrow> project response \<times> server" where
  "create_project num time now c body s =
     (case body of None \<Rightarrow> (Problem 400, s)
      | Some p \<Rightarrow>
          if proj_key p = [] then (Problem 400, s)
          else (case mem_create_project (sv_store s) p of Inl _ \<Rightarrow> (Problem 409, s)
                | Inr st \<Rightarrow>
                    (Reply 201 p, append_audit num now c [] ''create'' ''project'' (proj_key p) None
                       (Some (project_json time p)) (s\<lparr>sv_store := st\<rparr>))))"

definition update_project ::
    "(rat \<Rightarrow> string) \<Rightarrow> (int \<Rightarrow> string) \<Rightarrow> int \<Rightarrow> claims option \<Rightarrow> string \<Rightarrow> project option \<Rightarrow> server \<Rightarrow>
     project response \<times> server" where
  "update_project num time now c pk body s =
     (case body of None \<Rightarrow> (Problem 400, s)
      | Some p0 \<Rightarrow>
          (let p = p0\<lparr>proj_key := pk\<rparr>
           in case mem_update_project (sv_store s) p of Inl _ \<Rightarrow> (Problem 404, s)
              | Inr st \<Rightarrow>
                  (Reply 200 p, append_audit num now c pk ''update'' ''project'' pk
                     (found (project_json time) (mem_get_project (sv_store s) pk))
                     (Some (project_json time p)) (s\<lparr>sv_store := st\<rparr>))))"

definition delete_project ::
    "(rat \<Rightarrow> string) \<Rightarrow> (int \<Rightarrow> string) \<Rightarrow> int \<Rightarrow> claims option \<Rightarrow> string \<Rightarrow> server \<Rightarrow> unit response \<times> server" where
  "delete_project num time now c pk s =
     (case mem_delete_project (sv_store s) pk of Inl _ \<Rightarrow> (Problem 404, s)
      | Inr st \<Rightarrow>
          (Reply 204 (), append_audit num now c pk ''delete'' ''project'' pk
             (found (project_json time) (mem_get_project (sv_store s) pk)) None (s\<lparr>sv_store := st\<rparr>)))"

definition create_environment ::
    "(rat \<Rightarrow> string) \<Rightarrow> (int \<Rightarrow> string) \<Rightarrow> int \<Rightarrow> claims option \<Rightarrow> string \<Rightarrow> environment option \<Rightarrow> server \<Rightarrow>
     environment response \<times> server" where
  "create_environment num time now c pk body s =
     (case body of None \<Rightarrow> (Problem 400, s)
      | Some e0 \<Rightarrow>
          if env_key e0 = [] then (Problem 400, s)
          else (let e = e0\<lparr>env_project_key := pk\<rparr>
                in case mem_create_environment (sv_store s) pk e of Inl _ \<Rightarrow> (Problem 409, s)
                   | Inr st \<Rightarrow>
                       (Reply 201 e, append_audit num now c pk ''create'' ''environment'' (env_key e) None
                          (Some (environment_json time e)) (s\<lparr>sv_store := st\<rparr>))))"

definition update_environment ::
    "(rat \<Rightarrow> string) \<Rightarrow> (int \<Rightarrow> string) \<Rightarrow> int \<Rightarrow> claims option \<Rightarrow> string \<Rightarrow> string \<Rightarrow> environment option \<Rightarrow>
     server \<Rightarrow> environment response \<times> server" where
  "update_environment num time now c pk ek body s =
     (case body of None \<Rightarrow> (Problem 400, s)
      | Some e0 \<Rightarrow>
          (let e = e0\<lparr>env_key := ek, env_project_key := pk\<rparr>
           in case mem_update_environment (sv_store s) pk e of Inl _ \<Rightarrow> (Problem 404, s)
              | Inr st \<Rightarrow>
                  (Reply 200 e, append_audit num now c pk ''update'' ''environment'' ek
                     (found (environment_json time) (mem_get_environment (sv_store s) pk ek))
                     (Some (environment_json time e)) (s\<lparr>sv_store := st\<rparr>))))"

definition delete_environment ::
    "(rat \<Rightarrow> string) \<Rightarrow> (int \<Rightarrow> string) \<Rightarrow> int \<Rightarrow> claims option \<Rightarrow> string \<Rightarrow> string \<Rightarrow> server \<Rightarrow>
     unit response \<times> server" where
  "delete_environment num time now c pk ek s =
     (case mem_delete_environment (sv_store s) pk ek of Inl _ \<Rightarrow> (Problem 404, s)
      | Inr st \<Rightarrow>
          (Reply 204 (), append_audit num now c pk ''delete'' ''environment'' ek
             (found (environment_json time) (mem_get_environment (sv_store s) pk ek)) None (s\<lparr>sv_store := st\<rparr>)))"

section \<open>SDK keys\<close>

definition create_sdk_key ::
    "int \<Rightarrow> string \<Rightarrow> string \<Rightarrow> string option \<Rightarrow> server \<Rightarrow> sdk_key response \<times> server" where
  "create_sdk_key now pk ek body s =
     (case body of None \<Rightarrow> (Problem 400, s)
      | Some t0 \<Rightarrow>
          (let t = (if t0 = [] then ''server'' else t0)
           in case mem_get_environment (sv_store s) pk ek of Inl _ \<Rightarrow> (Problem 404, s)
              | Inr e \<Rightarrow>
                  (let k = \<lparr>sk_value = ''sdk-'' @ t @ ''-'' @ ek @ ''-'' @ itoa now, sk_type = key_type_of t,
                            sk_created_at = now\<rparr>
                   in case mem_update_environment (sv_store s) pk (e\<lparr>env_sdk_keys := env_sdk_keys e @ [k]\<rparr>) of
                        Inl _ \<Rightarrow> (Problem 500, s)
                      | Inr st \<Rightarrow>
                          (Reply 201 k, s\<lparr>sv_store := st, sv_keys := register (sv_keys s)
                             \<lparr>kr_value = sk_value k, kr_project_key = pk, kr_env_key = ek, kr_type = t,
                              kr_revoked = False\<rparr>\<rparr>))))"

definition revoke_sdk_key :: "string \<Rightarrow> string \<Rightarrow> string \<Rightarrow> server \<Rightarrow> unit response \<times> server" where
  "revoke_sdk_key pk ek value s =
     (case mem_get_environment (sv_store s) pk ek of Inl _ \<Rightarrow> (Problem 404, s)
      | Inr e \<Rightarrow>
          if \<not> list_ex (\<lambda>k. sk_value k = value) (env_sdk_keys e) then (Problem 404, s)
          else (case mem_update_environment (sv_store s) pk
                       (e\<lparr>env_sdk_keys := filter (\<lambda>k. sk_value k \<noteq> value) (env_sdk_keys e)\<rparr>) of
                  Inl _ \<Rightarrow> (Problem 500, s)
                | Inr st \<Rightarrow> (Reply 204 (), s\<lparr>sv_store := st, sv_keys := revoke (sv_keys s) value\<rparr>)))"

section \<open>Flags and segments\<close>

text \<open>A panic in \<open>Validate\<close> is answered with 500 by the middleware \<open>Recoverer\<close>.\<close>

definition checked :: "'e check \<Rightarrow> 'b response \<times> server \<Rightarrow> server \<Rightarrow> 'b response \<times> server" where
  "checked v k s = (case v of Accept \<Rightarrow> k | Reject _ \<Rightarrow> (Problem 400, s) | NilPanic \<Rightarrow> (Problem 500, s))"

text \<open>The store stamps the flag it is given, which the handler then logs and returns.\<close>

definition create_flag ::
    "(rat \<Rightarrow> string) \<Rightarrow> (int \<Rightarrow> string) \<Rightarrow> int \<Rightarrow> claims option \<Rightarrow> string \<Rightarrow> flag option \<Rightarrow> server \<Rightarrow>
     flag response \<times> server" where
  "create_flag num time now c pk body s =
     (case body of None \<Rightarrow> (Problem 400, s)
      | Some f \<Rightarrow>
          if flag_key f = [] then (Problem 400, s)
          else checked (flag_validate f)
            (case mem_create_flag now (sv_store s) pk f of Inl _ \<Rightarrow> (Problem 409, s)
             | Inr st \<Rightarrow>
                 (let f' = f\<lparr>flag_created_at := now, flag_updated_at := now\<rparr>
                  in (Reply 201 f', publish_change num now pk
                        (append_audit num now c pk ''create'' ''flag'' (flag_key f) None
                           (Some (flag_json time f')) (s\<lparr>sv_store := st\<rparr>))))) s)"

definition update_flag ::
    "(rat \<Rightarrow> string) \<Rightarrow> (int \<Rightarrow> string) \<Rightarrow> int \<Rightarrow> claims option \<Rightarrow> string \<Rightarrow> string \<Rightarrow> flag option \<Rightarrow> server \<Rightarrow>
     flag response \<times> server" where
  "update_flag num time now c pk fk body s =
     (case body of None \<Rightarrow> (Problem 400, s)
      | Some f0 \<Rightarrow>
          (let f = f0\<lparr>flag_key := fk\<rparr>
           in checked (flag_validate f)
             (case mem_update_flag now (sv_store s) pk f of Inl _ \<Rightarrow> (Problem 404, s)
              | Inr st \<Rightarrow>
                  (let f' = f\<lparr>flag_updated_at := now\<rparr>
                   in (Reply 200 f', publish_change num now pk
                         (append_audit num now c pk ''update'' ''flag'' fk
                            (found (flag_json time) (mem_get_flag (sv_store s) pk fk))
                            (Some (flag_json time f')) (s\<lparr>sv_store := st\<rparr>))))) s))"

definition delete_flag ::
    "(rat \<Rightarrow> string) \<Rightarrow> (int \<Rightarrow> string) \<Rightarrow> int \<Rightarrow> claims option \<Rightarrow> string \<Rightarrow> string \<Rightarrow> server \<Rightarrow>
     unit response \<times> server" where
  "delete_flag num time now c pk fk s =
     (case mem_delete_flag (sv_store s) pk fk of Inl _ \<Rightarrow> (Problem 404, s)
      | Inr st \<Rightarrow>
          (Reply 204 (), publish_change num now pk
             (append_audit num now c pk ''delete'' ''flag'' fk
                (found (flag_json time) (mem_get_flag (sv_store s) pk fk)) None (s\<lparr>sv_store := st\<rparr>))))"

text \<open>
  \<open>putFlagConfig\<close>: the configuration is stored as it comes; the version is 0 if it cannot be incremented.
\<close>

definition put_flag_config ::
    "(rat \<Rightarrow> string) \<Rightarrow> int \<Rightarrow> string \<Rightarrow> string \<Rightarrow> string \<Rightarrow> flag_config option \<Rightarrow> server \<Rightarrow>
     flag_config response \<times> server" where
  "put_flag_config num now pk fk ek body s =
     (case body of None \<Rightarrow> (Problem 400, s)
      | Some cfg \<Rightarrow>
          (case mem_upsert_flag_config (sv_store s) pk ek fk cfg of Inl _ \<Rightarrow> (Problem 500, s)
           | Inr st \<Rightarrow>
               (let (v, st') = (case mem_increment_env_version st pk ek of Inl _ \<Rightarrow> (0, st) | Inr r \<Rightarrow> r);
                    s' = s\<lparr>sv_store := st'\<rparr>
                in case build num now (mem_view st') pk ek of Inl _ \<Rightarrow> (Reply 200 cfg, s')
                   | Inr sn \<Rightarrow>
                       (Reply 200 cfg, s'\<lparr>sv_hub := publish (sv_hub s') ek (put_message v sn)\<rparr>))))"

definition create_segment ::
    "(rat \<Rightarrow> string) \<Rightarrow> int \<Rightarrow> claims option \<Rightarrow> string \<Rightarrow> segment option \<Rightarrow> server \<Rightarrow> segment response \<times> server" where
  "create_segment num now c pk body s =
     (case body of None \<Rightarrow> (Problem 400, s)
      | Some g \<Rightarrow>
          if seg_key g = [] then (Problem 400, s)
          else checked (segment_validate g)
            (case mem_create_segment (sv_store s) pk g of Inl _ \<Rightarrow> (Problem 409, s)
             | Inr st \<Rightarrow>
                 (Reply 201 g, publish_change num now pk
                    (append_audit num now c pk ''create'' ''segment'' (seg_key g) None
                       (Some (segment_json g)) (s\<lparr>sv_store := st\<rparr>)))) s)"

definition update_segment ::
    "(rat \<Rightarrow> string) \<Rightarrow> int \<Rightarrow> claims option \<Rightarrow> string \<Rightarrow> string \<Rightarrow> segment option \<Rightarrow> server \<Rightarrow>
     segment response \<times> server" where
  "update_segment num now c pk sk body s =
     (case body of None \<Rightarrow> (Problem 400, s)
      | Some g0 \<Rightarrow>
          (let g = g0\<lparr>seg_key := sk\<rparr>
           in checked (segment_validate g)
             (case mem_update_segment (sv_store s) pk g of Inl _ \<Rightarrow> (Problem 404, s)
              | Inr st \<Rightarrow>
                  (Reply 200 g, publish_change num now pk
                     (append_audit num now c pk ''update'' ''segment'' sk
                        (found segment_json (mem_get_segment (sv_store s) pk sk))
                        (Some (segment_json g)) (s\<lparr>sv_store := st\<rparr>)))) s))"

definition delete_segment ::
    "(rat \<Rightarrow> string) \<Rightarrow> int \<Rightarrow> claims option \<Rightarrow> string \<Rightarrow> string \<Rightarrow> server \<Rightarrow> unit response \<times> server" where
  "delete_segment num now c pk sk s =
     (case mem_delete_segment (sv_store s) pk sk of Inl _ \<Rightarrow> (Problem 404, s)
      | Inr st \<Rightarrow>
          (Reply 204 (), publish_change num now pk
             (append_audit num now c pk ''delete'' ''segment'' sk
                (found segment_json (mem_get_segment (sv_store s) pk sk)) None (s\<lparr>sv_store := st\<rparr>))))"

section \<open>Routes\<close>

datatype request =
    PostProject "project option"
  | PutProject string "project option"
  | RemoveProject string
  | PostEnvironment string "environment option"
  | PutEnvironment string string "environment option"
  | RemoveEnvironment string string
  | PostKey string string "string option"
  | RemoveKey string string string
  | PostFlag string "flag option"
  | PutFlag string string "flag option"
  | RemoveFlag string string
  | PutFlagConfig string string string "flag_config option"
  | PostSegment string "segment option"
  | PutSegment string string "segment option"
  | RemoveSegment string string

fun required_role :: "request \<Rightarrow> role" where
  "required_role (RemoveProject _) = RoleAdmin"
| "required_role (RemoveEnvironment _ _) = RoleAdmin"
| "required_role (RemoveKey _ _ _) = RoleAdmin"
| "required_role (RemoveFlag _ _) = RoleAdmin"
| "required_role (RemoveSegment _ _) = RoleAdmin"
| "required_role _ = RoleEditor"

definition answered :: "'b response \<times> server \<Rightarrow> int \<times> server" where
  "answered r = (status_code (fst r), snd r)"

fun handle ::
    "(rat \<Rightarrow> string) \<Rightarrow> (int \<Rightarrow> string) \<Rightarrow> int \<Rightarrow> claims option \<Rightarrow> request \<Rightarrow> server \<Rightarrow> int \<times> server" where
  "handle num time now c (PostProject b) s = answered (create_project num time now c b s)"
| "handle num time now c (PutProject pk b) s = answered (update_project num time now c pk b s)"
| "handle num time now c (RemoveProject pk) s = answered (delete_project num time now c pk s)"
| "handle num time now c (PostEnvironment pk b) s = answered (create_environment num time now c pk b s)"
| "handle num time now c (PutEnvironment pk ek b) s = answered (update_environment num time now c pk ek b s)"
| "handle num time now c (RemoveEnvironment pk ek) s = answered (delete_environment num time now c pk ek s)"
| "handle num time now c (PostKey pk ek b) s = answered (create_sdk_key now pk ek b s)"
| "handle num time now c (RemoveKey pk ek v) s = answered (revoke_sdk_key pk ek v s)"
| "handle num time now c (PostFlag pk b) s = answered (create_flag num time now c pk b s)"
| "handle num time now c (PutFlag pk fk b) s = answered (update_flag num time now c pk fk b s)"
| "handle num time now c (RemoveFlag pk fk) s = answered (delete_flag num time now c pk fk s)"
| "handle num time now c (PutFlagConfig pk fk ek b) s = answered (put_flag_config num now pk fk ek b s)"
| "handle num time now c (PostSegment pk b) s = answered (create_segment num now c pk b s)"
| "handle num time now c (PutSegment pk sk b) s = answered (update_segment num now c pk sk b s)"
| "handle num time now c (RemoveSegment pk sk) s = answered (delete_segment num now c pk sk s)"

text \<open>A request through the router: the token's claims, the role, the handler.\<close>

definition serve_request ::
    "auth_libs \<Rightarrow> string \<Rightarrow> (rat \<Rightarrow> string) \<Rightarrow> (int \<Rightarrow> string) \<Rightarrow> int \<Rightarrow> string \<Rightarrow> request \<Rightarrow> server \<Rightarrow> int \<times> server" where
  "serve_request A secret num time now header req s =
     (case jwt_middleware A secret now header of Inl st \<Rightarrow> (st, s)
      | Inr c \<Rightarrow>
          (case require_role (required_role req) (Some c) of Some st \<Rightarrow> (st, s)
           | None \<Rightarrow> handle num time now (Some c) req s))"

lemmas handlers = create_project_def update_project_def delete_project_def create_environment_def
  update_environment_def delete_environment_def create_sdk_key_def revoke_sdk_key_def create_flag_def
  update_flag_def delete_flag_def put_flag_config_def create_segment_def update_segment_def delete_segment_def

lemma failed_unchanged:
  assumes "handle num time now c req s = (st, s')" "400 \<le> st"
  shows "s' = s"
  using assms by (cases req) (auto simp: answered_def handlers checked_def Let_def
      split: option.splits sum.splits if_splits check.splits prod.splits)


section \<open>The audit trail\<close>

definition entries_of :: "server \<Rightarrow> string \<Rightarrow> audit_entry list" where
  "entries_of s k = (case mget (ms_audits (sv_store s)) k of None \<Rightarrow> [] | Some es \<Rightarrow> es)"

lemma publish_flag_change_store:
  "publish_flag_change num now pk st h = (st', h') \<Longrightarrow> st' = st\<lparr>ms_versions := ms_versions st'\<rparr>"
  using publish_envs_version [of num now pk _ st h st' h'] by (auto simp: publish_flag_change_def split: sum.splits)

lemma publish_change_fields [simp]:
  "sv_keys (publish_change num now pk s) = sv_keys s" "entries_of (publish_change num now pk s) = entries_of s"
proof -
  obtain st h where p: "publish_flag_change num now pk (sv_store s) (sv_hub s) = (st, h)" by fastforce
  show "sv_keys (publish_change num now pk s) = sv_keys s" by (simp add: publish_change_def p)
  have "ms_audits st = ms_audits (sv_store s)" by (subst publish_flag_change_store [OF p]) simp
  then show "entries_of (publish_change num now pk s) = entries_of s"
    by (simp add: publish_change_def p entries_of_def fun_eq_iff)
qed

lemma append_audit_keys [simp]: "sv_keys (append_audit num now c pk a r i b af s) = sv_keys s"
  by (simp add: append_audit_def)

definition audit_of :: "server \<Rightarrow> int \<Rightarrow> claims option \<Rightarrow> string \<Rightarrow> string \<Rightarrow> string \<Rightarrow> string \<Rightarrow> audit_entry \<Rightarrow> bool" where
  "audit_of s now c pk action resource rid e \<longleftrightarrow>
     au_id e = ''audit-'' @ itoa (wrap64 (ms_audit_seq (sv_store s) + 1)) \<and> au_project_key e = pk \<and>
     au_actor e = (case c of None \<Rightarrow> ''anonymous'' | Some c \<Rightarrow> cla_email c) \<and> au_action e = action \<and>
     au_resource e = resource \<and> au_resource_id e = rid \<and> au_at e = now div 1000000"

lemma append_audit_entries:
  assumes "ms_audit_seq (sv_store s1) = ms_audit_seq (sv_store s)" "ms_audits (sv_store s1) = ms_audits (sv_store s)"
  shows "\<exists>e. audit_of s now c pk a r i e \<and>
    entries_of (append_audit num now c pk a r i b af s1) = (entries_of s)(pk := entries_of s pk @ [e])"
  using assms by (auto simp: append_audit_def mem_append_audit_def Let_def audit_of_def entries_of_def fun_eq_iff map_simps)

text \<open>The entry a request leaves: the project it is filed under, action, resource and id.\<close>

fun audit_record :: "request \<Rightarrow> (string \<times> string \<times> string \<times> string) option" where
  "audit_record (PostProject b) = map_option (\<lambda>p. ([], ''create'', ''project'', proj_key p)) b"
| "audit_record (PutProject pk b) = Some (pk, ''update'', ''project'', pk)"
| "audit_record (RemoveProject pk) = Some (pk, ''delete'', ''project'', pk)"
| "audit_record (PostEnvironment pk b) = map_option (\<lambda>e. (pk, ''create'', ''environment'', env_key e)) b"
| "audit_record (PutEnvironment pk ek b) = Some (pk, ''update'', ''environment'', ek)"
| "audit_record (RemoveEnvironment pk ek) = Some (pk, ''delete'', ''environment'', ek)"
| "audit_record (PostFlag pk b) = map_option (\<lambda>f. (pk, ''create'', ''flag'', flag_key f)) b"
| "audit_record (PutFlag pk fk b) = Some (pk, ''update'', ''flag'', fk)"
| "audit_record (RemoveFlag pk fk) = Some (pk, ''delete'', ''flag'', fk)"
| "audit_record (PostSegment pk b) = map_option (\<lambda>g. (pk, ''create'', ''segment'', seg_key g)) b"
| "audit_record (PutSegment pk sk b) = Some (pk, ''update'', ''segment'', sk)"
| "audit_record (RemoveSegment pk sk) = Some (pk, ''delete'', ''segment'', sk)"
| "audit_record (PostKey _ _ _) = None"
| "audit_record (RemoveKey _ _ _) = None"
| "audit_record (PutFlagConfig _ _ _ _) = None"

lemma op_audits:
  "mem_apply st op = Inr st' \<Longrightarrow> (\<And>e. op \<noteq> AppendAudit e) \<Longrightarrow>
   ms_audits st' = ms_audits st \<and> ms_audit_seq st' = ms_audit_seq st"
  by (cases op) (auto simp: mem_ops Let_def split: option.splits if_splits sum.splits)

lemma store_audits:
  "mem_create_project st p = Inr st' \<Longrightarrow> ms_audits st' = ms_audits st \<and> ms_audit_seq st' = ms_audit_seq st"
  "mem_update_project st p = Inr st' \<Longrightarrow> ms_audits st' = ms_audits st \<and> ms_audit_seq st' = ms_audit_seq st"
  "mem_delete_project st k = Inr st' \<Longrightarrow> ms_audits st' = ms_audits st \<and> ms_audit_seq st' = ms_audit_seq st"
  "mem_create_environment st k e = Inr st' \<Longrightarrow> ms_audits st' = ms_audits st \<and> ms_audit_seq st' = ms_audit_seq st"
  "mem_update_environment st k e = Inr st' \<Longrightarrow> ms_audits st' = ms_audits st \<and> ms_audit_seq st' = ms_audit_seq st"
  "mem_delete_environment st k ek = Inr st' \<Longrightarrow> ms_audits st' = ms_audits st \<and> ms_audit_seq st' = ms_audit_seq st"
  "mem_create_flag now st k f = Inr st' \<Longrightarrow> ms_audits st' = ms_audits st \<and> ms_audit_seq st' = ms_audit_seq st"
  "mem_update_flag now st k f = Inr st' \<Longrightarrow> ms_audits st' = ms_audits st \<and> ms_audit_seq st' = ms_audit_seq st"
  "mem_delete_flag st k fk = Inr st' \<Longrightarrow> ms_audits st' = ms_audits st \<and> ms_audit_seq st' = ms_audit_seq st"
  "mem_create_segment st k g = Inr st' \<Longrightarrow> ms_audits st' = ms_audits st \<and> ms_audit_seq st' = ms_audit_seq st"
  "mem_update_segment st k g = Inr st' \<Longrightarrow> ms_audits st' = ms_audits st \<and> ms_audit_seq st' = ms_audit_seq st"
  "mem_delete_segment st k sk = Inr st' \<Longrightarrow> ms_audits st' = ms_audits st \<and> ms_audit_seq st' = ms_audit_seq st"
  "mem_upsert_flag_config st k ek fk cfg = Inr st' \<Longrightarrow> ms_audits st' = ms_audits st \<and> ms_audit_seq st' = ms_audit_seq st"
  using op_audits [of st "CreateProject p" st'] op_audits [of st "UpdateProject p" st'] op_audits [of st "DeleteProject k" st']
    op_audits [of st "CreateEnvironment k e" st'] op_audits [of st "UpdateEnvironment k e" st'] op_audits [of st "DeleteEnvironment k ek" st']
    op_audits [of st "CreateFlag now k f" st'] op_audits [of st "UpdateFlag now k f" st'] op_audits [of st "DeleteFlag k fk" st']
    op_audits [of st "CreateSegment k g" st'] op_audits [of st "UpdateSegment k g" st'] op_audits [of st "DeleteSegment k sk" st']
    op_audits [of st "UpsertFlagConfig k ek fk cfg" st'] by simp_all

lemma logged:
  assumes "ms_audits st = ms_audits (sv_store s) \<and> ms_audit_seq st = ms_audit_seq (sv_store s)"
  shows "\<exists>e. audit_of s now c pk a r i e \<and>
    entries_of (append_audit num now c pk a r i b af (s\<lparr>sv_store := st\<rparr>)) = (entries_of s)(pk := entries_of s pk @ [e])"
  using append_audit_entries [of "s\<lparr>sv_store := st\<rparr>" s] assms by simp

lemma unlogged: "ms_audits (sv_store s') = ms_audits (sv_store s) \<Longrightarrow> entries_of s' = entries_of s"
  by (simp add: entries_of_def fun_eq_iff)

lemma increment_audits:
  "mem_increment_env_version st k e = Inr (n, st') \<Longrightarrow> ms_audits st' = ms_audits st"
  by (drule increment_only_versions) (metis mem_store.select_convs(6) mem_store.surjective mem_store.update_convs(5))

text \<open>
  C28. The audit log is complete for projects, environments, flags and segments: a request that creates,
  updates or deletes one and succeeds adds exactly one entry, with the caller's address, the action, the
  resource and the time, and changes nothing else in the log; but changing a flag's configuration and
  issuing or revoking an SDK key leave no trace, and a new project is logged under no project at all.
\<close>

theorem audit_trail:
  assumes "handle num time now c req s = (st, s')" "st < 400"
  shows "case audit_record req of None \<Rightarrow> entries_of s' = entries_of s
    | Some (pk, a, r, i) \<Rightarrow> \<exists>e. audit_of s now c pk a r i e \<and>
        entries_of s' = (entries_of s)(pk := entries_of s pk @ [e])"
  using assms
  by (cases req)
    (auto simp: answered_def handlers checked_def Let_def split: option.splits sum.splits if_splits check.splits prod.splits
      dest!: store_audits increment_audits intro!: logged unlogged)

section \<open>The server's invariant\<close>

text \<open>What requests are made of: operations on the store, publications, and operations on the keys.\<close>

inductive server_moves :: "server \<Rightarrow> server \<Rightarrow> bool" where
  stay: "server_moves s s"
| store_step: "server_moves s t \<Longrightarrow> mem_apply (sv_store t) op = Inr st \<Longrightarrow> server_moves s (t\<lparr>sv_store := st\<rparr>)"
| hub_step: "server_moves s t \<Longrightarrow> server_moves s (t\<lparr>sv_hub := publish (sv_hub t) e m\<rparr>)"
| key_step: "server_moves s t \<Longrightarrow> server_moves s (t\<lparr>sv_keys := key_apply (sv_keys t) kop\<rparr>)"

lemma moves_inv:
  "server_moves s t \<Longrightarrow> mem_reachable (sv_store s) \<Longrightarrow> hub_inv (sv_hub s) \<Longrightarrow>
   mem_reachable (sv_store t) \<and> hub_inv (sv_hub t)"
  by (induction rule: server_moves.induct) (auto intro: mem_step hub_inv_publish)

lemma increment_step:
  "server_moves s t \<Longrightarrow> mem_increment_env_version (sv_store t) pk ek = Inr (v, st) \<Longrightarrow> server_moves s (t\<lparr>sv_store := st\<rparr>)"
  using store_step [of s t "IncrementEnvVersion pk ek" st] by simp

lemma audit_step: "server_moves s t \<Longrightarrow> server_moves s (append_audit num now c pk a r i b af t)"
  unfolding append_audit_def by (erule store_step [where op = "AppendAudit _"]) simp

lemma publish_envs_moves:
  "server_moves s t \<Longrightarrow> publish_envs num now pk es (sv_store t) (sv_hub t) = (st, h) \<Longrightarrow>
   server_moves s (t\<lparr>sv_store := st, sv_hub := h\<rparr>)"
proof (induction es arbitrary: t)
  case Nil
  then show ?case by (cases t) auto
next
  case (Cons e es)
  show ?case
  proof (cases "mem_increment_env_version (sv_store t) pk (env_key e)")
    case (Inl x)
    then show ?thesis using Cons by simp
  next
    case (Inr r)
    obtain v st1 where r: "mem_increment_env_version (sv_store t) pk (env_key e) = Inr (v, st1)" using Inr by (cases r) auto
    have m: "server_moves s (t\<lparr>sv_store := st1\<rparr>)" using Cons.prems(1) r by (rule increment_step)
    show ?thesis
    proof (cases "build num now (mem_view st1) pk (env_key e)")
      case (Inl x)
      then show ?thesis using Cons.IH [OF m] Cons.prems(2) r by simp
    next
      case (Inr sn)
      then show ?thesis using Cons.IH [OF hub_step [OF m, of "env_key e"]] Cons.prems(2) r by (simp add: put_message_def)
    qed
  qed
qed

lemma publish_step: "server_moves s t \<Longrightarrow> server_moves s (publish_change num now pk t)"
  using publish_envs_moves [of s t num now pk]
  by (cases t) (auto simp: publish_change_def publish_flag_change_def split: sum.split prod.split)

lemma handler_steps:
  assumes "server_moves s t"
  shows "mem_create_project (sv_store t) p = Inr st \<Longrightarrow> server_moves s (t\<lparr>sv_store := st\<rparr>)"
    "mem_update_project (sv_store t) p = Inr st \<Longrightarrow> server_moves s (t\<lparr>sv_store := st\<rparr>)"
    "mem_delete_project (sv_store t) k = Inr st \<Longrightarrow> server_moves s (t\<lparr>sv_store := st\<rparr>)"
    "mem_create_environment (sv_store t) k e = Inr st \<Longrightarrow> server_moves s (t\<lparr>sv_store := st\<rparr>)"
    "mem_update_environment (sv_store t) k e = Inr st \<Longrightarrow> server_moves s (t\<lparr>sv_store := st\<rparr>)"
    "mem_delete_environment (sv_store t) k ek = Inr st \<Longrightarrow> server_moves s (t\<lparr>sv_store := st\<rparr>)"
    "mem_create_flag now (sv_store t) k f = Inr st \<Longrightarrow> server_moves s (t\<lparr>sv_store := st\<rparr>)"
    "mem_update_flag now (sv_store t) k f = Inr st \<Longrightarrow> server_moves s (t\<lparr>sv_store := st\<rparr>)"
    "mem_delete_flag (sv_store t) k fk = Inr st \<Longrightarrow> server_moves s (t\<lparr>sv_store := st\<rparr>)"
    "mem_create_segment (sv_store t) k g = Inr st \<Longrightarrow> server_moves s (t\<lparr>sv_store := st\<rparr>)"
    "mem_update_segment (sv_store t) k g = Inr st \<Longrightarrow> server_moves s (t\<lparr>sv_store := st\<rparr>)"
    "mem_delete_segment (sv_store t) k sk = Inr st \<Longrightarrow> server_moves s (t\<lparr>sv_store := st\<rparr>)"
    "mem_upsert_flag_config (sv_store t) k ek fk cfg = Inr st \<Longrightarrow> server_moves s (t\<lparr>sv_store := st\<rparr>)"
  using store_step [OF assms, of "CreateProject p"] store_step [OF assms, of "UpdateProject p"]
    store_step [OF assms, of "DeleteProject k"] store_step [OF assms, of "CreateEnvironment k e"]
    store_step [OF assms, of "UpdateEnvironment k e"] store_step [OF assms, of "DeleteEnvironment k ek"]
    store_step [OF assms, of "CreateFlag now k f"] store_step [OF assms, of "UpdateFlag now k f"]
    store_step [OF assms, of "DeleteFlag k fk"] store_step [OF assms, of "CreateSegment k g"]
    store_step [OF assms, of "UpdateSegment k g"] store_step [OF assms, of "DeleteSegment k sk"]
    store_step [OF assms, of "UpsertFlagConfig k ek fk cfg"] by simp_all

lemma config_moves: "server_moves s (snd (put_flag_config num now pk fk ek b s))"
proof (cases b)
  case (Some cfg)
  show ?thesis
  proof (cases "mem_upsert_flag_config (sv_store s) pk ek fk cfg")
    case (Inr st)
    have m: "server_moves s (s\<lparr>sv_store := st\<rparr>)" using stay Inr by (rule handler_steps)
    show ?thesis
    proof (cases "mem_increment_env_version st pk ek")
      case (Inl x)
      then show ?thesis using m hub_step [OF m] Inr Some
        by (auto simp: put_flag_config_def Let_def split: sum.split)
    next
      case v: (Inr r)
      obtain n st' where r: "mem_increment_env_version st pk ek = Inr (n, st')" using v by (cases r) auto
      have m': "server_moves s (s\<lparr>sv_store := st'\<rparr>)" using increment_step [OF m, of pk ek n st'] r by simp
      show ?thesis using m' hub_step [OF m'] Inr Some r
        by (auto simp: put_flag_config_def Let_def split: sum.split)
    qed
  qed (use stay in \<open>simp add: put_flag_config_def Some\<close>)
qed (use stay in \<open>simp add: put_flag_config_def\<close>)

lemma key_moves:
  "server_moves s (snd (create_sdk_key now pk ek b s))" "server_moves s (snd (revoke_sdk_key pk ek v s))"
proof -
  have up: "server_moves s (s\<lparr>sv_store := st, sv_keys := key_apply (sv_keys s) kop\<rparr>)"
    if "mem_update_environment (sv_store s) pk e = Inr st" for e st kop
    using key_step [OF handler_steps(5) [OF stay that], of kop] by simp
  show "server_moves s (snd (create_sdk_key now pk ek b s))"
    using stay up [where kop = "Register _"] by (auto simp: create_sdk_key_def Let_def split: option.split sum.split)
  show "server_moves s (snd (revoke_sdk_key pk ek v s))"
    using stay up [where kop = "Revoke _"] by (auto simp: revoke_sdk_key_def split: sum.split)
qed

lemma handle_moves: "server_moves s (snd (handle num time now c req s))"
proof -
  note st = stay handler_steps [OF stay] audit_step publish_step
  show ?thesis
    by (cases req)
      (use config_moves key_moves in \<open>auto simp: answered_def create_project_def update_project_def delete_project_def
        create_environment_def update_environment_def delete_environment_def create_flag_def update_flag_def delete_flag_def
        create_segment_def update_segment_def delete_segment_def checked_def Let_def
        split: option.splits sum.splits check.splits intro: st\<close>)
qed

fun serve_all ::
    "auth_libs \<Rightarrow> string \<Rightarrow> (rat \<Rightarrow> string) \<Rightarrow> (int \<Rightarrow> string) \<Rightarrow> server \<Rightarrow> (int \<times> string \<times> request) list \<Rightarrow> server" where
  "serve_all A secret num time s [] = s"
| "serve_all A secret num time s ((now, header, req) # rs) =
     serve_all A secret num time (snd (serve_request A secret num time now header req s)) rs"

definition new_server :: server where
  "new_server = \<lparr>sv_store = new_memory_store, sv_hub = new_hub, sv_keys = new_authenticator\<rparr>"

definition server_inv :: "server \<Rightarrow> bool" where
  "server_inv s \<longleftrightarrow> mem_reachable (sv_store s) \<and> hub_inv (sv_hub s)"

lemma handle_inv: "server_inv s \<Longrightarrow> server_inv (snd (handle num time now c req s))"
  using moves_inv [OF handle_moves] by (auto simp: server_inv_def)

lemma serve_inv: "server_inv s \<Longrightarrow> server_inv (snd (serve_request A secret num time now header req s))"
  using handle_inv by (auto simp: serve_request_def split: sum.split option.split)

lemma serve_all_inv: "server_inv s \<Longrightarrow> server_inv (serve_all A secret num time s rs)"
  by (induction rs arbitrary: s) (auto simp: serve_inv)


section \<open>SDK keys that outlive their environment\<close>

lemma keys_only_by_key_requests:
  "\<not> (\<exists>pk ek b. req = PostKey pk ek b) \<Longrightarrow> \<not> (\<exists>pk ek v. req = RemoveKey pk ek v) \<Longrightarrow>
   sv_keys (snd (handle num time now c req s)) = sv_keys s"
  by (cases req) (auto simp: answered_def handlers checked_def Let_def
      split: option.splits sum.splits if_splits check.splits prod.splits)

lemma replace_find: "replace_env e es = Some es' \<Longrightarrow> find_env (env_key e) es' = Some e"
proof (induction e es arbitrary: es' rule: replace_env.induct)
  case (2 e x xs)
  then show ?case by (auto simp: find_env_def split: if_splits)
qed simp

lemma update_then_get:
  "mem_update_environment s pk e = Inr s' \<Longrightarrow> mem_get_environment s' pk (env_key e) = Inr e"
  by (auto simp: mem_update_environment_def mem_get_environment_def map_simps replace_find split: option.splits)

text \<open>
  Deleting a project or an environment revokes none of its SDK keys, and replacing an environment
  by one whose list lacks a key makes that key irrevocable: it goes on authenticating while its
  revocation is answered with 404.
\<close>

theorem keys_outlive_environments:
  assumes "authenticate_sdk (sv_keys s) (''Bearer '' @ v) = Some rec"
  shows "authenticate_sdk (sv_keys (snd (handle num time now c (RemoveProject pk) s))) (''Bearer '' @ v) = Some rec \<and>
    authenticate_sdk (sv_keys (snd (handle num time now c (RemoveEnvironment pk ek) s))) (''Bearer '' @ v) = Some rec \<and>
    (\<forall>e s1. handle num time now c (PutEnvironment pk ek (Some e)) s = (200, s1) \<and> v \<notin> sk_value ` set (env_sdk_keys e) \<longrightarrow>
       handle num time now' c' (RemoveKey pk ek v) s1 = (404, s1) \<and>
       authenticate_sdk (sv_keys s1) (''Bearer '' @ v) = Some rec)"
proof -
  have put: "handle num time now' c' (RemoveKey pk ek v) s1 = (404, s1) \<and>
      authenticate_sdk (sv_keys s1) (''Bearer '' @ v) = Some rec"
    if h: "handle num time now c (PutEnvironment pk ek (Some e)) s = (200, s1)" and "v \<notin> sk_value ` set (env_sdk_keys e)" for e s1
  proof -
    let ?e = "e\<lparr>env_key := ek, env_project_key := pk\<rparr>"
    obtain st where st: "mem_update_environment (sv_store s) pk ?e = Inr st" and s1: "ms_projects (sv_store s1) = ms_projects st"
      using h by (auto simp: answered_def update_environment_def Let_def append_audit_def mem_append_audit_def split: sum.splits)
    have "mem_get_environment st pk ek = Inr ?e" using update_then_get [OF st] by simp
    then have "mem_get_environment (sv_store s1) pk ek = Inr ?e" by (simp add: mem_get_environment_def s1)
    then have "handle num time now' c' (RemoveKey pk ek v) s1 = (404, s1)"
      using that(2) by (auto simp: answered_def revoke_sdk_key_def list_ex_iff)
    moreover have "sv_keys s1 = sv_keys s"
      using keys_only_by_key_requests [of "PutEnvironment pk ek (Some e)" num time now c s] h by simp
    ultimately show ?thesis using assms by simp
  qed
  have "sv_keys (snd (handle num time now c (RemoveProject pk) s)) = sv_keys s"
    "sv_keys (snd (handle num time now c (RemoveEnvironment pk ek) s)) = sv_keys s"
    by (rule keys_only_by_key_requests; simp)+
  then show ?thesis using put assms by auto
qed

section \<open>Pages\<close>

lemma pagination_bounds:
  "parse_pagination lm off = (l, f) \<Longrightarrow> 1 \<le> l \<and> l \<le> 500 \<and> 0 \<le> f"
  by (auto simp: parse_pagination_def Let_def split: option.splits if_splits)

lemma page_slice:
  assumes "0 < l" "0 \<le> f" "int (length items) + l < 2 ^ 63"
  shows "fst (apply_pagination items l f) = take (nat l) (drop (nat f) items)"
proof (cases "int (length items) \<le> f")
  case True
  then show ?thesis by (simp add: apply_pagination_def)
next
  case False
  then have w: "wrap64 (f + l) = f + l" using assms by (intro wrap64_id) (simp add: int64_range_def)
  show ?thesis
  proof (cases "int (length items) < f + l")
    case True
    then have "length (drop (nat f) items) \<le> nat l" using False assms by (simp add: nat_le_iff)
    then show ?thesis using False True by (simp add: apply_pagination_def Let_def w)
  next
    case f2: False
    then have "nat (f + l) - nat f = nat l" using assms by simp
    then show ?thesis using False f2 by (simp add: apply_pagination_def Let_def w)
  qed
qed

lemma slices: "concat (map (\<lambda>i. take l (drop (i * l) xs)) [0..<n]) = take (n * l) xs"
proof (induction n)
  case (Suc n)
  have "Suc n * l = n * l + l" by simp
  then show ?case using Suc by (simp only: take_add) simp
qed simp

text \<open>
  Paging is exact: limits are between 1 and 500 and offsets not negative whatever the query says,
  and the pages fetched at the offsets 0, l, 2l and so on, strung together, are the list itself, each
  item once and in order.
\<close>

theorem pages_partition:
  assumes "int (length items) < 2 ^ 62" "int l < 2 ^ 62" "0 < l" "length items \<le> n * l"
  shows "concat (map (\<lambda>i. fst (apply_pagination items (int l) (int (i * l)))) [0..<n]) = items \<and>
    (case parse_pagination lm off of (l', f) \<Rightarrow> 1 \<le> l' \<and> l' \<le> 500 \<and> 0 \<le> f) \<and>
    length (fst (page_of items lm off)) \<le> 500"
proof -
  have "map (\<lambda>i. fst (apply_pagination items (int l) (int (i * l)))) [0..<n] = map (\<lambda>i. take l (drop (i * l) items)) [0..<n]"
    using assms(1-3) by (intro map_cong refl) (subst page_slice; simp add: nat_mult_distrib)
  then have "concat (map (\<lambda>i. fst (apply_pagination items (int l) (int (i * l)))) [0..<n]) = items"
    using assms(4) by (simp only: slices take_all)
  moreover obtain l' f where p: "parse_pagination lm off = (l', f)" by fastforce
  note b = pagination_bounds [OF p]
  have "fst (apply_pagination items l' f) = take (nat l') (drop (nat f) items)"
    using b assms(1) by (intro page_slice) simp_all
  then have "length (fst (apply_pagination items l' f)) \<le> 500" using b by (auto simp: min_def)
  then have "length (fst (page_of items lm off)) \<le> 500" by (cases "apply_pagination items l' f") (simp add: page_of_def p)
  ultimately show ?thesis using b p by simp
qed

lemma pages_partition_witness:
  "concat (map (\<lambda>i. fst (apply_pagination [10, 20, 30 :: int] (int 2) (int (i * 2)))) [0..<2]) = [10, 20, 30]"
  by (rule conjunct1 [OF pages_partition [of "[10, 20, 30]" 2 2]]) simp_all

section \<open>From a request to the subscribers\<close>

lemma update_steps:
  assumes "handle num time now c (PutFlag pk fk (Some f)) s = (200, s')"
    and "mem_list_environments (sv_store s) pk = Inr [e]" "version_at (sv_store s) pk (env_key e) = Some v"
  obtains st where "mem_update_flag now (sv_store s) pk (f\<lparr>flag_key := fk\<rparr>) = Inr st"
    "ms_flags (sv_store s') = ms_flags st" "ms_segments (sv_store s') = ms_segments (sv_store s)"
    "ms_configs (sv_store s') = ms_configs (sv_store s)"
    "version_at (sv_store s') pk (env_key e) = Some (wrap64 (v + 1))"
    "\<And>sn. build num now (mem_view (sv_store s')) pk (env_key e) = Inr sn \<Longrightarrow>
       sv_hub s' = publish (sv_hub s) (env_key e) (put_message (wrap64 (v + 1)) sn)"
proof -
  let ?f = "f\<lparr>flag_key := fk\<rparr>"
  obtain st where st: "mem_update_flag now (sv_store s) pk ?f = Inr st"
    and s': "s' = publish_change num now pk (append_audit num now c pk ''update'' ''flag'' fk
      (found (flag_json time) (mem_get_flag (sv_store s) pk fk)) (Some (flag_json time (?f\<lparr>flag_updated_at := now\<rparr>)))
      (s\<lparr>sv_store := st\<rparr>))"
    using assms(1) by (auto simp: answered_def update_flag_def Let_def checked_def split: sum.splits check.splits)
  define t where "t = append_audit num now c pk ''update'' ''flag'' fk
      (found (flag_json time) (mem_get_flag (sv_store s) pk fk)) (Some (flag_json time (?f\<lparr>flag_updated_at := now\<rparr>)))
      (s\<lparr>sv_store := st\<rparr>)"
  have t: "sv_hub t = sv_hub s" "ms_projects (sv_store t) = ms_projects (sv_store s)"
    "ms_versions (sv_store t) = ms_versions (sv_store s)" "ms_flags (sv_store t) = ms_flags st"
    "ms_segments (sv_store t) = ms_segments (sv_store s)" "ms_configs (sv_store t) = ms_configs (sv_store s)"
    using st by (auto simp: t_def append_audit_def mem_append_audit_def Let_def update_flag_iff)
  have envs: "mem_list_environments (sv_store t) pk = Inr [e]"
    using assms(2) by (simp add: mem_list_environments_def t)
  have vt: "version_at (sv_store t) pk (env_key e) = Some v" using assms(3) version_same [OF t(3)] by simp
  obtain st' where inc: "mem_increment_env_version (sv_store t) pk (env_key e) = Inr (wrap64 (v + 1), st')"
    using vt by (auto simp: mem_increment_env_version_def version_at_bind bind_eq_Some_conv split: option.splits)
  have store': "sv_store s' = st'"
    unfolding s' t_def [symmetric] by (simp add: publish_change_def publish_flag_change_def envs inc split: sum.split)
  show thesis
  proof (rule that [OF st])
    show "ms_flags (sv_store s') = ms_flags st" "ms_segments (sv_store s') = ms_segments (sv_store s)"
      "ms_configs (sv_store s') = ms_configs (sv_store s)"
      by (subst store', subst increment_only_versions [OF inc], simp add: t)+
    show "version_at (sv_store s') pk (env_key e) = Some (wrap64 (v + 1))"
      using increment_version [OF inc, of pk "env_key e"] by (simp add: store')
    fix sn assume "build num now (mem_view (sv_store s')) pk (env_key e) = Inr sn"
    then show "sv_hub s' = publish (sv_hub s) (env_key e) (put_message (wrap64 (v + 1)) sn)"
      unfolding store' unfolding s' t_def [symmetric]
      by (simp add: publish_change_def publish_flag_change_def envs inc put_message_def t(1))
  qed
qed


section \<open>Examples\<close>

definition editor_claims :: claims where
  "editor_claims = \<lparr>cla_user_id = ''u'', cla_email = ''e'', cla_name = [], cla_role = RoleEditor\<rparr>"

lemma create_on_empty:
  "create_project (\<lambda>_. []) (\<lambda>_. []) 0 c (Some sample_project) new_server =
     (Reply 201 sample_project, snd (create_project (\<lambda>_. []) (\<lambda>_. []) 0 c (Some sample_project) new_server)) \<and>
   ms_projects (sv_store (snd (create_project (\<lambda>_. []) (\<lambda>_. []) 0 c (Some sample_project) new_server))) = [(''p'', sample_project)]"
  by (simp add: create_project_def mem_create_project_def new_server_def new_memory_store_def sample_project_def
      append_audit_def mem_append_audit_def Let_def)

lemma toy_editor: "jwt_middleware toy_libs ''k'' 0 ''Bearer x'' = Inr editor_claims"
  by (simp add: jwt_middleware_def bearer_token_def jwt_verify_def toy_libs_def nanos_def toy_claims_def editor_claims_def)


lemma audit_trail_witness:
  "\<exists>s' e. handle (\<lambda>_. []) (\<lambda>_. []) 0 None (PostProject (Some sample_project)) new_server = (201, s') \<and>
     au_actor e = ''anonymous'' \<and> entries_of s' = (\<lambda>_. [])([] := [e])"
proof -
  obtain s' where s': "create_project (\<lambda>_. []) (\<lambda>_. []) 0 None (Some sample_project) new_server = (Reply 201 sample_project, s')"
    using create_on_empty [of None] by auto
  then have h: "handle (\<lambda>_. []) (\<lambda>_. []) 0 None (PostProject (Some sample_project)) new_server = (201, s')"
    by (simp add: answered_def)
  have "entries_of new_server = (\<lambda>_. [])" by (simp add: entries_of_def new_server_def new_memory_store_def fun_eq_iff)
  then show ?thesis using audit_trail [OF h] h by (auto simp: audit_of_def)
qed

lemma keys_outlive_environments_witness:
  "\<exists>s s1. authenticate_sdk (sv_keys s) (''Bearer '' @ ''k1'') = Some sample_key \<and>
     handle (\<lambda>_. []) (\<lambda>_. []) 0 None (PutEnvironment ''p'' ''prod'' (Some sample_env)) s = (200, s1) \<and>
     handle (\<lambda>_. []) (\<lambda>_. []) 0 None (RemoveKey ''p'' ''prod'' ''k1'') s1 = (404, s1) \<and>
     authenticate_sdk (sv_keys s1) (''Bearer '' @ ''k1'') = Some sample_key"
proof -
  obtain st where st: "mem_list_environments st ''p'' = Inr [sample_env]" by (rule sample_states)
  let ?s = "\<lparr>sv_store = st, sv_hub = new_hub, sv_keys = register new_authenticator sample_key\<rparr>"
  have a: "authenticate_sdk (sv_keys ?s) (''Bearer '' @ ''k1'') = Some sample_key"
    by (simp add: authenticate_sdk_def extract_bearer_def bearer_prefix_def register_def lookup_key_def
        new_authenticator_def sample_key_def)
  obtain s1 where s1: "handle (\<lambda>_. []) (\<lambda>_. []) 0 None (PutEnvironment ''p'' ''prod'' (Some sample_env)) ?s = (200, s1)"
    using st by (auto simp: answered_def update_environment_def Let_def mem_list_environments_def
        mem_update_environment_def sample_env_def split: option.splits)
  have "''k1'' \<notin> sk_value ` set (env_sdk_keys sample_env)" by (simp add: sample_env_def)
  with keys_outlive_environments [OF a] s1 have "handle (\<lambda>_. []) (\<lambda>_. []) 0 None (RemoveKey ''p'' ''prod'' ''k1'') s1 = (404, s1) \<and>
     authenticate_sdk (sv_keys s1) (''Bearer '' @ ''k1'') = Some sample_key" by blast
  then show ?thesis using a s1 by blast
qed

lemma one_flag_build:
  assumes "cv_version cv pk ek = Inr v" "cv_flags cv pk = Inr [f]" "cv_segments cv pk = Inr []" "\<not> flag_archived f"
    and "\<bar>v\<bar> \<le> 2 ^ 53" "decodable (resolved_json (resolve_flag f (config_or_off cv pk ek (flag_key f))))"
  shows "\<exists>sn. build num now cv pk ek = Inr sn"
proof -
  let ?m = "[(flag_key f, resolve_flag f (config_or_off cv pk ek (flag_key f)))]"
  let ?sn = "\<lparr>sn_environment_key = ek, sn_project_key = pk, sn_version = v, sn_flags = ?m,
     sn_segments = [], sn_checksum = [], sn_published_at = now\<rparr>"
  have m: "resolve_flags cv pk ek [f] [] = ?m" using assms(4) by (simp add: config_or_off_def)
  have "decodable (payload_json ?sn)" using num_fits_small [OF assms(5)] assms(6)
    by (simp add: decodable_def payload_json_def json_map_def jint_def)
  then obtain c where "checksum num ?sn = Some c" by (simp add: checksum_def canonical_json_canon)
  then have "build num now cv pk ek = Inr (?sn\<lparr>sn_checksum := c\<rparr>)"
    using assms(1-3) m by (simp add: build_def Let_def)
  then show ?thesis by blast
qed


end
