(* ===== verification/RateLimit.thy ===== *)
theory RateLimit
  imports Prelude Complex_Main
begin

text \<open>
  Rate limiting, \<open>internal/ratelimit/limiter.go\<close>: the table of limiters with its cleanup and the three
  middlewares that ask it.

  The limiter itself is \<open>rate.Limiter\<close> of \<open>golang.org/x/time\<close>; it is an argument: \<open>fresh\<close>, the limiter \<open>NewLimiter\<close>
  makes, and \<open>allow\<close>, its answer and next state at a time. What its documentation promises, that from its
  creation it grants at most the burst plus the rate times the time passed, is the locale \<open>rate_limiter\<close>,
  and the token bucket of the documentation is an instance. Times are in seconds.

  The lemmas bound what one key is granted, cleanup included, and show what the choice of the key lets
  through.
\<close>

section \<open>The table\<close>

record 'l limit_entry =
  le_limiter :: 'l
  le_last_seen :: rat

type_synonym 'l limit_store = "'l limit_entry gomap"

definition new_limit_store :: "'l limit_store" where
  "new_limit_store = []"

text \<open>\<open>getLimiter\<close> and the call of its limiter; the table keeps a pointer, so the limiter's new state is in it.\<close>

definition get_limiter :: "'l \<Rightarrow> rat \<Rightarrow> 'l limit_store \<Rightarrow> string \<Rightarrow> 'l limit_entry" where
  "get_limiter fresh now s k =
     \<lparr>le_limiter = (case mget s k of None \<Rightarrow> fresh | Some e \<Rightarrow> le_limiter e), le_last_seen = now\<rparr>"

definition allow_key ::
    "'l \<Rightarrow> (rat \<Rightarrow> 'l \<Rightarrow> bool \<times> 'l) \<Rightarrow> rat \<Rightarrow> 'l limit_store \<Rightarrow> string \<Rightarrow> bool \<times> 'l limit_store" where
  "allow_key fresh allow now s k =
     (let e = get_limiter fresh now s k; r = allow now (le_limiter e)
      in (fst r, mput k (e\<lparr>le_limiter := snd r\<rparr>) s))"

text \<open>One tick of \<open>cleanup\<close>.\<close>

definition cleanup :: "rat \<Rightarrow> 'l limit_store \<Rightarrow> 'l limit_store" where
  "cleanup now s = filter (\<lambda>(k, e). \<not> 300 < now - le_last_seen e) s"

section \<open>The middlewares\<close>

text \<open>
  What they read of a request; an absent header or parameter is empty. \<open>split\<close> is \<open>net.SplitHostPort\<close>
  without the port. The answer is the status they stop with, or \<open>None\<close> when the next handler is called.
\<close>

record limited_request =
  lr_path :: string
  lr_remote_addr :: string
  lr_real_ip :: string
  lr_authorization :: string
  lr_sdk_key :: string

definition client_ip :: "(string \<Rightarrow> string option) \<Rightarrow> limited_request \<Rightarrow> string" where
  "client_ip split r =
     (let ip = (case split (lr_remote_addr r) of None \<Rightarrow> lr_remote_addr r | Some h \<Rightarrow> h)
      in if lr_real_ip r \<noteq> [] then lr_real_ip r else ip)"

definition stream_path :: string where
  "stream_path = ''/sdk/v1/stream''"

definition limit_key ::
    "'l \<Rightarrow> (rat \<Rightarrow> 'l \<Rightarrow> bool \<times> 'l) \<Rightarrow> rat \<Rightarrow> string \<Rightarrow> 'l limit_store \<Rightarrow> int option \<times> 'l limit_store" where
  "limit_key fresh allow now k s =
     (case allow_key fresh allow now s k of (granted, s') \<Rightarrow> (if granted then None else Some 429, s'))"

definition ip_middleware ::
    "'l \<Rightarrow> (rat \<Rightarrow> 'l \<Rightarrow> bool \<times> 'l) \<Rightarrow> (string \<Rightarrow> string option) \<Rightarrow> rat \<Rightarrow> limited_request \<Rightarrow> 'l limit_store \<Rightarrow>
     int option \<times> 'l limit_store" where
  "ip_middleware fresh allow split now r s =
     (if lr_path r = stream_path then (None, s) else limit_key fresh allow now (client_ip split r) s)"

definition extract_sdk_key :: "limited_request \<Rightarrow> string" where
  "extract_sdk_key r =
     (let h = lr_authorization r
      in if 7 < length h \<and> take 7 h = ''Bearer '' then drop 7 h else lr_sdk_key r)"

definition sdk_key_middleware ::
    "'l \<Rightarrow> (rat \<Rightarrow> 'l \<Rightarrow> bool \<times> 'l) \<Rightarrow> rat \<Rightarrow> limited_request \<Rightarrow> 'l limit_store \<Rightarrow> int option \<times> 'l limit_store" where
  "sdk_key_middleware fresh allow now r s =
     (if lr_path r = stream_path then (None, s)
      else if extract_sdk_key r = [] then (None, s)
      else limit_key fresh allow now (extract_sdk_key r) s)"

definition login_middleware ::
    "'l \<Rightarrow> (rat \<Rightarrow> 'l \<Rightarrow> bool \<times> 'l) \<Rightarrow> (string \<Rightarrow> string option) \<Rightarrow> rat \<Rightarrow> limited_request \<Rightarrow> 'l limit_store \<Rightarrow>
     int option \<times> 'l limit_store" where
  "login_middleware fresh allow split now r s = limit_key fresh allow now (client_ip split r) s"

section \<open>What a limiter promises\<close>

text \<open>The number of calls granted, of calls at the given times.\<close>

fun granted :: "(rat \<Rightarrow> 'l \<Rightarrow> bool \<times> 'l) \<Rightarrow> 'l \<Rightarrow> rat list \<Rightarrow> nat \<times> 'l" where
  "granted allow l [] = (0, l)"
| "granted allow l (t # ts) =
     (case allow t l of (b, l') \<Rightarrow> case granted allow l' ts of (n, l'') \<Rightarrow> ((if b then Suc n else n), l''))"

lemma granted_append: "granted allow l (ts @ us) =
    (fst (granted allow l ts) + fst (granted allow (snd (granted allow l ts)) us),
     snd (granted allow (snd (granted allow l ts)) us))"
  by (induction ts arbitrary: l) (auto split: prod.splits)

locale rate_limiter =
  fixes fresh :: 'l
    and allow :: "rat \<Rightarrow> 'l \<Rightarrow> bool \<times> 'l"
    and rps :: rat
    and burst :: nat
  assumes rps_nonneg: "0 \<le> rps"
    and first: "0 < burst \<Longrightarrow> fst (allow t fresh)"
    and bounded: "sorted (t # ts) \<Longrightarrow>
      of_nat (fst (granted allow fresh (t # ts))) \<le> of_nat burst + rps * (last (t # ts) - t)"

text \<open>What happens to the table: requests of keys, and ticks of the cleanup.\<close>

datatype 'k limit_event = Hit 'k rat | Tick rat

fun event_time :: "'k limit_event \<Rightarrow> rat" where
  "event_time (Hit _ t) = t"
| "event_time (Tick t) = t"

fun limit_step :: "'l \<Rightarrow> (rat \<Rightarrow> 'l \<Rightarrow> bool \<times> 'l) \<Rightarrow> string \<Rightarrow> nat \<times> 'l limit_store \<Rightarrow> string limit_event \<Rightarrow> nat \<times> 'l limit_store" where
  "limit_step fresh allow k (n, s) (Hit j t) =
     (case allow_key fresh allow t s j of (b, s') \<Rightarrow> (if b \<and> j = k then Suc n else n, s'))"
| "limit_step fresh allow k (n, s) (Tick t) = (n, cleanup t s)"

lemma mget_cleanup: "wf_map s \<Longrightarrow> mget (cleanup now s) k =
    (case mget s k of None \<Rightarrow> None | Some e \<Rightarrow> if 300 < now - le_last_seen e then None else Some e)"
  by (induction s) (auto simp: cleanup_def wf_map_def map_of_eq_None_iff image_iff split: option.splits)

lemma wf_cleanup: "wf_map s \<Longrightarrow> wf_map (cleanup now s)"
  by (simp add: wf_map_def cleanup_def distinct_map_filter)

context rate_limiter
begin

text \<open>
  The grants so far are those before the key's entry was made, covered by the time before its first
  call, and those of the entry's limiter, which has served the calls \<open>t # ts\<close>.
\<close>

definition serving :: "rat \<Rightarrow> rat \<Rightarrow> nat \<Rightarrow> 'l limit_entry \<Rightarrow> bool" where
  "serving t0 now n e \<longleftrightarrow> (\<exists>m t ts. sorted (t # ts) \<and> last (t # ts) \<le> now \<and> le_last_seen e = last (t # ts) \<and>
     le_limiter e = snd (granted allow fresh (t # ts)) \<and>
     of_nat m \<le> rps * (t - t0) \<and> n = m + fst (granted allow fresh (t # ts)))"

definition covered :: "string \<Rightarrow> rat \<Rightarrow> rat \<Rightarrow> nat \<times> 'l limit_store \<Rightarrow> bool" where
  "covered k t0 now st \<longleftrightarrow> wf_map (snd st) \<and>
     (case mget (snd st) k of None \<Rightarrow> of_nat (fst st) \<le> rps * (now - t0) | Some e \<Rightarrow> serving t0 now (fst st) e)"

lemma servingI:
  "sorted (t # ts) \<Longrightarrow> last (t # ts) \<le> now \<Longrightarrow> le_last_seen e = last (t # ts) \<Longrightarrow>
   le_limiter e = snd (granted allow fresh (t # ts)) \<Longrightarrow> of_nat m \<le> rps * (t - t0) \<Longrightarrow>
   n = m + fst (granted allow fresh (t # ts)) \<Longrightarrow> serving t0 now n e"
  unfolding serving_def by blast

lemma serving_bound: "serving t0 now n e \<Longrightarrow> of_nat n \<le> of_nat burst + rps * (le_last_seen e - t0)"
  and serving_seen: "serving t0 now n e \<Longrightarrow> le_last_seen e \<le> now"
proof -
  assume "serving t0 now n e"
  then obtain m t ts where e: "sorted (t # ts)" "last (t # ts) \<le> now" "le_last_seen e = last (t # ts)"
      "of_nat m \<le> rps * (t - t0)" "n = m + fst (granted allow fresh (t # ts))"
    unfolding serving_def by blast
  show "of_nat n \<le> of_nat burst + rps * (le_last_seen e - t0)"
    using e(4) bounded [OF e(1)] unfolding e(3,5) by (simp only: of_nat_add right_diff_distrib)
  show "le_last_seen e \<le> now" using e(2,3) by simp
qed

lemma serving_later: "serving t0 now n e \<Longrightarrow> now \<le> now' \<Longrightarrow> serving t0 now' n e"
  unfolding serving_def by (elim exE conjE) (intro exI conjI; (assumption | rule order_trans; assumption))

lemma rps_mono: "x \<le> y \<Longrightarrow> rps * x \<le> rps * y"
  using rps_nonneg by (rule mult_left_mono [rotated])

lemma covered_bound: "covered k t0 now st \<Longrightarrow> of_nat (fst st) \<le> of_nat burst + rps * (now - t0)"
proof (cases "mget (snd st) k")
  case None
  moreover assume "covered k t0 now st"
  ultimately show ?thesis by (simp add: covered_def add_increasing)
next
  case (Some e)
  moreover assume "covered k t0 now st"
  ultimately have s: "serving t0 now (fst st) e" by (simp add: covered_def)
  show ?thesis using serving_bound [OF s] rps_mono [of "le_last_seen e - t0" "now - t0"] serving_seen [OF s] by simp
qed

lemma covered_later: "covered k t0 now st \<Longrightarrow> now \<le> now' \<Longrightarrow> covered k t0 now' st"
  using rps_mono [of "now - t0" "now' - t0"]
  by (auto simp: covered_def intro: serving_later split: option.splits)

lemma serving_first: "of_nat n \<le> rps * (t - t0) \<Longrightarrow>
    serving t0 t (n + (if fst (allow t fresh) then 1 else 0)) \<lparr>le_limiter = snd (allow t fresh), le_last_seen = t\<rparr>"
  by (rule servingI [of t "[]"]) (simp_all split: prod.split)

lemma serving_next:
  assumes "serving t0 now n e" "now \<le> t"
  shows "serving t0 t (n + (if fst (allow t (le_limiter e)) then 1 else 0))
    \<lparr>le_limiter = snd (allow t (le_limiter e)), le_last_seen = t\<rparr>"
proof -
  obtain m u us where e: "sorted (u # us)" "last (u # us) \<le> now" "le_limiter e = snd (granted allow fresh (u # us))"
      "of_nat m \<le> rps * (u - t0)" "n = m + fst (granted allow fresh (u # us))"
    using assms(1) unfolding serving_def by blast
  have last: "x \<le> last (u # us)" if "x \<in> set (u # us)" for x
    using e(1) that by (induction us arbitrary: u) (auto split: if_splits)
  have srt: "sorted (u # us @ [t])"
    using e(1) last order_trans [OF e(2) assms(2)] by (force simp: sorted_append)
  have g: "granted allow fresh (u # us @ [t]) =
      (fst (granted allow fresh (u # us)) + (if fst (allow t (le_limiter e)) then 1 else 0), snd (allow t (le_limiter e)))"
    using granted_append [of allow fresh "u # us" "[t]"] unfolding e(3) append_Cons
    by (simp del: granted.simps(2)) (simp split: prod.split)
  show ?thesis
    by (rule servingI [of u "us @ [t]" _ _ m]) (use srt e(4,5) g in \<open>simp_all del: granted.simps\<close>)
qed

lemma hit_same: "limit_step fresh allow k (n, s) (Hit k t) =
    (let l = (case mget s k of None \<Rightarrow> fresh | Some e \<Rightarrow> le_limiter e)
     in (n + (if fst (allow t l) then 1 else 0), mput k \<lparr>le_limiter = snd (allow t l), le_last_seen = t\<rparr> s))"
  by (simp add: allow_key_def get_limiter_def Let_def)

lemma covered_step:
  assumes c: "covered k t0 now st" and le: "now \<le> event_time ev" and b: "of_nat burst \<le> rps * 300"
  shows "covered k t0 (event_time ev) (limit_step fresh allow k st ev)"
proof -
  obtain n s where st: "st = (n, s)" by fastforce
  note c' = covered_later [OF c le, unfolded st]
  have wf: "wf_map s" using c by (simp add: covered_def st)
  show ?thesis
  proof (cases ev)
    case (Tick t)
    show ?thesis
    proof (cases "mget s k")
      case None
      with c' wf show ?thesis by (simp add: st Tick covered_def mget_cleanup wf_cleanup)
    next
      case (Some e)
      then have sv: "serving t0 now n e" using c by (simp add: covered_def st)
      have "of_nat n \<le> rps * (t - t0)" if "300 < t - le_last_seen e"
        using serving_bound [OF sv] rps_mono [of 300 "t - le_last_seen e"] that b by (simp add: algebra_simps)
      with Some c' wf show ?thesis by (simp add: st Tick covered_def mget_cleanup wf_cleanup)
    qed
  next
    case (Hit j t)
    show ?thesis
    proof (cases "j = k")
      case False
      with c' wf show ?thesis
        by (cases "mget s k") (simp_all add: st Hit covered_def allow_key_def Let_def map_simps False [symmetric])
    next
      case True
      show ?thesis
      proof (cases "mget s k")
        case None
        with c' have "of_nat n \<le> rps * (t - t0)" by (simp add: covered_def Hit)
        from serving_first [OF this] None wf show ?thesis
          unfolding st Hit True hit_same by (simp add: covered_def Let_def map_simps)
      next
        case (Some e)
        then have "serving t0 now n e" using c by (simp add: covered_def st)
        from serving_next [OF this, of t] le Some wf show ?thesis
          unfolding st Hit True hit_same by (simp add: covered_def Let_def map_simps)
      qed
    qed
  qed
qed

lemma covered_run:
  "covered k t0 now st \<Longrightarrow> sorted (now # map event_time evs) \<Longrightarrow> of_nat burst \<le> rps * 300 \<Longrightarrow>
   covered k t0 (last (now # map event_time evs)) (foldl (limit_step fresh allow k) st evs)"
proof (induction evs arbitrary: now st)
  case (Cons ev evs)
  from Cons.IH [OF covered_step [OF Cons.prems(1) _ Cons.prems(3)]] Cons.prems(2,3) show ?case by simp
qed simp

lemma key_bound:
  assumes "sorted (t0 # map event_time evs)" "of_nat burst \<le> rps * 300"
  shows "of_nat (fst (foldl (limit_step fresh allow k) (0, new_limit_store) evs)) \<le>
    of_nat burst + rps * (last (t0 # map event_time evs) - t0)"
proof -
  have "covered k t0 t0 (0, new_limit_store)" by (simp add: covered_def new_limit_store_def)
  from covered_bound [OF covered_run [OF this assms]] show ?thesis .
qed

end

section \<open>The token bucket\<close>

text \<open>
  The limiter as its documentation has it: a bucket of size \<open>burst\<close>, initially full, refilled at \<open>rps\<close> tokens
  per second; a call that finds no token leaves it as it is.
\<close>

record token_bucket =
  tb_tokens :: rat
  tb_last :: "rat option"

definition full_bucket :: "nat \<Rightarrow> token_bucket" where
  "full_bucket burst = \<lparr>tb_tokens = of_nat burst, tb_last = None\<rparr>"

definition take_token :: "rat \<Rightarrow> nat \<Rightarrow> rat \<Rightarrow> token_bucket \<Rightarrow> bool \<times> token_bucket" where
  "take_token rps burst t b =
     (let refill = (case tb_last b of None \<Rightarrow> 0 | Some l \<Rightarrow> rps * (t - l));
          available = min (of_nat burst) (tb_tokens b + refill)
      in if 1 \<le> available then (True, \<lparr>tb_tokens = available - 1, tb_last = Some t\<rparr>) else (False, b))"

lemma granted_Cons: "granted allow l (t # ts) =
    ((if fst (allow t l) then 1 else 0) + fst (granted allow (snd (allow t l)) ts), snd (granted allow (snd (allow t l)) ts))"
  by (simp split: prod.split)

lemma take_token_next: "take_token rps burst t \<lparr>tb_tokens = x, tb_last = Some l\<rparr> =
    (if 1 \<le> min (of_nat burst) (x + rps * (t - l))
     then (True, \<lparr>tb_tokens = min (of_nat burst) (x + rps * (t - l)) - 1, tb_last = Some t\<rparr>)
     else (False, \<lparr>tb_tokens = x, tb_last = Some l\<rparr>))"
  by (simp add: take_token_def Let_def)

lemma bucket_grants:
  "sorted (l # ts) \<Longrightarrow> 0 \<le> x \<Longrightarrow> 0 \<le> rps \<Longrightarrow>
   of_nat (fst (granted (take_token rps burst) \<lparr>tb_tokens = x, tb_last = Some l\<rparr> ts)) \<le> x + rps * (last (l # ts) - l)"
proof (induction ts arbitrary: l x)
  case (Cons t ts)
  define y where "y = min (of_nat burst) (x + rps * (t - l))"
  have srt: "sorted (t # ts)" "sorted (l # ts)" and le: "l \<le> t" using Cons.prems(1) by auto
  note step = take_token_next [of rps burst t x l, folded y_def]
  show ?case
  proof (cases "1 \<le> y")
    case True
    have "of_nat (fst (granted (take_token rps burst) \<lparr>tb_tokens = y - 1, tb_last = Some t\<rparr> ts))
        \<le> y - 1 + rps * (last (t # ts) - t)"
      using Cons.IH [OF srt(1) _ Cons.prems(3), of "y - 1"] True by simp
    moreover have "y \<le> x + rps * (t - l)" by (simp add: y_def)
    ultimately show ?thesis
      unfolding granted_Cons step using True by (simp add: algebra_simps)
  next
    case False
    have "last (l # ts) \<le> last (l # t # ts)" using le by (cases ts) auto
    then have "rps * (last (l # ts) - l) \<le> rps * (last (l # t # ts) - l)"
      using Cons.prems(3) by (intro mult_left_mono) auto
    with Cons.IH [OF srt(2) Cons.prems(2,3)] False show ?thesis
      unfolding granted_Cons step by (simp del: last.simps)
  qed
qed simp

lemma token_bucket_limits:
  assumes "0 \<le> rps"
  shows "rate_limiter (full_bucket burst) (take_token rps burst) rps burst"
proof
  fix t ts
  show "0 < burst \<Longrightarrow> fst (take_token rps burst t (full_bucket burst))"
    by (cases burst) (simp_all add: take_token_def full_bucket_def)
  assume srt: "sorted (t # ts)"
  show "of_nat (fst (granted (take_token rps burst) (full_bucket burst) (t # ts))) \<le>
      of_nat burst + rps * (last (t # ts) - t)"
  proof (cases burst)
    case 0
    have "fst (granted (take_token rps 0) (full_bucket 0) us) = 0" for us
      by (induction us) (simp_all add: granted_Cons take_token_def full_bucket_def)
    moreover have "t \<le> last (t # ts)" using srt last_in_set [of ts] by auto
    ultimately show ?thesis unfolding 0 using assms by (simp del: last.simps granted.simps)
  next
    case (Suc b)
    have "take_token rps burst t (full_bucket burst) = (True, \<lparr>tb_tokens = of_nat b, tb_last = Some t\<rparr>)"
      by (simp add: take_token_def full_bucket_def Suc)
    with bucket_grants [OF srt, of "of_nat b" rps burst] assms show ?thesis
      by (simp add: granted_Cons Suc del: last.simps granted.simps)
  qed
qed (fact assms)

interpretation login: rate_limiter "full_bucket 5" "take_token (1 / 12) 5" "1 / 12" 5
  by (rule token_bucket_limits) simp

interpretation ip: rate_limiter "full_bucket 2000" "take_token 1000 2000" 1000 2000
  by (rule token_bucket_limits) simp

section \<open>Logins\<close>

text \<open>The requests of a run of \<open>LoginMiddleware\<close>, the cleanup between them; counted are those of one key.\<close>

fun login_step ::
    "'l \<Rightarrow> (rat \<Rightarrow> 'l \<Rightarrow> bool \<times> 'l) \<Rightarrow> (string \<Rightarrow> string option) \<Rightarrow> string \<Rightarrow> nat \<times> 'l limit_store \<Rightarrow>
     limited_request limit_event \<Rightarrow> nat \<times> 'l limit_store" where
  "login_step fresh allow split k (n, s) (Hit r t) =
     (case login_middleware fresh allow split t r s of
        (answer, s') \<Rightarrow> (if answer = None \<and> client_ip split r = k then Suc n else n, s'))"
| "login_step fresh allow split k (n, s) (Tick t) = (n, cleanup t s)"

lemma login_step_limit:
  "login_step fresh allow split k st ev = limit_step fresh allow k st (map_limit_event (client_ip split) ev)"
  by (cases st; cases ev) (auto simp: login_middleware_def limit_key_def split: prod.splits)

lemma login_steps:
  "foldl (login_step fresh allow split k) st evs =
   foldl (limit_step fresh allow k) st (map (map_limit_event (client_ip split)) evs)"
  by (induction evs arbitrary: st) (simp_all add: login_step_limit)

lemma event_time_map [simp]: "event_time (map_limit_event f ev) = event_time ev"
  by (cases ev) simp_all

text \<open>
  C38. The login limit holds across cleanups: of all logins of one client address from \<open>t0\<close> on, at most five
  plus one for every twelve seconds passed reach the handler, whatever the requests, the other clients and
  the ticks of the cleanup that throw the address's limiter away.
\<close>

theorem login_limit:
  assumes limiter: "rate_limiter fresh allow (1 / 12) 5"
    and times: "sorted (t0 # map event_time evs)"
  shows "of_nat (fst (foldl (login_step fresh allow split k) (0, new_limit_store) evs))
    \<le> 5 + (last (t0 # map event_time evs) - t0) / 12"
  using rate_limiter.key_bound [OF limiter, of t0 "map (map_limit_event (client_ip split)) evs" k] times
  by (simp add: login_steps comp_def)

text \<open>The answers of a run of logins.\<close>

fun login_answers ::
    "'l \<Rightarrow> (rat \<Rightarrow> 'l \<Rightarrow> bool \<times> 'l) \<Rightarrow> (string \<Rightarrow> string option) \<Rightarrow> 'l limit_store \<Rightarrow> (rat \<times> limited_request) list \<Rightarrow>
     int option list" where
  "login_answers fresh allow split s [] = []"
| "login_answers fresh allow split s ((t, r) # rs) =
     (case login_middleware fresh allow split t r s of (a, s') \<Rightarrow> a # login_answers fresh allow split s' rs)"

lemma login_new_key:
  assumes "mget s (client_ip split r) = None" "\<And>t. fst (allow t fresh)"
  shows "\<exists>e. login_middleware fresh allow split t r s = (None, mput (client_ip split r) e s)"
  using assms by (auto simp: login_middleware_def limit_key_def allow_key_def get_limiter_def Let_def)

lemma new_keys_pass:
  "(\<And>t. fst (allow t fresh)) \<Longrightarrow> distinct (map (client_ip split \<circ> snd) rs) \<Longrightarrow>
   \<forall>r \<in> snd ` set rs. mget s (client_ip split r) = None \<Longrightarrow>
   login_answers fresh allow split s rs = replicate (length rs) None"
proof (induction rs arbitrary: s)
  case (Cons p rs)
  obtain t r where p: "p = (t, r)" by fastforce
  obtain e where e: "login_middleware fresh allow split t r s = (None, mput (client_ip split r) e s)"
    using login_new_key [of s split r allow fresh t] Cons.prems(1,3) p by auto
  have "\<forall>r' \<in> snd ` set rs. mget (mput (client_ip split r) e s) (client_ip split r') = None"
    using Cons.prems(2,3) by (auto simp: p map_simps image_iff)
  from Cons.IH [OF Cons.prems(1) _ this] Cons.prems(2) show ?case by (simp add: p e)
qed simp

text \<open>
  The limit does not bound what one client can do: \<open>X-Real-IP\<close> is believed from anyone, so requests that
  each carry another value of it all reach the login handler, however many and from whichever address.
\<close>

theorem login_limit_bypass:
  assumes "rate_limiter fresh allow rps 5"
    and "distinct (map (\<lambda>(t, r). lr_real_ip r) rs)" and "[] \<notin> set (map (\<lambda>(t, r). lr_real_ip r) rs)"
  shows "login_answers fresh allow split new_limit_store rs = replicate (length rs) None"
proof (rule new_keys_pass)
  show "fst (allow t fresh)" for t using rate_limiter.first [OF assms(1)] by simp
  have ip: "client_ip split (snd p) = lr_real_ip (snd p)" if "p \<in> set rs" for p
  proof -
    have "lr_real_ip (snd p) \<noteq> []" using assms(3) that by (force simp: image_iff split_beta)
    then show ?thesis by (simp add: client_ip_def Let_def)
  qed
  then have "map (client_ip split \<circ> snd) rs = map (\<lambda>(t, r). lr_real_ip r) rs"
    by (intro map_cong) (simp_all add: case_prod_beta)
  then show "distinct (map (client_ip split \<circ> snd) rs)" using assms(2) by (simp only:)
qed (simp add: new_limit_store_def)

section \<open>Concrete runs\<close>

definition login_from :: "string \<Rightarrow> limited_request" where
  "login_from real_ip = \<lparr>lr_path = ''/auth/login'', lr_remote_addr = ''10.0.0.9:4711'', lr_real_ip = real_ip,
     lr_authorization = '''', lr_sdk_key = ''''\<rparr>"

definition host_of :: "string \<Rightarrow> string option" where
  "host_of a = (if CHR '':'' \<in> set a then Some (takeWhile (\<lambda>c. c \<noteq> CHR '':'') a) else None)"

lemma login_limit_witness:
  "of_nat (fst (foldl (login_step (full_bucket 5) (take_token (1 / 12) 5) host_of ''10.0.0.9'') (0, new_limit_store)
      [Hit (login_from '''') 0, Tick 60, Hit (login_from '''') 400, Tick 460])) \<le> 5 + (460 - 0 :: rat) / 12"
  using login_limit [OF login.rate_limiter_axioms, of 0
      "[Hit (login_from '''') 0, Tick 60, Hit (login_from '''') 400, Tick 460]" host_of "''10.0.0.9''"]
  by simp

lemma login_limit_bypass_witness:
  "login_answers (full_bucket 5) (take_token (1 / 12) 5) host_of new_limit_store
     (map (\<lambda>i. (0, login_from [i])) ''abcdefgh'') = replicate 8 None"
  using login_limit_bypass [OF login.rate_limiter_axioms, of "map (\<lambda>i. (0, login_from [i])) ''abcdefgh''" host_of]
  by (simp add: login_from_def numeral_eq_Suc del: login_answers.simps)

text \<open>Without the header the sixth login at once is refused, yet ten pass within a minute.\<close>

lemma login_step_eval:
  "login_answers fresh allow host_of s ((t, login_from '''') # rs) =
   (let l = (case mget s ''10.0.0.9'' of None \<Rightarrow> fresh | Some e \<Rightarrow> le_limiter e); a = allow t l
    in (if fst a then None else Some 429)
       # login_answers fresh allow host_of (mput ''10.0.0.9'' \<lparr>le_limiter = snd a, le_last_seen = t\<rparr> s) rs)"
proof -
  have "client_ip host_of (login_from '''') = ''10.0.0.9''" by code_simp
  then show ?thesis by (simp add: login_middleware_def limit_key_def allow_key_def get_limiter_def Let_def)
qed

abbreviation one_bucket :: "rat \<Rightarrow> rat \<Rightarrow> rat \<Rightarrow> token_bucket limit_store" where
  "one_bucket x l t \<equiv> [(''10.0.0.9'', \<lparr>le_limiter = \<lparr>tb_tokens = x, tb_last = Some l\<rparr>, le_last_seen = t\<rparr>)]"

lemma first_login:
  "login_answers (full_bucket 5) (take_token (1 / 12) 5) host_of new_limit_store ((t, login_from '''') # rs) =
   None # login_answers (full_bucket 5) (take_token (1 / 12) 5) host_of (one_bucket 4 t t) rs"
  by (simp add: login_step_eval new_limit_store_def take_token_def full_bucket_def Let_def del: login_answers.simps)

lemma next_login:
  "login_answers (full_bucket 5) (take_token (1 / 12) 5) host_of (one_bucket x l u) ((t, login_from '''') # rs) =
   (if 1 \<le> min 5 (x + 1 / 12 * (t - l))
    then None # login_answers (full_bucket 5) (take_token (1 / 12) 5) host_of
      (one_bucket (min 5 (x + 1 / 12 * (t - l)) - 1) t t) rs
    else Some 429 # login_answers (full_bucket 5) (take_token (1 / 12) 5) host_of (one_bucket x l t) rs)"
  by (simp add: login_step_eval take_token_next Let_def del: login_answers.simps)

lemma sixth_login_refused:
  "login_answers (full_bucket 5) (take_token (1 / 12) 5) host_of new_limit_store
     [(0, login_from ''''), (0, login_from ''''), (0, login_from ''''), (0, login_from ''''), (0, login_from ''''),
      (0, login_from '''')] = [None, None, None, None, None, Some 429]"
  by (simp add: first_login next_login del: login_answers.simps(2))

lemma ten_logins_a_minute:
  "login_answers (full_bucket 5) (take_token (1 / 12) 5) host_of new_limit_store
     [(0, login_from ''''), (0, login_from ''''), (0, login_from ''''), (0, login_from ''''), (0, login_from ''''),
      (12, login_from ''''), (24, login_from ''''), (36, login_from ''''), (48, login_from ''''), (60, login_from '''')] =
   [None, None, None, None, None, None, None, None, None, None]"
  by (simp add: first_login next_login del: login_answers.simps(2))

end
