(* ===== verification/Edge.thy ===== *)
theory Edge
  imports Api RateLimit
begin

text \<open>
  The HTTP edge of the server: what \<open>buildRouter\<close> of \<open>internal/api/server.go\<close> puts in front of every handler
  (\<open>corsHeaders\<close>, \<open>jsonContentType\<close>, the rate limit of the client's address, the instrumentation of
  \<open>internal/metrics\<close>), \<open>jwtMiddleware\<close>, and the probes \<open>health\<close> and \<open>ready\<close>.

  chi's own middlewares are not part of the repository: \<open>RealIP\<close> appears as the address \<open>real_ip\<close> finds, and
  the others change neither the request nor the answer. The lemmas say who gets past the edge, and compose
  it with the guards of the management API.
\<close>

section \<open>Cross-origin requests\<close>

definition methods_header :: "string \<times> string" where
  "methods_header = (''Access-Control-Allow-Methods'', ''GET, POST, PUT, DELETE, OPTIONS'')"

definition allow_headers_header :: "string \<times> string" where
  "allow_headers_header = (''Access-Control-Allow-Headers'', ''Content-Type, Authorization'')"

text \<open>The status \<open>corsHeaders\<close> answers with, \<open>None\<close> where it calls the next handler, and the headers it has set.\<close>

definition cors_headers :: "string list \<Rightarrow> string \<Rightarrow> string \<Rightarrow> int option \<times> string gomap" where
  "cors_headers origins meth origin =
     (let allow_all = (length origins = 0 \<or> list_ex (\<lambda>o'. o' = ''*'') origins);
          allowed = list_ex (\<lambda>o'. o' = origin) origins;
          hs = (if allow_all then [(''Access-Control-Allow-Origin'', ''*'')]
                else if origin \<noteq> [] then [(''Access-Control-Allow-Origin'', origin), (''Vary'', ''Origin'')]
                else []) @ [methods_header, allow_headers_header]
      in if \<not> allow_all \<and> \<not> allowed \<and> origin \<noteq> [] then (Some 403, [])
         else if meth = ''OPTIONS'' then (Some 204, hs)
         else (None, hs))"

text \<open>\<open>strings.Split\<close> by a comma, which the origins of \<open>PENNANT_CORS_ORIGINS\<close> go through.\<close>

fun split_commas :: "string \<Rightarrow> string \<Rightarrow> string list" where
  "split_commas cur [] = [rev cur]"
| "split_commas cur (c # cs) = (if c = CHR '','' then rev cur # split_commas [] cs else split_commas (c # cur) cs)"

definition cors_origins :: "string \<Rightarrow> string list" where
  "cors_origins raw = (if raw \<noteq> [] then split_commas [] raw else [])"

definition json_content_type :: "string gomap \<Rightarrow> string gomap" where
  "json_content_type hs = mput ''Content-Type'' ''application/json'' hs"

section \<open>Claims\<close>

text \<open>Without a JWT service every request carries an administrator's claims.\<close>

definition dev_claims :: claims where
  "dev_claims = \<lparr>cla_user_id = ''dev'', cla_email = ''dev@localhost'', cla_name = [], cla_role = RoleAdmin\<rparr>"

definition server_claims :: "(auth_libs \<times> string) option \<Rightarrow> int \<Rightarrow> string \<Rightarrow> int + claims" where
  "server_claims svc now header =
     (case svc of Some (A, secret) \<Rightarrow> jwt_middleware A secret now header | None \<Rightarrow> Inr dev_claims)"

definition guarded_request ::
    "(auth_libs \<times> string) option \<Rightarrow> (rat \<Rightarrow> string) \<Rightarrow> (int \<Rightarrow> string) \<Rightarrow> int \<Rightarrow> string \<Rightarrow> request \<Rightarrow> server \<Rightarrow> int \<times> server" where
  "guarded_request svc num time now header req s =
     (case server_claims svc now header of Inl st \<Rightarrow> (st, s)
      | Inr c \<Rightarrow>
          (case require_role (required_role req) (Some c) of Some st \<Rightarrow> (st, s)
           | None \<Rightarrow> handle num time now (Some c) req s))"

section \<open>Probes\<close>

text \<open>Both probe the store with \<open>ListProjects\<close>; the argument is its error, as text, or its result.\<close>

definition health :: "string + 'a \<Rightarrow> int \<times> string gomap" where
  "health projects =
     (case projects of
        Inl err \<Rightarrow> (503, [(''status'', ''degraded''), (''store'', err), (''version'', ''1.0.0'')])
      | Inr _ \<Rightarrow> (200, [(''status'', ''ok''), (''store'', ''ok''), (''version'', ''1.0.0'')]))"

definition ready :: "string + 'a \<Rightarrow> int \<times> string gomap" where
  "ready projects =
     (case projects of Inl _ \<Rightarrow> (503, [(''error'', ''store unavailable'')])
      | Inr _ \<Rightarrow> (200, [(''status'', ''ready'')]))"

lemma probes_agree: "fst (health projects) = fst (ready projects)"
  by (simp add: health_def ready_def split: sum.split)

section \<open>Instrumentation\<close>

text \<open>
  \<open>responseWriter\<close> keeps the last status written, 200 if none was; \<open>InstrumentHandler\<close> counts the request
  under its method, its method and path, and that status.
\<close>

definition recorded_status :: "int list \<Rightarrow> int" where
  "recorded_status written = last (200 # written)"

type_synonym request_counts = "((string \<times> string \<times> string) \<times> nat) list"

definition count_of :: "request_counts \<Rightarrow> string \<times> string \<times> string \<Rightarrow> nat" where
  "count_of m k = (case map_of m k of None \<Rightarrow> 0 | Some n \<Rightarrow> n)"

definition instrument :: "string \<Rightarrow> string \<Rightarrow> int list \<Rightarrow> request_counts \<Rightarrow> request_counts" where
  "instrument meth path written m =
     (let k = (meth, meth @ '' '' @ path, itoa (recorded_status written)) in AList.update k (count_of m k + 1) m)"

section \<open>The chain\<close>

record http_request =
  hr_method :: string
  hr_origin :: string
  hr_client :: limited_request

text \<open>
  The chain in front of a handler: \<open>next_handler\<close> is the handler's status and the next state of what it works on.
  A handler writes its status once.
\<close>

definition edge ::
    "string list \<Rightarrow> 'l \<Rightarrow> (rat \<Rightarrow> 'l \<Rightarrow> bool \<times> 'l) \<Rightarrow> (string \<Rightarrow> string option) \<Rightarrow> (limited_request \<Rightarrow> string) \<Rightarrow>
     rat \<Rightarrow> http_request \<Rightarrow> ('s \<Rightarrow> int \<times> 's) \<Rightarrow> 'l limit_store \<times> request_counts \<times> 's \<Rightarrow>
     (int \<times> string gomap) \<times> 'l limit_store \<times> request_counts \<times> 's" where
  "edge origins fresh allow split real_ip t h next_handler st =
     (case st of (tab, m, s) \<Rightarrow>
      (case cors_headers origins (hr_method h) (hr_origin h) of
         (Some code, hs) \<Rightarrow> ((code, hs), tab, m, s)
       | (None, hs) \<Rightarrow>
           (let r = (hr_client h)\<lparr>lr_remote_addr := real_ip (hr_client h)\<rparr>; hs' = json_content_type hs
            in (case ip_middleware fresh allow split t r tab of
                  (Some code, tab') \<Rightarrow> ((code, mput ''Retry-After'' ''1'' hs'), tab', m, s)
                | (None, tab') \<Rightarrow>
                    (case next_handler s of
                       (code, s') \<Rightarrow> ((code, hs'), tab', instrument (hr_method h) (lr_path r) [code] m, s'))))))"

text \<open>Login and the SDK routes have a limit of their own behind the edge.\<close>

definition login_route ::
    "'l \<Rightarrow> (rat \<Rightarrow> 'l \<Rightarrow> bool \<times> 'l) \<Rightarrow> (string \<Rightarrow> string option) \<Rightarrow> rat \<Rightarrow> limited_request \<Rightarrow> ('u \<Rightarrow> int \<times> 'u) \<Rightarrow>
     'l limit_store \<times> 'u \<Rightarrow> int \<times> 'l limit_store \<times> 'u" where
  "login_route fresh allow split t r login st =
     (case login_middleware fresh allow split t r (fst st) of
        (Some code, tab) \<Rightarrow> (code, tab, snd st)
      | (None, tab) \<Rightarrow> (case login (snd st) of (code, u) \<Rightarrow> (code, tab, u)))"

definition sdk_route ::
    "'l \<Rightarrow> (rat \<Rightarrow> 'l \<Rightarrow> bool \<times> 'l) \<Rightarrow> rat \<Rightarrow> limited_request \<Rightarrow> ('u \<Rightarrow> int \<times> 'u) \<Rightarrow>
     'l limit_store \<times> 'u \<Rightarrow> int \<times> 'l limit_store \<times> 'u" where
  "sdk_route fresh allow t r call st =
     (case sdk_key_middleware fresh allow t r (fst st) of
        (Some code, tab) \<Rightarrow> (code, tab, snd st)
      | (None, tab) \<Rightarrow> (case call (snd st) of (code, u) \<Rightarrow> (code, tab, u)))"

section \<open>Who gets past\<close>

definition cors_open :: "string list \<Rightarrow> bool" where
  "cors_open origins \<longleftrightarrow> origins = [] \<or> ''*'' \<in> set origins"

lemma list_ex_mem [simp]: "list_ex (\<lambda>y. y = x) xs \<longleftrightarrow> x \<in> set xs"
  by (induction xs) auto

lemma cors_cases:
  "cors_headers origins meth origin =
    (if \<not> cors_open origins \<and> origin \<notin> set origins \<and> origin \<noteq> [] then (Some 403, [])
     else (if meth = ''OPTIONS'' then Some 204 else None,
       (if cors_open origins then [(''Access-Control-Allow-Origin'', ''*'')]
        else if origin \<noteq> [] then [(''Access-Control-Allow-Origin'', origin), (''Vary'', ''Origin'')]
        else []) @ [methods_header, allow_headers_header]))"
  by (simp add: cors_headers_def cors_open_def Let_def)

text \<open>
  Cross-origin requests: with a list of origins that is not open, a handler is reached exactly by requests
  that name no origin or one of the list and are not \<open>OPTIONS\<close>, and the only origin an answer ever allows is
  the one that asked, from the list; with an open list every origin is allowed and only \<open>OPTIONS\<close> stops here.
\<close>

theorem cors_exact:
  shows "(fst (cors_headers origins meth origin) = None \<longleftrightarrow>
      meth \<noteq> ''OPTIONS'' \<and> (cors_open origins \<or> origin = [] \<or> origin \<in> set origins)) \<and>
    (map_of (snd (cors_headers origins meth origin)) ''Access-Control-Allow-Origin'' = Some v \<longleftrightarrow>
      (if cors_open origins then v = ''*'' else v = origin \<and> v \<noteq> [] \<and> v \<in> set origins))"
proof
  show "fst (cors_headers origins meth origin) = None \<longleftrightarrow>
      meth \<noteq> ''OPTIONS'' \<and> (cors_open origins \<or> origin = [] \<or> origin \<in> set origins)"
    by (auto simp: cors_cases)
  show "map_of (snd (cors_headers origins meth origin)) ''Access-Control-Allow-Origin'' = Some v \<longleftrightarrow>
      (if cors_open origins then v = ''*'' else v = origin \<and> v \<noteq> [] \<and> v \<in> set origins)"
    by (auto simp: cors_cases methods_header_def allow_headers_header_def)
qed

lemma split_commas_untrimmed: "cors_origins ''https://a, https://b'' = [''https://a'', '' https://b'']"
  by code_simp

text \<open>The edge and the handler behind it.\<close>

lemma edge_state:
  assumes "edge origins fresh allow split real_ip t h next_handler (tab, m, s) = ((code, hs), tab', m', s')" "s' \<noteq> s"
  shows "hr_method h \<noteq> ''OPTIONS'' \<and> (cors_open origins \<or> hr_origin h = [] \<or> hr_origin h \<in> set origins) \<and>
    next_handler s = (code, s') \<and>
    fst (ip_middleware fresh allow split t ((hr_client h)\<lparr>lr_remote_addr := real_ip (hr_client h)\<rparr>) tab) = None"
  using assms by (auto simp: edge_def Let_def cors_cases split: prod.splits option.splits if_splits)

lemma guarded_change:
  assumes "guarded_request svc num time now header req s = (st, s')"
  shows "s' \<noteq> s \<Longrightarrow> \<exists>c. server_claims svc now header = Inr c \<and> role_level (required_role req) \<le> role_level (cla_role c)"
    and "400 \<le> st \<Longrightarrow> s' = s"
proof -
  show "\<exists>c. server_claims svc now header = Inr c \<and> role_level (required_role req) \<le> role_level (cla_role c)"
    if "s' \<noteq> s"
    using assms that by (auto simp: guarded_request_def require_role_def split: sum.splits if_splits)
  show "s' = s" if "400 \<le> st"
    using assms that by (auto simp: guarded_request_def dest: failed_unchanged split: sum.splits option.splits)
qed

text \<open>
  C27. The whole way of a management request: its effect on the server needs a method other than \<open>OPTIONS\<close>, an
  origin that is absent or allowed, a grant of the address's limiter, and claims whose role is high enough
  for the request; whatever stops it on the way, and whatever error the handler answers, the server's state
  stays as it was.
\<close>

theorem edge_guarded:
  assumes "edge origins fresh allow split real_ip t h (guarded_request svc num time now header req) (tab, m, s) =
      ((code, hs), tab', m', s')"
  shows "(s' \<noteq> s \<longrightarrow>
      hr_method h \<noteq> ''OPTIONS'' \<and> (cors_open origins \<or> hr_origin h = [] \<or> hr_origin h \<in> set origins) \<and>
      fst (ip_middleware fresh allow split t ((hr_client h)\<lparr>lr_remote_addr := real_ip (hr_client h)\<rparr>) tab) = None \<and>
      (\<exists>c. server_claims svc now header = Inr c \<and> role_level (required_role req) \<le> role_level (cla_role c))) \<and>
    (400 \<le> code \<longrightarrow> s' = s)"
  using edge_state [OF assms] guarded_change [of svc num time now header req s code s'] by blast

lemma edge_guarded_witness:
  "\<exists>tab' m' s' hs. edge [''https://a''] (full_bucket 2000) (take_token 1000 2000) host_of lr_remote_addr 0
      \<lparr>hr_method = ''POST'', hr_origin = ''https://a'', hr_client = login_from ''''\<rparr>
      (guarded_request None (\<lambda>_. []) (\<lambda>_. []) 0 [] (PostProject (Some sample_project))) (new_limit_store, [], new_server) =
      ((201, hs), tab', m', s') \<and> s' \<noteq> new_server \<and> \<not> 400 \<le> (201 :: int) \<and>
    (\<exists>c. server_claims None 0 [] = Inr c \<and> role_level RoleEditor \<le> role_level (cla_role c))"
proof -
  let ?h = "\<lparr>hr_method = ''POST'', hr_origin = ''https://a'', hr_client = login_from ''''\<rparr>"
  let ?g = "guarded_request None (\<lambda>_. []) (\<lambda>_. []) 0 [] (PostProject (Some sample_project))"
  obtain s' where s': "create_project (\<lambda>_. []) (\<lambda>_. []) 0 (Some dev_claims) (Some sample_project) new_server = (Reply 201 sample_project, s')"
      "mget (ms_projects (sv_store s')) ''p'' \<noteq> None"
    using create_on_empty [of "Some dev_claims"] by auto
  have g: "?g new_server = (201, s')" "s' \<noteq> new_server"
    using s' by (auto simp: guarded_request_def server_claims_def require_role_def answered_def new_server_def
        new_memory_store_def) (simp_all add: dev_claims_def)
  have p: "fst (ip_middleware (full_bucket 2000) (take_token 1000 2000) host_of 0
      ((login_from '''')\<lparr>lr_remote_addr := lr_remote_addr (login_from '''')\<rparr>) new_limit_store) = None"
    by (simp add: ip_middleware_def limit_key_def allow_key_def get_limiter_def new_limit_store_def take_token_def
        full_bucket_def login_from_def stream_path_def Let_def)
  obtain code hs tab' m' s'' where e: "edge [''https://a''] (full_bucket 2000) (take_token 1000 2000) host_of lr_remote_addr 0
      ?h ?g (new_limit_store, [], new_server) = ((code, hs), tab', m', s'')"
    by (metis prod.exhaust)
  have c: "code = 201" "s'' = s'"
    using e g(1) p by (auto simp: edge_def cors_cases cors_open_def Let_def split: prod.splits option.splits)
  show ?thesis using edge_guarded [OF e] e c g(2) by auto
qed

end
