(* ===== verification/Analytics.thy ===== *)
theory Analytics
  imports Streaming "HOL-Library.Multiset"
begin

text \<open>
  Analytics events, \<open>internal/analytics\<close>: the buffering ingestor (\<open>ingestor.go\<close>), the in-memory event
  store and its queries (\<open>memstore.go\<close>), and the handler that feeds them, \<open>sdkTrack\<close> of
  \<open>internal/api/server.go\<close>.

  The ingestor takes its own lock to append and to take the buffer, and writes the batch to the store
  after it has released it, so the batches taken and not yet written are part of the state. Every
  critical section is a function; the step relation interleaves those of any number of goroutines.
  A map from strings or integers that only a query uses is an association list. The counters of a query
  are unbounded: they count stored events.

  The lemmas show that no event is lost or written twice, and what the queries count.
\<close>

section \<open>types.go\<close>

datatype event_kind = EvalEvent | CustomEvent | ExposureEvent | OtherEvent string

record track_event =
  te_kind :: event_kind
  te_flag_key :: string
  te_environment_key :: string
  te_project_key :: string
  te_context_key :: string
  te_context_kind :: string
  te_variation_index :: "int option"
  te_reason_kind :: string
  te_metric_name :: string
  te_metric_value :: float64
  te_experiment_key :: string
  te_timestamp :: int
  te_properties :: raw

record flag_insight =
  fi_flag_key :: string
  fi_environment_key :: string
  fi_variation_counts :: "int gomap"
  fi_total_evals :: int
  fi_unique_contexts :: int

record stale_flag =
  sf_flag_key :: string
  sf_environment_key :: string
  sf_last_eval_at :: int
  sf_reason :: string

section \<open>ingestor.go\<close>

text \<open>
  \<open>ing_taken\<close> holds the batches that a \<open>flush\<close> has taken out of the buffer and not yet handed to the
  store; in the code they are local variables of the flushing goroutines. \<open>ing_events\<close> is the
  \<open>MemEventStore\<close>.
\<close>

record ingestor =
  ing_buf :: "track_event list"
  ing_max_batch :: nat
  ing_taken :: "track_event list list"
  ing_events :: "track_event list"

definition new_ingestor :: "nat \<Rightarrow> ingestor" where
  "new_ingestor max_batch = \<lparr>ing_buf = [], ing_max_batch = max_batch, ing_taken = [], ing_events = []\<rparr>"

definition insert_events :: "track_event list \<Rightarrow> track_event list \<Rightarrow> track_event list" where
  "insert_events stored batch = stored @ batch"

definition stamp :: "int \<Rightarrow> track_event \<Rightarrow> track_event" where
  "stamp now e = (if te_timestamp e = 0 then e\<lparr>te_timestamp := now\<rparr> else e)"

text \<open>The critical section of \<open>Track\<close>: the new state, and whether the caller goes on to flush.\<close>

definition track_append :: "int \<Rightarrow> ingestor \<Rightarrow> track_event \<Rightarrow> ingestor \<times> bool" where
  "track_append now ing e =
     (let buf = ing_buf ing @ [stamp now e]
      in (ing\<lparr>ing_buf := buf\<rparr>, ing_max_batch ing \<le> length buf))"

text \<open>The two halves of \<open>flush\<close>: taking the buffer, and writing a batch that was taken.\<close>

definition flush_take :: "ingestor \<Rightarrow> ingestor" where
  "flush_take ing =
     (if ing_buf ing = [] then ing
      else ing\<lparr>ing_buf := [], ing_taken := ing_taken ing @ [ing_buf ing]\<rparr>)"

definition flush_write :: "nat \<Rightarrow> ingestor \<Rightarrow> ingestor" where
  "flush_write i ing =
     (if i < length (ing_taken ing)
      then ing\<lparr>ing_taken := take i (ing_taken ing) @ drop (Suc i) (ing_taken ing),
               ing_events := insert_events (ing_events ing) (ing_taken ing ! i)\<rparr>
      else ing)"

text \<open>A flush that no other goroutine interrupts, and the operations built on it.\<close>

definition flush :: "ingestor \<Rightarrow> ingestor" where
  "flush ing =
     (if ing_buf ing = [] then ing
      else ing\<lparr>ing_buf := [], ing_events := insert_events (ing_events ing) (ing_buf ing)\<rparr>)"

definition track :: "int \<Rightarrow> ingestor \<Rightarrow> track_event \<Rightarrow> ingestor" where
  "track now ing e = (case track_append now ing e of (ing', full) \<Rightarrow> if full then flush ing' else ing')"

text \<open>\<open>Stop\<close> closes the channel, waits for the loop and flushes what is left.\<close>

definition stop_ingestor :: "ingestor \<Rightarrow> ingestor" where
  "stop_ingestor ing = flush ing"

section \<open>memstore.go\<close>

definition eval_of :: "string \<Rightarrow> string \<Rightarrow> track_event \<Rightarrow> bool" where
  "eval_of pk ek e \<longleftrightarrow> te_kind e = EvalEvent \<and> te_environment_key e = ek \<and> te_project_key e = pk"

subsection \<open>QueryFlagInsights\<close>

text \<open>The loop's state: \<open>byFlag\<close> and \<open>seenContexts\<close>. \<open>VariationCounts[key]++\<close> starts from 0.\<close>

definition bump :: "'k \<Rightarrow> ('k \<times> int) list \<Rightarrow> ('k \<times> int) list" where
  "bump k m = AList.update k ((case map_of m k of None \<Rightarrow> 0 | Some n \<Rightarrow> n) + 1) m"

definition count_event :: "track_event \<Rightarrow> bool \<Rightarrow> flag_insight \<Rightarrow> flag_insight" where
  "count_event e seen fi =
     fi\<lparr>fi_total_evals := fi_total_evals fi + 1,
        fi_variation_counts := (case te_variation_index e of
          None \<Rightarrow> fi_variation_counts fi | Some i \<Rightarrow> bump (itoa i) (fi_variation_counts fi)),
        fi_unique_contexts := (if seen then fi_unique_contexts fi else fi_unique_contexts fi + 1)\<rparr>"

definition fresh_insight :: "track_event \<Rightarrow> flag_insight" where
  "fresh_insight e = \<lparr>fi_flag_key = te_flag_key e, fi_environment_key = te_environment_key e,
     fi_variation_counts = [], fi_total_evals = 0, fi_unique_contexts = 0\<rparr>"

definition insight_step ::
    "flag_insight gomap \<times> string list gomap \<Rightarrow> track_event \<Rightarrow> flag_insight gomap \<times> string list gomap" where
  "insight_step st e =
     (case st of (by_flag, seen) \<Rightarrow>
        let k = te_flag_key e;
            fi = (case mget by_flag k of None \<Rightarrow> fresh_insight e | Some fi \<Rightarrow> fi);
            ctxs = (case mget by_flag k of None \<Rightarrow> [] | Some _ \<Rightarrow> (case mget seen k of None \<Rightarrow> [] | Some c \<Rightarrow> c));
            was = te_context_key e \<in> set ctxs
        in (mput k (count_event e was fi) by_flag,
            mput k (if was then ctxs else te_context_key e # ctxs) seen))"

definition query_flag_insights :: "track_event list \<Rightarrow> string \<Rightarrow> string \<Rightarrow> int \<Rightarrow> flag_insight list" where
  "query_flag_insights evs pk ek since =
     map snd (fst (foldl insight_step ([], [])
       (filter (\<lambda>e. eval_of pk ek e \<and> \<not> te_timestamp e < since) evs)))"

subsection \<open>QueryStaleFlags\<close>

text \<open>
  The loop's state: \<open>lastEval\<close>, \<open>variationsSeen\<close> and \<open>offOnly\<close>, which nothing reads. A lookup in \<open>lastEval\<close>
  of a flag that is not there gives 0, so only a positive timestamp is recorded.
\<close>

definition stale_step ::
    "int gomap \<times> int list gomap \<times> bool gomap \<Rightarrow> track_event \<Rightarrow> int gomap \<times> int list gomap \<times> bool gomap" where
  "stale_step st e =
     (case st of (last_eval, seen, off) \<Rightarrow>
        let k = te_flag_key e;
            prev = (case mget last_eval k of None \<Rightarrow> 0 | Some t \<Rightarrow> t);
            vs = (case mget seen k of None \<Rightarrow> [] | Some vs \<Rightarrow> vs)
        in ((if prev < te_timestamp e then mput k (te_timestamp e) last_eval else last_eval),
            mput k (case te_variation_index e of None \<Rightarrow> vs | Some i \<Rightarrow> List.insert i vs) seen,
            mput k (te_reason_kind e = ''OFF'') off))"

definition stale_of :: "int \<Rightarrow> string \<Rightarrow> int list gomap \<Rightarrow> string \<times> int \<Rightarrow> stale_flag option" where
  "stale_of threshold ek seen x =
     (case x of (k, last_at) \<Rightarrow>
        let sf = (\<lambda>r. Some \<lparr>sf_flag_key = k, sf_environment_key = ek, sf_last_eval_at = last_at, sf_reason = r\<rparr>)
        in if last_at < threshold then sf ''no_evals_30d''
           else if length (case mget seen k of None \<Rightarrow> [] | Some vs \<Rightarrow> vs) \<le> 1 then sf ''single_variation''
           else None)"

text \<open>The clock's value is in Unix milliseconds.\<close>

definition query_stale_flags :: "int \<Rightarrow> track_event list \<Rightarrow> string \<Rightarrow> string \<Rightarrow> stale_flag list" where
  "query_stale_flags now evs pk ek =
     (case foldl stale_step ([], [], []) (filter (eval_of pk ek) evs) of
        (last_eval, seen, _) \<Rightarrow> List.map_filter (stale_of (now - 30 * 24 * 3600 * 1000) ek seen) last_eval)"

subsection \<open>QueryConversions\<close>

definition exposure_of :: "string \<Rightarrow> string \<Rightarrow> string \<Rightarrow> int \<Rightarrow> track_event \<Rightarrow> bool" where
  "exposure_of pk ek fk since e \<longleftrightarrow> \<not> (te_kind e \<noteq> EvalEvent \<or> te_flag_key e \<noteq> fk \<or>
     te_environment_key e \<noteq> ek \<or> te_project_key e \<noteq> pk \<or> te_timestamp e < since)"

definition metric_of :: "string \<Rightarrow> string \<Rightarrow> string \<Rightarrow> int \<Rightarrow> track_event \<Rightarrow> bool" where
  "metric_of pk ek metric since e \<longleftrightarrow> \<not> (te_kind e \<noteq> CustomEvent \<or> te_metric_name e \<noteq> metric \<or>
     te_environment_key e \<noteq> ek \<or> te_project_key e \<noteq> pk \<or> te_timestamp e < since)"

definition expose :: "int gomap \<Rightarrow> track_event \<Rightarrow> int gomap" where
  "expose m e = (case te_variation_index e of None \<Rightarrow> m | Some i \<Rightarrow> mput (te_context_key e) i m)"

definition convert :: "int gomap \<Rightarrow> (int \<times> int) list \<Rightarrow> track_event \<Rightarrow> (int \<times> int) list" where
  "convert ctxs r e =
     (case mget ctxs (te_context_key e) of None \<Rightarrow> r
      | Some i \<Rightarrow> bump i r)"

definition query_conversions ::
    "track_event list \<Rightarrow> string \<Rightarrow> string \<Rightarrow> string \<Rightarrow> string \<Rightarrow> int \<Rightarrow> (int \<times> int) list" where
  "query_conversions evs pk ek fk metric since =
     (let ctxs = foldl expose [] (filter (exposure_of pk ek fk since) evs)
      in foldl (convert ctxs) [] (filter (metric_of pk ek metric since) evs))"

section \<open>sdkTrack\<close>

text \<open>
  Body of the request: \<open>None\<close> when it does not decode. The project and the environment are those of
  the key, whatever the body says. Without an ingestor the events are dropped.
\<close>

definition claim_event :: "sdk_key_record \<Rightarrow> track_event \<Rightarrow> track_event" where
  "claim_event rec e = e\<lparr>te_project_key := kr_project_key rec, te_environment_key := kr_env_key rec\<rparr>"

definition sdk_track ::
    "authenticator \<Rightarrow> int \<Rightarrow> string \<Rightarrow> track_event list option \<Rightarrow> ingestor option \<Rightarrow> ingestor option \<times> int" where
  "sdk_track keys now header body ing =
     (case authenticate_sdk keys header of
        None \<Rightarrow> (ing, 401)
      | Some rec \<Rightarrow>
          (case ing of None \<Rightarrow> (None, 204)
           | Some i \<Rightarrow>
               (case body of None \<Rightarrow> (Some i, 400)
                | Some evs \<Rightarrow> (Some (foldl (\<lambda>i e. track now i (claim_event rec e)) i evs), 204))))"

section \<open>No event is lost\<close>

text \<open>The critical sections of the goroutines, in any order.\<close>

datatype ing_action = Append int track_event | Take | Write nat

fun ing_apply :: "ingestor \<Rightarrow> ing_action \<Rightarrow> ingestor" where
  "ing_apply ing (Append now e) = fst (track_append now ing e)"
| "ing_apply ing Take = flush_take ing"
| "ing_apply ing (Write i) = flush_write i ing"

fun tracked :: "ing_action list \<Rightarrow> track_event list" where
  "tracked [] = []"
| "tracked (Append now e # as) = stamp now e # tracked as"
| "tracked (_ # as) = tracked as"

definition held :: "ingestor \<Rightarrow> track_event multiset" where
  "held ing = mset (ing_events ing) + mset (concat (ing_taken ing)) + mset (ing_buf ing)"

lemma mset_concat_split:
  "i < length xss \<Longrightarrow> mset (concat xss) = mset (xss ! i) + mset (concat (take i xss @ drop (Suc i) xss))"
  by (subst id_take_nth_drop [of i xss]) simp_all

lemma held_step:
  "held (ing_apply ing a) = held ing + (case a of Append now e \<Rightarrow> {#stamp now e#} | _ \<Rightarrow> {#})"
proof (cases a)
  case (Write i)
  then show ?thesis using mset_concat_split [of i "ing_taken ing"]
    by (simp add: held_def flush_write_def insert_events_def)
qed (simp_all add: held_def track_append_def flush_take_def Let_def)

lemma held_run: "held (foldl ing_apply ing as) = held ing + mset (tracked as)"
  by (induction as arbitrary: ing) (auto simp: held_step split: ing_action.splits)

text \<open>One goroutine alone: what is stored and what is buffered is what was tracked, in order.\<close>

lemma flush_halves: "ing_taken ing = [] \<Longrightarrow> flush_write 0 (flush_take ing) = flush ing"
  by (cases ing) (simp add: flush_def flush_take_def flush_write_def)

definition in_order :: "ingestor \<Rightarrow> track_event list" where
  "in_order ing = ing_events ing @ ing_buf ing"

lemma in_order_flush [simp]: "in_order (flush ing) = in_order ing" "ing_buf (flush ing) = []"
  "ing_taken (flush ing) = ing_taken ing" "ing_max_batch (flush ing) = ing_max_batch ing"
  by (simp_all add: in_order_def flush_def insert_events_def)

lemma in_order_track [simp]: "in_order (track now ing e) = in_order ing @ [stamp now e]"
  "ing_taken (track now ing e) = ing_taken ing" "ing_max_batch (track now ing e) = ing_max_batch ing"
  by (auto simp: track_def track_append_def Let_def in_order_def flush_def insert_events_def)

lemma in_order_tracks [simp]: "in_order (foldl (track now) ing es) = in_order ing @ map (stamp now) es"
  "ing_taken (foldl (track now) ing es) = ing_taken ing"
  by (induction es arbitrary: ing) simp_all

lemma track_bound: "0 < ing_max_batch ing \<Longrightarrow> length (ing_buf (track now ing e)) < ing_max_batch ing"
  by (auto simp: track_def track_append_def Let_def flush_def)

lemma drain_run:
  "ing_taken ing = bs \<Longrightarrow> ing_buf ing = [] \<Longrightarrow>
   foldl ing_apply ing (replicate (length bs) (Write 0)) =
     ing\<lparr>ing_taken := [], ing_events := ing_events ing @ concat bs\<rparr>"
proof (induction bs arbitrary: ing)
  case (Cons b bs)
  then show ?case
    using Cons.IH [of "ing\<lparr>ing_taken := bs, ing_events := ing_events ing @ b\<rparr>"]
    by (simp add: flush_write_def insert_events_def)
qed simp

lemma drained:
  "\<exists>k. let d = foldl ing_apply ing (Take # replicate k (Write 0))
       in ing_buf d = [] \<and> ing_taken d = [] \<and> mset (ing_events d) = held ing"
proof -
  let ?t = "flush_take ing"
  have b: "ing_buf ?t = []" by (simp add: flush_take_def)
  have h: "held ?t = held ing" using held_step [of ing Take] by simp
  show ?thesis
    using drain_run [of ?t "ing_taken ?t", OF refl b] b h
    by (intro exI [of _ "length (ing_taken ?t)"]) (simp add: held_def Let_def)
qed

lemma no_event_lost_facts:
  assumes "ing = foldl ing_apply (new_ingestor n) as"
  shows "mset (ing_events ing) + mset (concat (ing_taken ing)) + mset (ing_buf ing) = mset (tracked as)"
    and "\<exists>k. let d = foldl ing_apply ing (Take # replicate k (Write 0))
         in ing_buf d = [] \<and> ing_taken d = [] \<and> mset (ing_events d) = mset (tracked as)"
proof -
  have h: "held ing = mset (tracked as)"
    using held_run [of "new_ingestor n" as] by (simp add: assms held_def new_ingestor_def)
  then show "mset (ing_events ing) + mset (concat (ing_taken ing)) + mset (ing_buf ing) = mset (tracked as)"
    by (simp add: held_def)
  show "\<exists>k. let d = foldl ing_apply ing (Take # replicate k (Write 0))
         in ing_buf d = [] \<and> ing_taken d = [] \<and> mset (ing_events d) = mset (tracked as)"
    using drained [of ing] unfolding h .
qed

text \<open>
  C30. No event is lost and none is written twice, whatever the goroutines that track, flush on the timer
  and write batches are doing: what is stored, what is in a batch on its way and what is buffered are
  together the tracked events; and from every state one more flush and the pending writes bring all of
  them to the store. (The comment on \<open>Track\<close> announces that the oldest events are dropped when the buffer
  is full; no code does that.)
\<close>

theorem no_event_lost:
  assumes "ing = foldl ing_apply (new_ingestor n) as"
  shows "mset (ing_events ing) + mset (concat (ing_taken ing)) + mset (ing_buf ing) = mset (tracked as) \<and>
    (\<exists>k. let d = foldl ing_apply ing (Take # replicate k (Write 0))
         in ing_buf d = [] \<and> ing_taken d = [] \<and> mset (ing_events d) = mset (tracked as))"
  by (intro conjI no_event_lost_facts [OF assms])

definition sample_event :: "event_kind \<Rightarrow> string \<Rightarrow> int option \<Rightarrow> int \<Rightarrow> track_event" where
  "sample_event k ctx i ts = \<lparr>te_kind = k, te_flag_key = ''f'', te_environment_key = ''prod'',
     te_project_key = ''p'', te_context_key = ctx, te_context_kind = ''user'', te_variation_index = i,
     te_reason_kind = ''FALLTHROUGH'', te_metric_name = ''buy'', te_metric_value = Fin 1,
     te_experiment_key = [], te_timestamp = ts, te_properties = None\<rparr>"

definition sample_actions :: "ing_action list" where
  "sample_actions = [Append 5 (sample_event EvalEvent ''u'' (Some 1) 0), Take,
     Append 6 (sample_event CustomEvent ''u'' None 6), Take, Write 1]"

lemma no_event_lost_witness:
  "(let ing = foldl ing_apply (new_ingestor 1) sample_actions
    in map te_timestamp (ing_events ing) = [6] \<and> length (ing_taken ing) = 1 \<and>
       mset (ing_events ing) + mset (concat (ing_taken ing)) + mset (ing_buf ing) = mset (tracked sample_actions))"
  using no_event_lost [of "foldl ing_apply (new_ingestor 1) sample_actions" 1 sample_actions, OF refl]
  by (simp add: Let_def sample_actions_def track_append_def flush_take_def flush_write_def insert_events_def
      new_ingestor_def stamp_def sample_event_def)

section \<open>What a request adds\<close>

text \<open>
  \<open>sdkTrack\<close> files every event of a request under the project and the environment of the key that
  sent it, stamps those without a time, and keeps them in order; after \<open>Stop\<close> the store holds them all.
  Without a valid key, without an ingestor or with a body that does not decode nothing is added.
\<close>

lemma track_claims:
  "foldl (\<lambda>i e. track now i (claim_event rec e)) ing evs = foldl (track now) ing (map (claim_event rec) evs)"
  by (induction evs arbitrary: ing) simp_all

lemma in_order_stop: "ing_events (stop_ingestor ing) = in_order ing"
  using in_order_flush(1,2) [of ing] by (simp add: stop_ingestor_def in_order_def del: in_order_flush)

lemma stop_after_tracks:
  "ing_events (stop_ingestor (foldl (track now) ing es)) =
     ing_events ing @ ing_buf ing @ map (stamp now) es"
  unfolding in_order_stop by (simp add: in_order_def [of ing])

theorem track_request:
  assumes "authenticate_sdk keys header = Some rec"
  shows "\<exists>ing'. sdk_track keys now header (Some evs) (Some ing) = (Some ing', 204) \<and>
       ing_events (stop_ingestor ing') = ing_events ing @ ing_buf ing @
         map (\<lambda>e. (claim_event rec e)\<lparr>te_timestamp := (if te_timestamp e = 0 then now else te_timestamp e)\<rparr>) evs"
    and "sdk_track keys now header None (Some ing) = (Some ing, 400)"
    and "sdk_track keys now header body None = (None, 204)"
proof -
  have st: "stamp now (claim_event rec e) =
      (claim_event rec e)\<lparr>te_timestamp := (if te_timestamp e = 0 then now else te_timestamp e)\<rparr>" for e
    by (simp add: stamp_def claim_event_def)
  show "\<exists>ing'. sdk_track keys now header (Some evs) (Some ing) = (Some ing', 204) \<and>
       ing_events (stop_ingestor ing') = ing_events ing @ ing_buf ing @
         map (\<lambda>e. (claim_event rec e)\<lparr>te_timestamp := (if te_timestamp e = 0 then now else te_timestamp e)\<rparr>) evs"
    by (simp add: sdk_track_def assms track_claims stop_after_tracks st comp_def)
qed (simp_all add: sdk_track_def assms)

lemma track_request_witness:
  "sdk_track (register [] sample_key) 7 ''Bearer k1''
     (Some [(sample_event CustomEvent ''u'' None 0)\<lparr>te_project_key := ''other''\<rparr>]) None = (None, 204)"
  using track_request(3) [of "register [] sample_key" "''Bearer k1''" sample_key]
  by (simp add: sample_key_def register_def authenticate_sdk_def extract_bearer_def bearer_prefix_def lookup_key_def)

section \<open>What the queries count\<close>

abbreviation tally :: "('a \<Rightarrow> bool) \<Rightarrow> 'a list \<Rightarrow> int" where
  "tally P xs \<equiv> int (length (filter P xs))"

definition lookup0 :: "('k \<times> int) list \<Rightarrow> 'k \<Rightarrow> int" where
  "lookup0 m k = (case map_of m k of None \<Rightarrow> 0 | Some n \<Rightarrow> n)"

lemma lookup0_Nil [simp]: "lookup0 [] k = 0"
  by (simp add: lookup0_def)

lemma lookup0_bump [simp]: "lookup0 (bump j m) k = lookup0 m k + (if j = k then 1 else 0)"
  by (simp add: lookup0_def bump_def update_conv')

lemma distinct_bump [simp]: "distinct (map fst m) \<Longrightarrow> distinct (map fst (bump k m))"
  by (simp add: bump_def distinct_update)

lemma sum_update:
  "distinct (map fst m) \<Longrightarrow> sum_list (map snd (AList.update k v m)) = sum_list (map snd m) + v - lookup0 m k"
  by (induction m) (auto simp: lookup0_def split: option.splits dest: map_of_SomeD)

lemma sum_bump [simp]: "distinct (map fst m) \<Longrightarrow> sum_list (map snd (bump k m)) = sum_list (map snd m) + 1"
  by (simp add: bump_def sum_update lookup0_def)

lemma foldl_filter_snoc: "foldl f a (filter P (xs @ [x])) =
    (if P x then f (foldl f a (filter P xs)) x else foldl f a (filter P xs))"
  by simp

subsection \<open>Insights\<close>

text \<open>The insight of a flag, from the events that concern it.\<close>

definition insight_for :: "string \<Rightarrow> track_event list \<Rightarrow> flag_insight \<Rightarrow> bool" where
  "insight_for k es fi \<longleftrightarrow>
     (let fs = filter (\<lambda>e. te_flag_key e = k) es
      in fi_flag_key fi = k \<and> fi_total_evals fi = int (length fs) \<and>
         (\<forall>i. lookup0 (fi_variation_counts fi) (itoa i) = tally (\<lambda>e. te_variation_index e = Some i) fs) \<and>
         sum_list (map snd (fi_variation_counts fi)) = tally (\<lambda>e. te_variation_index e \<noteq> None) fs \<and>
         distinct (map fst (fi_variation_counts fi)) \<and>
         fi_unique_contexts fi = int (card (te_context_key ` set fs)))"

lemma insight_fresh: "insight_for (te_flag_key e) [] (fresh_insight e)"
  by (simp add: insight_for_def fresh_insight_def Let_def)

lemma insight_other: "te_flag_key e \<noteq> k \<Longrightarrow> insight_for k (es @ [e]) fi \<longleftrightarrow> insight_for k es fi"
  by (simp add: insight_for_def)

lemma insight_none: "\<forall>e \<in> set es. te_flag_key e \<noteq> k \<Longrightarrow> insight_for k es fi \<longleftrightarrow> insight_for k [] fi"
  by (simp add: insight_for_def filter_empty_conv)

lemma insight_same:
  assumes "insight_for (te_flag_key e) es fi"
    and "was \<longleftrightarrow> te_context_key e \<in> te_context_key ` {x \<in> set es. te_flag_key x = te_flag_key e}"
  shows "insight_for (te_flag_key e) (es @ [e]) (count_event e was fi)"
proof -
  let ?fs = "filter (\<lambda>x. te_flag_key x = te_flag_key e) es"
  have s: "te_context_key ` set (?fs @ [e]) = insert (te_context_key e) (te_context_key ` set ?fs)" by auto
  have w: "was \<longleftrightarrow> te_context_key e \<in> te_context_key ` set ?fs" using assms(2) by auto
  have u: "int (card (te_context_key ` set (?fs @ [e]))) = int (card (te_context_key ` set ?fs)) + (if was then 0 else 1)"
    unfolding s by (simp add: card_insert_if w)
  show ?thesis using assms(1) u
    by (auto simp: insight_for_def Let_def count_event_def itoa_inject split: option.splits)
qed

definition insights_inv :: "track_event list \<Rightarrow> flag_insight gomap \<times> string list gomap \<Rightarrow> bool" where
  "insights_inv es st \<longleftrightarrow> (case st of (by_flag, seen) \<Rightarrow>
     distinct (mkeys by_flag) \<and>
     (\<forall>k. (mget by_flag k \<noteq> None \<longleftrightarrow> (\<exists>e \<in> set es. te_flag_key e = k)) \<and>
       (\<forall>fi. mget by_flag k = Some fi \<longrightarrow> insight_for k es fi \<and>
          set (case mget seen k of None \<Rightarrow> [] | Some c \<Rightarrow> c) =
            te_context_key ` {e \<in> set es. te_flag_key e = k})))"

lemma insights_step:
  assumes "insights_inv es st"
  shows "insights_inv (es @ [e]) (insight_step st e)"
proof -
  obtain by_flag seen where st: "st = (by_flag, seen)" by (cases st)
  let ?k = "te_flag_key e"
  define ctxs where "ctxs = (case mget by_flag ?k of None \<Rightarrow> []
    | Some _ \<Rightarrow> (case mget seen ?k of None \<Rightarrow> [] | Some c \<Rightarrow> c))"
  define fi where "fi = (case mget by_flag ?k of None \<Rightarrow> fresh_insight e | Some fi \<Rightarrow> fi)"
  note inv = assms [unfolded st insights_inv_def prod.case]
  have ex: "mget by_flag k \<noteq> None \<longleftrightarrow> (\<exists>x \<in> set es. te_flag_key x = k)" for k using inv by blast
  have cs: "set ctxs = te_context_key ` {x \<in> set es. te_flag_key x = ?k}"
  proof (cases "mget by_flag ?k")
    case None
    then have "{x \<in> set es. te_flag_key x = ?k} = {}" using ex [of ?k] by blast
    then show ?thesis by (simp only: ctxs_def None) simp
  next
    case (Some v)
    then show ?thesis using inv by (simp add: ctxs_def)
  qed
  have fi: "insight_for ?k es fi"
  proof (cases "mget by_flag ?k")
    case None
    then have "\<forall>x \<in> set es. te_flag_key x \<noteq> ?k" using ex [of ?k] by blast
    from insight_none [OF this, of "fresh_insight e"] insight_fresh [of e] show ?thesis
      by (simp add: fi_def None)
  qed (use inv in \<open>simp add: fi_def\<close>)
  have new: "insight_for ?k (es @ [e]) (count_event e (te_context_key e \<in> set ctxs) fi)"
    by (rule insight_same [OF fi]) (simp add: cs)
  have step: "insight_step st e = (mput ?k (count_event e (te_context_key e \<in> set ctxs) fi) by_flag,
      mput ?k (if te_context_key e \<in> set ctxs then ctxs else te_context_key e # ctxs) seen)"
    unfolding insight_step_def st prod.case Let_def ctxs_def [symmetric] fi_def [symmetric] by simp
  have sn: "set (if te_context_key e \<in> set ctxs then ctxs else te_context_key e # ctxs) =
      te_context_key ` {x \<in> set (es @ [e]). te_flag_key x = ?k}"
    using cs by auto
  have other: "{x \<in> set (es @ [e]). te_flag_key x = k} = {x \<in> set es. te_flag_key x = k}" if "k \<noteq> ?k" for k
    using that by auto
  show ?thesis
    unfolding insights_inv_def step prod.case
  proof (intro conjI allI impI, goal_cases)
    case 1 then show ?case using inv by (simp add: distinct_update)
  next
    case (2 k) then show ?case using inv by (auto simp: map_simps)
  next
    case (3 k fi') then show ?case using inv new by (auto simp: map_simps insight_other split: if_splits)
  next
    case (4 k fi')
    show ?case
    proof (cases "k = ?k")
      case True then show ?thesis using sn by (simp add: map_simps)
    next
      case False
      then show ?thesis using 4 inv unfolding other [OF False] by (simp add: map_simps)
    qed
  qed
qed

lemma insights_run: "insights_inv es (foldl insight_step ([], []) es)"
  by (induction es rule: rev_induct) (simp_all add: insights_inv_def [of "[]"] insights_step)

lemma insights_facts:
  fixes pk ek since evs
  defines "es \<equiv> filter (\<lambda>e. eval_of pk ek e \<and> \<not> te_timestamp e < since) evs"
  shows "distinct (map fi_flag_key (query_flag_insights evs pk ek since))"
    and "fi_flag_key ` set (query_flag_insights evs pk ek since) = te_flag_key ` set es"
    and "fi \<in> set (query_flag_insights evs pk ek since) \<Longrightarrow> insight_for (fi_flag_key fi) es fi"
proof -
  obtain by_flag seen where r: "foldl insight_step ([], []) es = (by_flag, seen)" by fastforce
  have q: "query_flag_insights evs pk ek since = map snd by_flag"
    unfolding query_flag_insights_def using r by (simp add: es_def)
  note inv = insights_run [of es, unfolded r insights_inv_def prod.case]
  have d: "distinct (mkeys by_flag)" using inv by blast
  have at: "insight_for k es v" if "(k, v) \<in> set by_flag" for k v
    using inv that d by (metis map_of_is_SomeI)
  then have key: "fi_flag_key v = k" if "(k, v) \<in> set by_flag" for k v
    using that by (simp add: insight_for_def Let_def)
  have keys: "map fi_flag_key (map snd by_flag) = mkeys by_flag"
    by (auto dest: key)
  show "distinct (map fi_flag_key (query_flag_insights evs pk ek since))"
    unfolding q keys by (rule d)
  have ex: "mget by_flag k \<noteq> None \<longleftrightarrow> (\<exists>e \<in> set es. te_flag_key e = k)" for k using inv by blast
  have "k \<in> set (mkeys by_flag) \<longleftrightarrow> k \<in> te_flag_key ` set es" for k
    using ex [of k] by (auto simp: map_of_eq_None_iff)
  then have "set (mkeys by_flag) = te_flag_key ` set es" by blast
  then show "fi_flag_key ` set (query_flag_insights evs pk ek since) = te_flag_key ` set es"
    unfolding q set_map [of fi_flag_key, symmetric] keys .
  show "insight_for (fi_flag_key fi) es fi" if "fi \<in> set (query_flag_insights evs pk ek since)"
    using that at key unfolding q by auto
qed

lemma no_insight:
  "\<forall>fi \<in> set (query_flag_insights evs pk ek since). fi_flag_key fi \<noteq> k \<Longrightarrow> e \<in> set evs \<Longrightarrow>
   eval_of pk ek e \<Longrightarrow> since \<le> te_timestamp e \<Longrightarrow> te_flag_key e \<noteq> k"
proof -
  assume none: "\<forall>fi \<in> set (query_flag_insights evs pk ek since). fi_flag_key fi \<noteq> k"
    and e: "e \<in> set evs" "eval_of pk ek e" "since \<le> te_timestamp e"
  have "te_flag_key e \<in> te_flag_key ` set (filter (\<lambda>e. eval_of pk ek e \<and> \<not> te_timestamp e < since) evs)"
    using e by (intro imageI) simp
  then obtain fi where "fi \<in> set (query_flag_insights evs pk ek since)" "te_flag_key e = fi_flag_key fi"
    unfolding insights_facts(2) [symmetric] by (rule imageE)
  with none show "te_flag_key e \<noteq> k" by simp
qed

text \<open>
  C31. \<open>QueryFlagInsights\<close> returns exactly one insight for every flag that was evaluated in the
  environment since the given time: its total is the number of those evaluations, the count of an index
  the number that served it, the counts together the number that served any, and the unique contexts
  the number of different keys.
\<close>

theorem insights_exact:
  fixes pk ek since evs
  defines "es \<equiv> filter (\<lambda>e. eval_of pk ek e \<and> \<not> te_timestamp e < since) evs"
  shows "distinct (map fi_flag_key (query_flag_insights evs pk ek since)) \<and>
    fi_flag_key ` set (query_flag_insights evs pk ek since) = te_flag_key ` set es \<and>
    (\<forall>fi \<in> set (query_flag_insights evs pk ek since). insight_for (fi_flag_key fi) es fi)"
  unfolding es_def by (intro conjI ballI insights_facts)

definition sample_history :: "track_event list" where
  "sample_history = [sample_event EvalEvent ''u'' (Some 1) 5, sample_event EvalEvent ''u'' (Some 1) 6,
     sample_event EvalEvent ''v'' None 7, sample_event CustomEvent ''u'' None 8,
     sample_event CustomEvent ''w'' None 8, sample_event CustomEvent ''u'' None 9, sample_event EvalEvent ''u'' (Some 0) 2]"

definition sample_insight :: flag_insight where
  "sample_insight = \<lparr>fi_flag_key = ''f'', fi_environment_key = ''prod'', fi_variation_counts = [(''1'', 2)],
     fi_total_evals = 3, fi_unique_contexts = 2\<rparr>"

lemma itoa_small: "itoa 0 = ''0''" "itoa 1 = ''1''" "itoa 2 = ''2''"
  by code_simp+

lemma sample_insights: "query_flag_insights sample_history ''p'' ''prod'' 5 = [sample_insight]"
  by (simp add: query_flag_insights_def sample_history_def sample_event_def eval_of_def insight_step_def
      Let_def count_event_def fresh_insight_def bump_def itoa_small sample_insight_def)

lemma insights_exact_witness:
  "sample_insight \<in> set (query_flag_insights sample_history ''p'' ''prod'' 5) \<and>
   insight_for ''f'' (filter (\<lambda>e. eval_of ''p'' ''prod'' e \<and> \<not> te_timestamp e < 5) sample_history) sample_insight"
  using insights_exact [of sample_history "''p''" "''prod''" 5]
  by (simp add: sample_insights) (simp add: sample_insight_def)

subsection \<open>Conversions\<close>

text \<open>The variation a context was last exposed to.\<close>

definition last_exposure :: "track_event list \<Rightarrow> string \<Rightarrow> int option" where
  "last_exposure es c =
     (let xs = filter (\<lambda>e. te_context_key e = c \<and> te_variation_index e \<noteq> None) es
      in if xs = [] then None else te_variation_index (last xs))"

lemma last_exposure_snoc:
  "last_exposure (es @ [e]) c =
     (if te_context_key e = c \<and> te_variation_index e \<noteq> None then te_variation_index e else last_exposure es c)"
  by (simp add: last_exposure_def Let_def)

lemma expose_run: "mget (foldl expose [] es) c = last_exposure es c"
proof (induction es rule: rev_induct)
  case Nil show ?case by (simp add: last_exposure_def)
next
  case (snoc e es)
  then show ?case by (cases "te_variation_index e") (auto simp: last_exposure_snoc expose_def map_simps)
qed

lemma convert_run:
  "lookup0 (foldl (convert ctxs) [] es) i = tally (\<lambda>e. mget ctxs (te_context_key e) = Some i) es"
  "distinct (map fst (foldl (convert ctxs) [] es))"
  "sum_list (map snd (foldl (convert ctxs) [] es)) = tally (\<lambda>e. mget ctxs (te_context_key e) \<noteq> None) es"
proof (induction es rule: rev_induct)
  case (snoc e es)
  { case 1 show ?case using snoc by (simp add: convert_def split: option.splits) }
  { case 2 show ?case using snoc by (simp add: convert_def split: option.splits) }
  { case 3 show ?case using snoc by (auto simp: convert_def split: option.splits) }
qed simp_all

lemma query_conversions_unfold:
  "query_conversions evs pk ek fk metric since =
    foldl (convert (foldl expose [] (filter (\<lambda>e. te_kind e = EvalEvent \<and> te_flag_key e = fk \<and>
      te_environment_key e = ek \<and> te_project_key e = pk \<and> since \<le> te_timestamp e) evs))) []
    (filter (\<lambda>e. te_kind e = CustomEvent \<and> te_metric_name e = metric \<and> te_environment_key e = ek \<and>
      te_project_key e = pk \<and> since \<le> te_timestamp e) evs)"
proof -
  have "exposure_of pk ek fk since = (\<lambda>e. te_kind e = EvalEvent \<and> te_flag_key e = fk \<and>
      te_environment_key e = ek \<and> te_project_key e = pk \<and> since \<le> te_timestamp e)"
    "metric_of pk ek metric since = (\<lambda>e. te_kind e = CustomEvent \<and> te_metric_name e = metric \<and>
      te_environment_key e = ek \<and> te_project_key e = pk \<and> since \<le> te_timestamp e)"
    by (auto simp: exposure_of_def metric_of_def)
  then show ?thesis by (simp only: query_conversions_def Let_def)
qed

text \<open>
  \<open>QueryConversions\<close> counts, for each variation, the metric's events of the contexts whose last
  exposure to the flag was that variation; together they are the metric's events of all exposed
  contexts, so no conversion is counted twice and none of an unexposed context is counted.
\<close>

theorem conversions_exact:
  fixes evs pk ek fk metric since
  defines "ex \<equiv> filter (\<lambda>e. te_kind e = EvalEvent \<and> te_flag_key e = fk \<and> te_environment_key e = ek \<and>
      te_project_key e = pk \<and> since \<le> te_timestamp e) evs"
    and "ms \<equiv> filter (\<lambda>e. te_kind e = CustomEvent \<and> te_metric_name e = metric \<and> te_environment_key e = ek \<and>
      te_project_key e = pk \<and> since \<le> te_timestamp e) evs"
  shows "lookup0 (query_conversions evs pk ek fk metric since) i =
      int (length (filter (\<lambda>e. last_exposure ex (te_context_key e) = Some i) ms)) \<and>
    sum_list (map snd (query_conversions evs pk ek fk metric since)) =
      int (length (filter (\<lambda>e. last_exposure ex (te_context_key e) \<noteq> None) ms))"
  unfolding query_conversions_unfold convert_run expose_run ex_def ms_def by (intro conjI refl)

text \<open>
  Exposures are looked up before any conversion is counted, whatever their order in time, and an event
  counts each time it occurs: one exposed context can convert twice.
\<close>

lemma sample_conversions: "query_conversions sample_history ''p'' ''prod'' ''f'' ''buy'' 5 = [(1, 2)]"
  by (simp add: query_conversions_def sample_history_def sample_event_def exposure_of_def metric_of_def
      expose_def convert_def bump_def Let_def)

subsection \<open>Stale flags\<close>

definition latest :: "string \<Rightarrow> track_event list \<Rightarrow> int" where
  "latest k es = Max (insert 0 (te_timestamp ` {e \<in> set es. te_flag_key e = k}))"

definition indexes :: "string \<Rightarrow> track_event list \<Rightarrow> int set" where
  "indexes k es = {i. \<exists>e \<in> set es. te_flag_key e = k \<and> te_variation_index e = Some i}"

lemma latest_snoc:
  "latest k (es @ [e]) = (if te_flag_key e = k then max (te_timestamp e) (latest k es) else latest k es)"
proof (cases "te_flag_key e = k")
  case True
  then have "insert 0 (te_timestamp ` {x \<in> set (es @ [e]). te_flag_key x = k}) =
      insert (te_timestamp e) (insert 0 (te_timestamp ` {x \<in> set es. te_flag_key x = k}))" by auto
  with True show ?thesis by (simp add: latest_def)
next
  case False
  then have "{x \<in> set (es @ [e]). te_flag_key x = k} = {x \<in> set es. te_flag_key x = k}" by auto
  with False show ?thesis by (simp add: latest_def)
qed

lemma latest_nonneg: "0 \<le> latest k es"
  by (simp add: latest_def)

lemma indexes_snoc:
  "indexes k (es @ [e]) = (if te_flag_key e = k then set_option (te_variation_index e) \<union> indexes k es else indexes k es)"
  by (auto simp: indexes_def)

definition stale_inv :: "track_event list \<Rightarrow> int gomap \<times> int list gomap \<times> bool gomap \<Rightarrow> bool" where
  "stale_inv es st \<longleftrightarrow> (case st of (last_eval, seen, _) \<Rightarrow>
     distinct (mkeys last_eval) \<and>
     (\<forall>k. mget last_eval k = (if 0 < latest k es then Some (latest k es) else None) \<and>
        (let vs = (case mget seen k of None \<Rightarrow> [] | Some vs \<Rightarrow> vs) in distinct vs \<and> set vs = indexes k es)))"

lemma stale_inv_step: "stale_inv es st \<Longrightarrow> stale_inv (es @ [e]) (stale_step st e)"
proof -
  assume inv: "stale_inv es st"
  obtain last_eval seen off where st: "st = (last_eval, seen, off)" by (cases st) auto
  let ?k = "te_flag_key e"
  note i = inv [unfolded st stale_inv_def prod.case]
  have le: "mget last_eval k = (if 0 < latest k es then Some (latest k es) else None)" for k using i by blast
  have prev: "(case mget last_eval ?k of None \<Rightarrow> 0 | Some t \<Rightarrow> t) = latest ?k es"
    using latest_nonneg [of ?k es] by (simp add: le)
  have vs: "distinct (case mget seen k of None \<Rightarrow> [] | Some vs \<Rightarrow> vs)"
    "set (case mget seen k of None \<Rightarrow> [] | Some vs \<Rightarrow> vs) = indexes k es" for k
    using i by (simp_all add: Let_def)
  show ?thesis
    unfolding stale_inv_def st stale_step_def prod.case Let_def prev
  proof (intro conjI allI, goal_cases)
    case 1 then show ?case using i by (simp add: distinct_update)
  next
    case (2 k) then show ?case using le latest_nonneg [of ?k es] by (auto simp: map_simps latest_snoc max_def)
  next
    case (3 k) then show ?case using vs(1) by (auto simp: map_simps split: option.splits)
  next
    case (4 k) then show ?case
      using vs(2) [of k] by (cases "te_variation_index e") (auto simp: map_simps indexes_snoc)
  qed
qed

lemma stale_run: "stale_inv es (foldl stale_step ([], [], []) es)"
  by (induction es rule: rev_induct) (simp_all add: stale_inv_step, simp add: stale_inv_def latest_def indexes_def)

text \<open>
  \<open>QueryStaleFlags\<close> reports a flag exactly if it has an evaluation with a positive time in the
  environment and either none in the last thirty days (\<open>no_evals_30d\<close>) or no two different variations in
  all its evaluations (\<open>single_variation\<close>); the time reported is the latest. A flag that was never
  evaluated is never reported, and no flag is reported as \<open>permanent_off\<close>, although the types promise both.
\<close>

theorem stale_exact:
  fixes now evs pk ek
  defines "es \<equiv> filter (eval_of pk ek) evs"
  shows "sf \<in> set (query_stale_flags now evs pk ek) \<longleftrightarrow>
    0 < latest (sf_flag_key sf) es \<and> sf_environment_key sf = ek \<and>
    sf_last_eval_at sf = latest (sf_flag_key sf) es \<and>
    (if sf_last_eval_at sf < now - 30 * 24 * 3600 * 1000 then sf_reason sf = ''no_evals_30d''
     else card (indexes (sf_flag_key sf) es) \<le> 1 \<and> sf_reason sf = ''single_variation'')"
proof -
  obtain last_eval seen off where r: "foldl stale_step ([], [], []) es = (last_eval, seen, off)"
    by (cases "foldl stale_step ([], [], []) es") auto
  note i = stale_run [of es, unfolded r stale_inv_def prod.case]
  have d: "distinct (mkeys last_eval)" using i by blast
  have le: "(k, t) \<in> set last_eval \<longleftrightarrow> 0 < latest k es \<and> t = latest k es" for k t
    using i map_of_eq_Some_iff [OF d, of k t] by (auto split: if_splits)
  have card: "length (case mget seen k of None \<Rightarrow> [] | Some vs \<Rightarrow> vs) = card (indexes k es)" for k
    using i distinct_card [of "case mget seen k of None \<Rightarrow> [] | Some vs \<Rightarrow> vs"] by (simp add: Let_def)
  have q: "query_stale_flags now evs pk ek =
      List.map_filter (stale_of (now - 30 * 24 * 3600 * 1000) ek seen) last_eval"
    unfolding query_stale_flags_def using r by (simp add: es_def)
  have mem: "x \<in> set (List.map_filter f xs) \<longleftrightarrow> (\<exists>y \<in> set xs. f y = Some x)" for x and f :: "'x \<Rightarrow> 'y option" and xs
    by (force simp: map_filter_def)
  show ?thesis
    unfolding q mem stale_of_def prod.case_eq_if Let_def card
    by (cases sf) (auto simp: le Bex_def split: if_splits)
qed

end
