(* ===== verification/Stats.thy ===== *)
theory Stats
  imports GoFloat Prelude Complex_Main
begin

text \<open>
  The statistics of experiments, \<open>internal/stats\<close>.

  Every function is written once, over the arithmetic of a type that has Go's operators; \<open>float64\<close> of
  \<open>GoFloat\<close> is the type the code runs on, and at the type of the real numbers the same definitions are the
  formulas they approximate. What the functions call of the package \<open>math\<close> is a record: of these functions
  the language only promises approximations. Rounded and exact results differ; the theorems on control
  flow hold for any arithmetic, the theorems on formulas are stated at the real numbers.

  An index out of range, which panics, is \<open>None\<close>.
\<close>

section \<open>Package math\<close>

text \<open>
  A constant of the program, and \<open>float64(n)\<close>, is the nearest value of the type; \<open>int64(math.Ceil(x))\<close> is
  one function, since its result is up to the implementation when it does not fit.
\<close>

record 'f math =
  m_const :: "rat \<Rightarrow> 'f"
  m_inf :: 'f
  m_sqrt2 :: 'f
  m_abs :: "'f \<Rightarrow> 'f"
  m_min :: "'f \<Rightarrow> 'f \<Rightarrow> 'f"
  m_sqrt :: "'f \<Rightarrow> 'f"
  m_exp :: "'f \<Rightarrow> 'f"
  m_log :: "'f \<Rightarrow> 'f"
  m_pow :: "'f \<Rightarrow> 'f \<Rightarrow> 'f"
  m_erfc :: "'f \<Rightarrow> 'f"
  m_lgamma :: "'f \<Rightarrow> 'f"
  m_ceil :: "'f \<Rightarrow> int"

abbreviation m_int :: "'f math \<Rightarrow> int \<Rightarrow> 'f" where
  "m_int M n \<equiv> m_const M (of_int n)"

section \<open>distributions.go\<close>

definition normal_cdf :: "'f :: {times,inverse,uminus} math \<Rightarrow> 'f \<Rightarrow> 'f" where
  "normal_cdf M z = m_const M (1 / 2) * m_erfc M (- z / m_sqrt2 M)"

text \<open>Acklam's approximation; \<open>horner\<close> writes the nested products of the source.\<close>

fun horner :: "'f :: {times,plus} \<Rightarrow> 'f list \<Rightarrow> 'f \<Rightarrow> 'f" where
  "horner acc [] q = acc"
| "horner acc (c # cs) q = horner (acc * q + c) cs q"

definition acklam_a :: "rat list" where
  "acklam_a = [- 39.69683028665376, 220.9460984245205, - 275.9285104469687, 138.3577518672690,
     - 30.66479806614716, 2.506628277459239]"

definition acklam_b :: "rat list" where
  "acklam_b = [- 54.47609879822406, 161.5858368580409, - 155.6989798598866, 66.80131188771972,
     - 13.28068155288572]"

definition acklam_c :: "rat list" where
  "acklam_c = [- 0.007784894002430293, - 0.3223964580411365, - 2.400758277161838, - 2.549732539343734,
     4.374664141464968, 2.938163982698783]"

definition acklam_d :: "rat list" where
  "acklam_d = [0.007784695709041462, 0.3224671290700398, 2.445134137142996, 3.754408661907416]"

definition poly :: "'f :: {times,plus} math \<Rightarrow> rat list \<Rightarrow> 'f \<Rightarrow> 'f" where
  "poly M cs q = horner (m_const M (hd cs)) (map (m_const M) (tl cs)) q"

definition normal_quantile :: "'f :: {zero,one,plus,minus,uminus,times,inverse,ord} math \<Rightarrow> 'f \<Rightarrow> 'f" where
  "normal_quantile M p =
     (if p \<le> 0 then - m_inf M
      else if 1 \<le> p then m_inf M
      else if p = m_const M (1 / 2) then 0
      else
        let p_low = m_const M 0.02425; p_high = 1 - p_low
        in if p < p_low then
             let q = m_sqrt M (m_const M (- 2) * m_log M p)
             in poly M acklam_c q / (poly M acklam_d q * q + 1)
           else if p \<le> p_high then
             let q = p - m_const M (1 / 2); r = q * q
             in poly M acklam_a r * q / (poly M acklam_b r * r + 1)
           else
             let q = m_sqrt M (m_const M (- 2) * m_log M (1 - p))
             in - poly M acklam_c q / (poly M acklam_d q * q + 1))"

fun series_loop :: "'f :: {one,plus,times,inverse,ord} math \<Rightarrow> nat \<Rightarrow> 'f \<Rightarrow> 'f \<Rightarrow> 'f \<Rightarrow> 'f \<Rightarrow> 'f" where
  "series_loop M 0 x ap del acc = acc"
| "series_loop M (Suc n) x ap del acc =
     (let ap' = ap + 1; del' = del * (x / ap'); acc' = acc + del'
      in if m_abs M del' < m_abs M acc' * m_const M 0.0000003 then acc' else series_loop M n x ap' del' acc')"

definition gamma_series :: "'f :: {zero,one,plus,minus,uminus,times,inverse,ord} math \<Rightarrow> 'f \<Rightarrow> 'f \<Rightarrow> 'f" where
  "gamma_series M a x =
     (if x = 0 then 0
      else let s = series_loop M 200 x a (1 / a) (1 / a)
           in s * m_exp M (- x + a * m_log M x - m_lgamma M a))"

text \<open>\<open>i\<close> counts from 1 to 200, \<open>fpmin\<close> is the guard against a division by zero.\<close>

definition guard_zero :: "'f :: ord math \<Rightarrow> 'f \<Rightarrow> 'f" where
  "guard_zero M d = (let fpmin = m_const M (1 / 10 ^ 300) in if m_abs M d < fpmin then fpmin else d)"

fun fraction_loop ::
    "'f :: {one,plus,minus,uminus,times,inverse,ord} math \<Rightarrow> nat \<Rightarrow> int \<Rightarrow> 'f \<Rightarrow> 'f \<Rightarrow> 'f \<Rightarrow> 'f \<Rightarrow> 'f \<Rightarrow> 'f" where
  "fraction_loop M 0 i a b c d h = h"
| "fraction_loop M (Suc n) i a b c d h =
     (let an = - m_int M i * (m_int M i - a);
          b' = b + m_const M 2;
          d' = guard_zero M (an * d + b');
          c' = guard_zero M (b' + an / c);
          d'' = 1 / d';
          del = d'' * c';
          h' = h * del
      in if m_abs M (del - 1) < m_const M 0.0000003 then h'
         else fraction_loop M n (i + 1) a b' c' d'' h')"

definition gamma_continued_fraction ::
    "'f :: {one,plus,minus,uminus,times,inverse,ord} math \<Rightarrow> 'f \<Rightarrow> 'f \<Rightarrow> 'f" where
  "gamma_continued_fraction M a x =
     (let b = x + 1 - a; c = 1 / m_const M (1 / 10 ^ 300); d = 1 / b
      in m_exp M (- x + a * m_log M x - m_lgamma M a) * fraction_loop M 200 1 a b c d d)"

definition regularized_gamma_p :: "'f :: {zero,one,plus,minus,uminus,times,inverse,ord} math \<Rightarrow> 'f \<Rightarrow> 'f \<Rightarrow> 'f" where
  "regularized_gamma_p M a x =
     (if x < 0 then 0
      else if x = 0 then 0
      else if x < a + 1 then gamma_series M a x
      else 1 - gamma_continued_fraction M a x)"

definition chi_square_cdf :: "'f :: {zero,one,plus,minus,uminus,times,inverse,ord} math \<Rightarrow> 'f \<Rightarrow> int \<Rightarrow> 'f" where
  "chi_square_cdf M x df =
     (if x \<le> 0 then 0 else regularized_gamma_p M (m_int M df / m_const M 2) (x / m_const M 2))"

section \<open>welford.go\<close>

record 'f running_stats =
  rs_n :: int
  rs_mean :: 'f
  rs_m2 :: 'f

definition no_stats :: "'f :: zero running_stats" where
  "no_stats = \<lparr>rs_n = 0, rs_mean = 0, rs_m2 = 0\<rparr>"

definition rs_add :: "'f :: {plus,minus,times,inverse} math \<Rightarrow> 'f running_stats \<Rightarrow> 'f \<Rightarrow> 'f running_stats" where
  "rs_add M r x =
     (let n = wrap64 (rs_n r + 1);
          delta = x - rs_mean r;
          mean = rs_mean r + delta / m_int M n;
          delta2 = x - mean
      in \<lparr>rs_n = n, rs_mean = mean, rs_m2 = rs_m2 r + delta * delta2\<rparr>)"

definition rs_variance :: "'f :: {zero,inverse} math \<Rightarrow> 'f running_stats \<Rightarrow> 'f" where
  "rs_variance M r = (if rs_n r < 2 then 0 else rs_m2 r / m_int M (rs_n r - 1))"

definition rs_std_dev :: "'f :: {zero,inverse} math \<Rightarrow> 'f running_stats \<Rightarrow> 'f" where
  "rs_std_dev M r = m_sqrt M (rs_variance M r)"

definition rs_std_error :: "'f :: {zero,inverse} math \<Rightarrow> 'f running_stats \<Rightarrow> 'f" where
  "rs_std_error M r = (if rs_n r = 0 then 0 else rs_std_dev M r / m_sqrt M (m_int M (rs_n r)))"

definition rs_merge ::
    "'f :: {plus,minus,times,inverse} math \<Rightarrow> 'f running_stats \<Rightarrow> 'f running_stats \<Rightarrow> 'f running_stats" where
  "rs_merge M r oth =
     (if rs_n oth = 0 then r
      else if rs_n r = 0 then oth
      else
        let n = wrap64 (rs_n r + rs_n oth);
            delta = rs_mean oth - rs_mean r
        in \<lparr>rs_n = n,
            rs_mean = rs_mean r + delta * m_int M (rs_n oth) / m_int M n,
            rs_m2 = rs_m2 r + rs_m2 oth + delta * delta * m_int M (rs_n r) * m_int M (rs_n oth) / m_int M n\<rparr>)"

section \<open>srm.go\<close>

record 'f srm_result =
  srm_observed :: "int list"
  srm_expected :: "'f list"
  srm_chi_square :: 'f
  srm_p_value :: 'f
  srm_mismatch :: bool

text \<open>The loop over the weights, from index \<open>i\<close>, with the observed counts from that index on.\<close>

fun srm_loop ::
    "'f :: {zero,plus,minus,times,inverse,ord} math \<Rightarrow> int \<Rightarrow> 'f \<Rightarrow> int list \<Rightarrow> 'f list \<Rightarrow> 'f \<Rightarrow> ('f list \<times> 'f) option" where
  "srm_loop M tot wsum obs [] chi = Some ([], chi)"
| "srm_loop M tot wsum obs (w # ws) chi =
     (let e = m_int M tot * w / wsum
      in if 0 < e then
           (case obs of [] \<Rightarrow> None
            | ob # obs' \<Rightarrow>
                let d = m_int M ob - e
                in map_option (\<lambda>(es, c). (e # es, c)) (srm_loop M tot wsum obs' ws (chi + d * d / e)))
         else map_option (\<lambda>(es, c). (e # es, c)) (srm_loop M tot wsum (tl obs) ws chi))"

definition check_srm ::
    "'f :: {zero,one,plus,minus,uminus,times,inverse,ord} math \<Rightarrow> int list \<Rightarrow> 'f list \<Rightarrow> 'f srm_result option" where
  "check_srm M obs weights =
     (let tot = foldl (\<lambda>a b. wrap64 (a + b)) 0 obs;
          wsum = foldl (+) 0 weights
      in map_option (\<lambda>(es, chi).
           let p = 1 - chi_square_cdf M chi (int (length obs) - 1)
           in \<lparr>srm_observed = obs, srm_expected = es, srm_chi_square = chi, srm_p_value = p,
               srm_mismatch = p < m_const M 0.001\<rparr>)
         (srm_loop M tot wsum obs weights 0))"

section \<open>ztest.go, msprt.go, samplesize.go\<close>

record 'f proportion_result =
  pr_control_n :: int
  pr_control_conv :: int
  pr_treatment_n :: int
  pr_treatment_conv :: int
  pr_control_rate :: 'f
  pr_treatment_rate :: 'f
  pr_absolute_effect :: 'f
  pr_relative_effect :: 'f
  pr_z_score :: 'f
  pr_p_value :: 'f
  pr_ci_lower :: 'f
  pr_ci_upper :: 'f
  pr_significant :: bool

definition two_proportion_z_test ::
    "'f :: {zero,one,plus,minus,uminus,times,inverse,ord} math \<Rightarrow> int \<Rightarrow> int \<Rightarrow> int \<Rightarrow> int \<Rightarrow> 'f \<Rightarrow> 'f proportion_result" where
  "two_proportion_z_test M cn cc tn tc alpha =
     (if cn = 0 \<or> tn = 0 then
        \<lparr>pr_control_n = 0, pr_control_conv = 0, pr_treatment_n = 0, pr_treatment_conv = 0,
         pr_control_rate = 0, pr_treatment_rate = 0, pr_absolute_effect = 0, pr_relative_effect = 0,
         pr_z_score = 0, pr_p_value = 1, pr_ci_lower = 0, pr_ci_upper = 0, pr_significant = False\<rparr>
      else
        let pc = m_int M cc / m_int M cn;
            pt = m_int M tc / m_int M tn;
            diff = pt - pc;
            pool = m_int M (wrap64 (cc + tc)) / m_int M (wrap64 (cn + tn));
            se_pooled = m_sqrt M (pool * (1 - pool) * (1 / m_int M cn + 1 / m_int M tn));
            z = (if 0 < se_pooled then diff / se_pooled else 0);
            p = m_const M 2 * (1 - normal_cdf M (m_abs M z));
            se_unpooled = m_sqrt M (pc * (1 - pc) / m_int M cn + pt * (1 - pt) / m_int M tn);
            z_crit = normal_quantile M (1 - alpha / m_const M 2);
            rel = (if 0 < pc then diff / pc else 0)
        in \<lparr>pr_control_n = cn, pr_control_conv = cc, pr_treatment_n = tn, pr_treatment_conv = tc,
            pr_control_rate = pc, pr_treatment_rate = pt, pr_absolute_effect = diff, pr_relative_effect = rel,
            pr_z_score = z, pr_p_value = p, pr_ci_lower = diff - z_crit * se_unpooled,
            pr_ci_upper = diff + z_crit * se_unpooled, pr_significant = p < alpha\<rparr>)"

datatype seq_decision = SeqContinue | SeqRejectNull | SeqAcceptNull

record 'f sequential_result =
  sq_p_value :: 'f
  sq_lower :: 'f
  sq_upper :: 'f
  sq_decision :: seq_decision
  sq_collected :: int
  sq_required :: int

definition seq_undecided :: "'f :: {zero,one} sequential_result" where
  "seq_undecided = \<lparr>sq_p_value = 1, sq_lower = 0, sq_upper = 0, sq_decision = SeqContinue,
     sq_collected = 0, sq_required = 0\<rparr>"

definition msprt ::
    "'f :: {zero,one,plus,minus,uminus,times,inverse,ord} math \<Rightarrow> int \<Rightarrow> int \<Rightarrow> int \<Rightarrow> int \<Rightarrow> 'f \<Rightarrow> 'f \<Rightarrow> 'f sequential_result" where
  "msprt M cn cc tn tc tau alpha =
     (if cn = 0 \<or> tn = 0 then seq_undecided
      else
        let pc = m_int M cc / m_int M cn;
            pt = m_int M tc / m_int M tn;
            delta = pt - pc;
            v = pc * (1 - pc) / m_int M cn + pt * (1 - pt) / m_int M tn
        in if v \<le> 0 then seq_undecided
           else
             let lr = m_sqrt M (v / (v + tau * tau)) *
                   m_exp M ((tau * tau * delta * delta) / (m_const M 2 * v * (v + tau * tau)));
                 av_p = m_min M 1 (1 / lr);
                 denom = tau * tau;
                 inner = v * (v + tau * tau) / denom * m_log M ((v + tau * tau) / (v * alpha * alpha));
                 half_width = (if 0 < denom \<and> 0 < inner then m_sqrt M inner else 0)
             in \<lparr>sq_p_value = av_p, sq_lower = delta - half_width, sq_upper = delta + half_width,
                 sq_decision = (if av_p < alpha then SeqRejectNull else SeqContinue),
                 sq_collected = wrap64 (cn + tn), sq_required = 0\<rparr>)"

definition required_sample_size ::
    "'f :: {zero,one,plus,minus,uminus,times,inverse,ord} math \<Rightarrow> 'f \<Rightarrow> 'f \<Rightarrow> 'f \<Rightarrow> 'f \<Rightarrow> int" where
  "required_sample_size M baseline mde alpha pow =
     (let z_alpha = normal_quantile M (1 - alpha / m_const M 2);
          z_beta = normal_quantile M pow;
          pc = baseline;
          pt = baseline + mde;
          num = m_pow M (z_alpha + z_beta) (m_const M 2) * (pc * (1 - pc) + pt * (1 - pt));
          den = m_pow M (pt - pc) (m_const M 2)
      in if den = 0 then 0 else m_ceil M (num / den))"

section \<open>The two arithmetics\<close>

text \<open>
  The package at \<open>float64\<close>: constants are rounded to the nearest value; the functions that the language
  does not define exactly are arguments.
\<close>

definition go_math :: "(float64 \<Rightarrow> float64) \<Rightarrow> (float64 \<Rightarrow> float64) \<Rightarrow> (float64 \<Rightarrow> float64) \<Rightarrow> (float64 \<Rightarrow> float64) \<Rightarrow>
    (float64 \<Rightarrow> float64 \<Rightarrow> float64) \<Rightarrow> (float64 \<Rightarrow> float64) \<Rightarrow> (float64 \<Rightarrow> int) \<Rightarrow> float64 math" where
  "go_math sqrtf expf logf erfcf powf lgammaf ceilf =
     \<lparr>m_const = round64, m_inf = PosInf, m_sqrt2 = Fin 1.4142135623730951454746218587388284504413604736328125,
      m_abs = fabs, m_min = (\<lambda>a b. if a = NaN \<or> b = NaN then NaN else if a < b then a else b),
      m_sqrt = sqrtf, m_exp = expf, m_log = logf, m_pow = powf, m_erfc = erfcf, m_lgamma = lgammaf, m_ceil = ceilf\<rparr>"

text \<open>Exact arithmetic; what has no elementary definition is an argument.\<close>

definition exact :: "real \<Rightarrow> (real \<Rightarrow> real) \<Rightarrow> (real \<Rightarrow> real) \<Rightarrow> real math" where
  "exact infty erfcf lgammaf =
     \<lparr>m_const = of_rat, m_inf = infty, m_sqrt2 = sqrt 2, m_abs = abs, m_min = min, m_sqrt = sqrt, m_exp = exp,
      m_log = ln, m_pow = (\<lambda>x y. if y = 2 then x ^ 2 else x powr y), m_erfc = erfcf, m_lgamma = lgammaf,
      m_ceil = ceiling\<rparr>"

lemma exact_simps [simp]:
  "m_const (exact i e l) q = of_rat q" "m_sqrt (exact i e l) = sqrt" "m_exp (exact i e l) = exp"
  "m_log (exact i e l) = ln" "m_min (exact i e l) = min" "m_abs (exact i e l) = abs" "m_erfc (exact i e l) = e"
  "m_sqrt2 (exact i e l) = sqrt 2"
  by (simp_all add: exact_def)

section \<open>Welford's algorithm computes the mean and the variance\<close>

definition sum_of :: "real list \<Rightarrow> real" where
  "sum_of xs = sum_list xs"

definition squares_of :: "real list \<Rightarrow> real" where
  "squares_of xs = sum_list (map (\<lambda>x. x * x) xs)"

text \<open>The textbook values: with the count, the mean and the sum of the squared deviations from it.\<close>

definition mean_of :: "real list \<Rightarrow> real" where
  "mean_of xs = sum_of xs / real (length xs)"

definition deviations :: "real list \<Rightarrow> real" where
  "deviations xs = sum_list (map (\<lambda>x. (x - mean_of xs) * (x - mean_of xs)) xs)"

lemma deviations_shift:
  "sum_list (map (\<lambda>x. (x - m) * (x - m)) xs) = squares_of xs - 2 * m * sum_of xs + real (length xs) * m * m"
  by (induction xs) (simp_all add: squares_of_def sum_of_def algebra_simps)

lemma deviations_squares: "xs \<noteq> [] \<Longrightarrow> deviations xs = squares_of xs - sum_of xs * sum_of xs / real (length xs)"
  unfolding deviations_def deviations_shift by (simp add: mean_of_def field_simps)

definition small :: "'a list \<Rightarrow> bool" where
  "small xs \<longleftrightarrow> length xs < 2 ^ 63"

lemma wrap_length: "small xs \<Longrightarrow> wrap64 (int (length xs)) = int (length xs)"
  by (simp add: small_def wrap64_id int64_range_def)

lemma sum_snoc [simp]: "sum_of (xs @ ys) = sum_of xs + sum_of ys" "squares_of (xs @ ys) = squares_of xs + squares_of ys"
  "sum_of [x] = x" "squares_of [x] = x * x"
  by (simp_all add: sum_of_def squares_of_def)

lemma welford_algebra:
  fixes n m s t x q r :: real
  assumes "0 < n" "0 < m"
  shows "s / n + (x - s / n) / (n + 1) = (s + x) / (n + 1)"
    and "q - s * s / n + (x - s / n) * (x - (s + x) / (n + 1)) = q + x * x - (s + x) * (s + x) / (n + 1)"
    and "s / n + (t / m - s / n) * m / (n + m) = (s + t) / (n + m)"
    and "q - s * s / n + (r - t * t / m) + (t / m - s / n) * (t / m - s / n) * n * m / (n + m) =
      q + r - (s + t) * (s + t) / (n + m)"
  using assms by (simp_all add: divide_simps) (simp_all add: algebra_simps)

definition stats_of :: "real list \<Rightarrow> real running_stats" where
  "stats_of xs = (if xs = [] then no_stats
     else \<lparr>rs_n = int (length xs), rs_mean = mean_of xs, rs_m2 = deviations xs\<rparr>)"

lemma welford_step:
  assumes "small (xs @ [x])"
  shows "rs_add (exact i e l) (stats_of xs) x = stats_of (xs @ [x])"
proof (cases "xs = []")
  case True
  then show ?thesis by (simp add: rs_add_def stats_of_def no_stats_def wrap64_def mean_of_def deviations_def Let_def)
next
  case False
  define n where "n = real (length xs)"
  have n: "0 < n" using False by (simp add: n_def)
  have w: "wrap64 (1 + int (length xs)) = 1 + int (length xs)" using wrap_length [OF assms] by simp
  have m: "mean_of xs + (x - mean_of xs) / (n + 1) = mean_of (xs @ [x])"
    using welford_algebra(1) [OF n zero_less_one] by (simp add: mean_of_def n_def add.commute)
  have d: "deviations (xs @ [x]) = squares_of xs + x * x - (sum_of xs + x) * (sum_of xs + x) / (n + 1)"
    "deviations xs = squares_of xs - sum_of xs * sum_of xs / n"
    using deviations_squares [of "xs @ [x]"] deviations_squares [OF False] by (simp_all add: n_def add.commute)
  have "deviations xs + (x - mean_of xs) * (x - mean_of (xs @ [x])) = deviations (xs @ [x])"
    unfolding d using welford_algebra(2) [OF n zero_less_one, of "squares_of xs" "sum_of xs" x]
    by (simp add: mean_of_def n_def add.commute)
  with False m show ?thesis
    by (simp add: rs_add_def stats_of_def w Let_def n_def add.commute)
qed

lemma welford_run: "small xs \<Longrightarrow> foldl (rs_add (exact i e l)) no_stats xs = stats_of xs"
proof (induction xs rule: rev_induct)
  case Nil show ?case by (simp add: stats_of_def)
next
  case (snoc x xs)
  then show ?case using welford_step [of xs x] by (simp add: small_def)
qed

lemma merge_run:
  assumes "small (xs @ ys)"
  shows "rs_merge (exact i e l) (stats_of xs) (stats_of ys) = stats_of (xs @ ys)"
proof (cases "xs = [] \<or> ys = []")
  case True
  then show ?thesis by (auto simp: rs_merge_def stats_of_def no_stats_def)
next
  case False
  define n m where "n = real (length xs)" "m = real (length ys)"
  have n: "0 < n" "0 < m" using False by (simp_all add: n_m_def)
  have w: "wrap64 (int (length xs) + int (length ys)) = int (length xs) + int (length ys)"
    using wrap_length [OF assms] by simp
  have mean: "mean_of xs + (mean_of ys - mean_of xs) * m / (n + m) = mean_of (xs @ ys)"
    using welford_algebra(3) [OF n] by (simp add: mean_of_def n_m_def)
  have d: "deviations (xs @ ys) = squares_of xs + squares_of ys - (sum_of xs + sum_of ys) * (sum_of xs + sum_of ys) / (n + m)"
    "deviations xs = squares_of xs - sum_of xs * sum_of xs / n"
    "deviations ys = squares_of ys - sum_of ys * sum_of ys / m"
    using deviations_squares [of "xs @ ys"] deviations_squares [of xs] deviations_squares [of ys] False
    by (simp_all add: n_m_def)
  have "deviations xs + deviations ys +
      (mean_of ys - mean_of xs) * (mean_of ys - mean_of xs) * n * m / (n + m) = deviations (xs @ ys)"
    unfolding d using welford_algebra(4) [OF n] by (simp add: mean_of_def n_m_def)
  with False mean w show ?thesis
    by (simp add: rs_merge_def stats_of_def Let_def n_m_def)
qed

lemma welford_exact_facts:
  assumes "length (xs @ ys) < 2 ^ 63"
  shows "foldl (rs_add (exact i e l)) no_stats xs =
      \<lparr>rs_n = int (length xs), rs_mean = sum_list xs / real (length xs),
       rs_m2 = sum_list (map (\<lambda>x. (x - sum_list xs / real (length xs)) ^ 2) xs)\<rparr>"
    and "rs_merge (exact i e l) (foldl (rs_add (exact i e l)) no_stats xs) (foldl (rs_add (exact i e l)) no_stats ys) =
      foldl (rs_add (exact i e l)) no_stats (xs @ ys)"
proof -
  have s: "small xs" "small ys" "small (xs @ ys)" using assms by (simp_all add: small_def)
  show "foldl (rs_add (exact i e l)) no_stats xs =
      \<lparr>rs_n = int (length xs), rs_mean = sum_list xs / real (length xs),
       rs_m2 = sum_list (map (\<lambda>x. (x - sum_list xs / real (length xs)) ^ 2) xs)\<rparr>"
    unfolding welford_run [OF s(1)]
    by (simp add: stats_of_def no_stats_def mean_of_def deviations_def sum_of_def power2_eq_square)
  show "rs_merge (exact i e l) (foldl (rs_add (exact i e l)) no_stats xs) (foldl (rs_add (exact i e l)) no_stats ys) =
      foldl (rs_add (exact i e l)) no_stats (xs @ ys)"
    unfolding welford_run [OF s(1)] welford_run [OF s(2)] welford_run [OF s(3)] by (rule merge_run [OF s(3)])
qed

text \<open>
  C33. Welford's algorithm is the textbook one: in exact arithmetic, adding a list of samples one by one
  gives their number, their mean and the sum of the squared deviations from it, and merging the
  statistics of two parts is adding all the samples of both.
\<close>

theorem welford_exact:
  assumes "length (xs @ ys) < 2 ^ 63"
  shows "foldl (rs_add (exact i e l)) no_stats xs =
      \<lparr>rs_n = int (length xs), rs_mean = sum_list xs / real (length xs),
       rs_m2 = sum_list (map (\<lambda>x. (x - sum_list xs / real (length xs)) ^ 2) xs)\<rparr> \<and>
    rs_merge (exact i e l) (foldl (rs_add (exact i e l)) no_stats xs) (foldl (rs_add (exact i e l)) no_stats ys) =
      foldl (rs_add (exact i e l)) no_stats (xs @ ys)"
  using welford_exact_facts [OF assms] by blast

lemma welford_exact_witness:
  "rs_merge (exact 0 id id) (foldl (rs_add (exact 0 id id)) no_stats [1, 2]) (foldl (rs_add (exact 0 id id)) no_stats [6]) =
     \<lparr>rs_n = 3, rs_mean = 3, rs_m2 = 14\<rparr>"
  using conjunct2 [OF welford_exact [of "[1, 2]" "[6]" 0 id id]] conjunct1 [OF welford_exact [of "[1, 2, 6]" "[]" 0 id id]] by simp

section \<open>The sequential test and its confidence sequence\<close>

text \<open>The mixture likelihood ratio exceeds \<open>1 / alpha\<close> exactly if the effect exceeds the half width.\<close>

lemma halves: "(y :: real) = z / 2 \<Longrightarrow> - a < b / 2 + y \<longleftrightarrow> - b - 2 * a < z"
  by auto

lemma mixture_dual:
  fixes v tau d alpha :: real
  assumes v: "0 < v" and t: "tau \<noteq> 0" and a: "0 < alpha" "alpha < 1"
  defines "lr \<equiv> sqrt (v / (v + tau * tau)) * exp ((tau * tau * d * d) / (2 * v * (v + tau * tau)))"
    and "inner \<equiv> v * (v + tau * tau) / (tau * tau) * ln ((v + tau * tau) / (v * alpha * alpha))"
  shows "0 < inner" "min 1 (1 / lr) < alpha \<longleftrightarrow> sqrt inner < \<bar>d\<bar>"
proof -
  let ?t = "tau * tau"
  have tt: "0 < ?t" using t by (auto simp: zero_less_mult_iff)
  have va: "0 < v * alpha * alpha" using v a by simp
  have q: "0 < v / (v + ?t)" using v tt by simp
  have lr: "0 < lr" unfolding lr_def using q by simp
  have aa: "alpha * alpha < 1" using a using mult_strict_mono [of alpha 1 alpha 1] a by simp
  have "v * alpha * alpha < v * 1" unfolding mult.assoc using v aa by (intro mult_strict_left_mono)
  then have "1 < (v + ?t) / (v * alpha * alpha)" using va tt by (simp add: less_divide_eq)
  then have l: "0 < ln ((v + ?t) / (v * alpha * alpha))" by simp
  have c: "0 < v * (v + ?t) / ?t" using v tt by simp
  show i: "0 < inner" unfolding inner_def by (rule mult_pos_pos [OF c l])
  have lnlr: "ln lr = ln (v / (v + ?t)) / 2 + (?t * d * d) / (2 * v * (v + ?t))"
    unfolding lr_def using q by (simp add: ln_mult ln_sqrt)
  have split: "ln ((v + ?t) / (v * alpha * alpha)) = - ln (v / (v + ?t)) - 2 * ln alpha"
    using v tt a by (simp add: ln_div ln_mult)
  have "min 1 (1 / lr) < alpha \<longleftrightarrow> 1 / lr < alpha" using a by auto
  also have "\<dots> \<longleftrightarrow> ln (1 / lr) < ln alpha" using lr a by simp
  also have "\<dots> \<longleftrightarrow> - ln alpha < ln lr" using lr by (simp add: ln_div) linarith
  also have "\<dots> \<longleftrightarrow> ln ((v + ?t) / (v * alpha * alpha)) < (?t * d * d) / (v * (v + ?t))"
  proof -
    have "(?t * d * d) / (2 * v * (v + ?t)) = (?t * d * d) / (v * (v + ?t)) / 2" by (simp add: mult.assoc)
    then show ?thesis unfolding lnlr split by (rule halves)
  qed
  also have "\<dots> \<longleftrightarrow> inner < d * d"
  proof -
    have "inner < d * d \<longleftrightarrow> ln ((v + ?t) / (v * alpha * alpha)) < d * d / (v * (v + ?t) / ?t)"
      unfolding inner_def using c by (subst pos_less_divide_eq) (simp_all add: mult.commute)
    moreover have "d * d / (v * (v + ?t) / ?t) = (?t * d * d) / (v * (v + ?t))" by (simp add: mult.commute mult.left_commute)
    ultimately show ?thesis by (simp add: mult.commute mult.left_commute)
  qed
  also have "\<dots> \<longleftrightarrow> sqrt inner < \<bar>d\<bar>"
    using i by (metis real_sqrt_less_iff real_sqrt_abs2)
  finally show "min 1 (1 / lr) < alpha \<longleftrightarrow> sqrt inner < \<bar>d\<bar>" .
qed
lemma exact_int [simp]: "m_int (exact i e l) n = real_of_int n"
  by simp

text \<open>The variance of the difference of two rates, not both of which are 0 or 1.\<close>

definition rate_variance :: "int \<Rightarrow> int \<Rightarrow> int \<Rightarrow> int \<Rightarrow> real" where
  "rate_variance cn cc tn tc =
     (let pc = real_of_int cc / real_of_int cn; pt = real_of_int tc / real_of_int tn
      in pc * (1 - pc) / real_of_int cn + pt * (1 - pt) / real_of_int tn)"

lemma arm_variance:
  assumes "0 \<le> c" "c \<le> n" "0 < n"
  shows "0 \<le> real_of_int c / real_of_int n * (1 - real_of_int c / real_of_int n) / real_of_int n"
    and "0 < c \<Longrightarrow> c < n \<Longrightarrow> 0 < real_of_int c / real_of_int n * (1 - real_of_int c / real_of_int n) / real_of_int n"
  using assms by simp_all

lemma rate_variance_pos:
  assumes "0 < cn" "0 < tn" "0 \<le> cc" "cc \<le> cn" "0 \<le> tc" "tc \<le> tn" "0 < cc \<and> cc < cn \<or> 0 < tc \<and> tc < tn"
  shows "0 < rate_variance cn cc tn tc"
  using arm_variance [of cc cn] arm_variance [of tc tn] assms
  by (auto simp: rate_variance_def Let_def add_pos_nonneg add_nonneg_pos)

lemma msprt_interval_facts:
  fixes tau alpha infty :: real and erfcf lgammaf :: "real \<Rightarrow> real"
  assumes "0 < cn" "0 < tn" "0 \<le> cc" "cc \<le> cn" "0 \<le> tc" "tc \<le> tn" "0 < cc \<and> cc < cn \<or> 0 < tc \<and> tc < tn"
    and "tau \<noteq> 0" "0 < alpha" "alpha < 1"
  defines "r \<equiv> msprt (exact infty erfcf lgammaf) cn cc tn tc tau alpha"
  shows "sq_decision r = (if sq_lower r \<le> 0 \<and> 0 \<le> sq_upper r then SeqContinue else SeqRejectNull)"
    and "(sq_lower r + sq_upper r) / 2 = real_of_int tc / real_of_int tn - real_of_int cc / real_of_int cn"
proof -
  define v where "v = rate_variance cn cc tn tc"
  define d where "d = real_of_int tc / real_of_int tn - real_of_int cc / real_of_int cn"
  have v: "0 < v" unfolding v_def by (rule rate_variance_pos [OF assms(1-7)])
  have tt: "0 < tau * tau" using assms(8) by (auto simp: zero_less_mult_iff)
  note pos = mixture_dual(1) [OF v assms(8-10)]
  note dual = mixture_dual(2) [OF v assms(8-10), where d = d]
  let ?inner = "v * (v + tau * tau) / (tau * tau) * ln ((v + tau * tau) / (v * alpha * alpha))"
  have n: "cn \<noteq> 0" "tn \<noteq> 0" using assms(1,2) by simp_all
  have r: "sq_decision r = (if min 1 (1 / (sqrt (v / (v + tau * tau)) *
        exp ((tau * tau * d * d) / (2 * v * (v + tau * tau))))) < alpha then SeqRejectNull else SeqContinue)"
    "sq_lower r = d - sqrt ?inner" "sq_upper r = d + sqrt ?inner"
    using v tt n pos unfolding r_def msprt_def Let_def exact_simps exact_int of_rat_numeral_eq
    by (simp_all add: v_def [unfolded rate_variance_def Let_def] d_def)
  show "sq_decision r = (if sq_lower r \<le> 0 \<and> 0 \<le> sq_upper r then SeqContinue else SeqRejectNull)"
    unfolding r dual using real_sqrt_ge_zero [OF less_imp_le [OF pos]] by auto
  show "(sq_lower r + sq_upper r) / 2 = real_of_int tc / real_of_int tn - real_of_int cc / real_of_int cn"
    unfolding r d_def [symmetric] by simp
qed

text \<open>
  C34. The decision and the confidence sequence of \<open>MSPRT\<close> say the same: in exact arithmetic, with data of
  positive variance and a level below one, the null hypothesis is rejected exactly if the interval
  around the measured effect does not contain zero. \<open>SeqAcceptNull\<close> is never decided.
\<close>

theorem msprt_interval:
  fixes tau alpha infty :: real and erfcf lgammaf :: "real \<Rightarrow> real"
  assumes "0 < cn" "0 < tn" "0 \<le> cc" "cc \<le> cn" "0 \<le> tc" "tc \<le> tn" "0 < cc \<and> cc < cn \<or> 0 < tc \<and> tc < tn"
    and "tau \<noteq> 0" "0 < alpha" "alpha < 1"
  defines "r \<equiv> msprt (exact infty erfcf lgammaf) cn cc tn tc tau alpha"
  shows "sq_decision r = (if sq_lower r \<le> 0 \<and> 0 \<le> sq_upper r then SeqContinue else SeqRejectNull) \<and>
    (sq_lower r + sq_upper r) / 2 = real_of_int tc / real_of_int tn - real_of_int cc / real_of_int cn"
  unfolding r_def by (intro conjI msprt_interval_facts assms)

lemma msprt_interval_witness:
  "sq_decision (msprt (exact 0 id id) 10 5 10 5 0.02 0.05) =
    (if sq_lower (msprt (exact 0 id id) 10 5 10 5 0.02 0.05) \<le> 0 \<and>
        0 \<le> sq_upper (msprt (exact 0 id id) 10 5 10 5 0.02 0.05) then SeqContinue else SeqRejectNull)"
  by (rule conjunct1 [OF msprt_interval]) simp_all

text \<open>
  The most extreme data are the ones the test cannot see: when no user of the control and every user of
  the treatment converts, or the reverse, the estimated variance is zero and the answer is \<open>continue\<close> with
  p-value 1, however many users there are.
\<close>

theorem msprt_separation:
  assumes "0 < n" "0 < m"
  shows "msprt (exact i e l) n 0 m m tau alpha = seq_undecided"
    and "msprt (exact i e l) n n m 0 tau alpha = seq_undecided"
  using assms by (simp_all add: msprt_def)

lemma msprt_separation_witness:
  "sq_decision (msprt (exact 0 id id) 1000000 0 1000000 1000000 0.02 0.05) = SeqContinue"
  using msprt_separation(1) [of 1000000 1000000 0 id id "0.02" "0.05"] by (simp add: seq_undecided_def)

section \<open>The two-proportion test\<close>

text \<open>What the test needs of the complementary error function.\<close>

definition error_function :: "(real \<Rightarrow> real) \<Rightarrow> bool" where
  "error_function f \<longleftrightarrow> f 0 = 1 \<and> (\<forall>x y. x \<le> y \<longrightarrow> f y \<le> f x) \<and> (\<forall>x. 0 \<le> f x \<and> f x \<le> 2)"

lemma cdf_bounds:
  assumes "error_function f" "0 \<le> z"
  shows "1 / 2 \<le> normal_cdf (exact i f l) z" "normal_cdf (exact i f l) z \<le> 1"
proof -
  have "- z / sqrt 2 \<le> 0" using assms(2) by simp
  then have "f 0 \<le> f (- z / sqrt 2)" using assms(1) unfolding error_function_def by blast
  then show "1 / 2 \<le> normal_cdf (exact i f l) z"
    using assms by (simp add: normal_cdf_def error_function_def of_rat_divide)
  show "normal_cdf (exact i f l) z \<le> 1"
    using assms by (simp add: normal_cdf_def error_function_def of_rat_divide)
qed

text \<open>
  \<open>TwoProportionZTest\<close> does not care which arm is called the control: exchanging the arms keeps the
  p-value and the verdict, negates the effect and the score and mirrors the confidence interval. The
  p-value is between 0 and 1, and 1 when the rates are equal.
\<close>

theorem z_test_symmetric:
  fixes alpha infty :: real and erfcf lgammaf :: "real \<Rightarrow> real" and cn cc tn tc :: int
  assumes "error_function erfcf" "0 < cn" "0 < tn"
  defines "r \<equiv> two_proportion_z_test (exact infty erfcf lgammaf) cn cc tn tc alpha"
    and "t \<equiv> two_proportion_z_test (exact infty erfcf lgammaf) tn tc cn cc alpha"
  shows "pr_p_value t = pr_p_value r \<and> pr_significant t = pr_significant r \<and>
      pr_absolute_effect t = - pr_absolute_effect r \<and> pr_z_score t = - pr_z_score r \<and>
      pr_ci_lower t = - pr_ci_upper r \<and> pr_ci_upper t = - pr_ci_lower r"
    and "0 \<le> pr_p_value r \<and> pr_p_value r \<le> 1"
    and "cc * tn = tc * cn \<longrightarrow> pr_p_value r = 1"
proof -
  have n: "cn \<noteq> 0" "tn \<noteq> 0" using assms(2,3) by simp_all
  have p: "pr_p_value r = 2 * (1 - normal_cdf (exact infty erfcf lgammaf) \<bar>pr_z_score r\<bar>)"
    "pr_p_value t = 2 * (1 - normal_cdf (exact infty erfcf lgammaf) \<bar>pr_z_score t\<bar>)"
    "pr_significant r = (pr_p_value r < alpha)" "pr_significant t = (pr_p_value t < alpha)"
    using n by (simp_all add: r_def t_def two_proportion_z_test_def Let_def)
  have z: "pr_z_score t = - pr_z_score r"
    using n by (simp add: r_def t_def two_proportion_z_test_def Let_def add.commute) (simp add: diff_divide_distrib)
  have "pr_absolute_effect t = - pr_absolute_effect r" "pr_ci_lower t = - pr_ci_upper r" "pr_ci_upper t = - pr_ci_lower r"
    using n by (simp_all add: r_def t_def two_proportion_z_test_def Let_def add.commute)
  then show "pr_p_value t = pr_p_value r \<and> pr_significant t = pr_significant r \<and>
      pr_absolute_effect t = - pr_absolute_effect r \<and> pr_z_score t = - pr_z_score r \<and>
      pr_ci_lower t = - pr_ci_upper r \<and> pr_ci_upper t = - pr_ci_lower r"
    by (simp add: p z)
  show "0 \<le> pr_p_value r \<and> pr_p_value r \<le> 1"
    unfolding p(1) using cdf_bounds [OF assms(1), of "\<bar>pr_z_score r\<bar>" infty lgammaf] by simp
  show "cc * tn = tc * cn \<longrightarrow> pr_p_value r = 1"
  proof
    assume "cc * tn = tc * cn"
    then have "real_of_int cc * real_of_int tn = real_of_int tc * real_of_int cn" by (metis of_int_mult)
    then have "real_of_int tc / real_of_int tn - real_of_int cc / real_of_int cn = 0"
      using n by (simp add: frac_eq_eq)
    then have "pr_z_score r = 0" using n by (simp add: r_def two_proportion_z_test_def Let_def)
    with assms(1) show "pr_p_value r = 1" by (simp add: p(1) normal_cdf_def error_function_def of_rat_divide)
  qed
qed

definition some_erfc :: "real \<Rightarrow> real" where
  "some_erfc x = (if x \<le> -1 then 2 else if 1 \<le> x then 0 else 1 - x)"

lemma z_test_symmetric_witness:
  "error_function some_erfc \<and>
   pr_p_value (two_proportion_z_test (exact 0 some_erfc id) 10 2 20 4 0.05) = 1"
proof -
  have e: "error_function some_erfc" by (auto simp: error_function_def some_erfc_def)
  then show ?thesis using z_test_symmetric(3) [OF e, of 10 20 2 4 0 id "0.05"] by simp
qed

section \<open>Sample ratio mismatch\<close>

lemma wrap_fold: "foldl (\<lambda>a b. wrap64 (a + b)) (wrap64 a) xs = wrap64 (a + sum_list xs)"
  by (induction xs arbitrary: a) (simp_all add: wrap64_add add.assoc)

definition chi_terms :: "real list \<Rightarrow> real list \<Rightarrow> real" where
  "chi_terms os es = sum_list (map2 (\<lambda>ob e. (ob - e) ^ 2 / e) os es)"

lemma srm_loop_exact:
  assumes "length obs = length ws" "0 < tot" "0 < wsum" "\<forall>w \<in> set ws. 0 < w"
  shows "srm_loop (exact i e l) tot wsum obs ws chi =
    (let es = map (\<lambda>w. real_of_int tot * w / wsum) ws
     in Some (es, chi + chi_terms (map real_of_int obs) es))"
  using assms
proof (induction obs ws arbitrary: chi rule: list_induct2)
  case (Cons ob obs w ws)
  have "0 < real_of_int tot * w / wsum" using Cons.prems by simp
  with Cons show ?case by (simp add: Let_def chi_terms_def power2_eq_square)
qed (simp add: chi_terms_def Let_def)

lemma srm_loop_short:
  assumes "length obs < length ws" "0 < tot" "0 < wsum" "\<forall>w \<in> set ws. 0 < w"
  shows "srm_loop (exact i e l) tot wsum obs ws chi = None"
  using assms
proof (induction ws arbitrary: obs chi)
  case (Cons w ws)
  have "0 < real_of_int tot * w / wsum" using Cons.prems by simp
  with Cons show ?case by (cases obs) (simp_all add: Let_def)
qed simp

lemma chi_terms_zero:
  "length os = length es \<Longrightarrow> \<forall>e \<in> set es. 0 < e \<Longrightarrow> 0 \<le> chi_terms os es \<and> (chi_terms os es = 0 \<longleftrightarrow> os = es)"
proof (induction os es rule: list_induct2)
  case (Cons ob os e es)
  have "0 \<le> (ob - e) ^ 2 / e" using Cons.prems by simp
  moreover have "(ob - e) ^ 2 / e = 0 \<longleftrightarrow> ob = e" using Cons.prems by simp
  ultimately show ?case using Cons by (auto simp: chi_terms_def add_nonneg_eq_0_iff)
qed (simp add: chi_terms_def)

lemma foldl_plus: "foldl (+) (a :: real) xs = a + sum_list xs"
  by (induction xs arbitrary: a) simp_all

lemma sum_scaled: "sum_list (map (\<lambda>w. (c :: real) * w / d) ws) = c * sum_list ws / d"
  by (induction ws) (simp_all add: distrib_left add_divide_distrib)

lemma sum_pos: "ws \<noteq> [] \<Longrightarrow> \<forall>w \<in> set ws. 0 < (w :: real) \<Longrightarrow> 0 < sum_list ws"
  by (induction ws) (force simp: add_pos_nonneg intro: sum_list_nonneg add_pos_pos)+

text \<open>
  \<open>CheckSRM\<close> compares the counts with what the weights announce: in exact arithmetic the expected
  counts are in the ratio of the weights and sum to the number of users, the statistic is the sum of
  the squared differences over the expected counts, it is zero exactly for a perfect split, and a
  perfect split is never reported as a mismatch. With fewer counts than weights it panics.
\<close>

theorem srm_exact:
  fixes ws :: "real list"
  assumes "ws \<noteq> []" "\<forall>w \<in> set ws. 0 < w" "0 < sum_list obs" "sum_list obs < 2 ^ 63"
  shows "length obs = length ws \<Longrightarrow> \<exists>r. check_srm (exact infty erfcf lgammaf) obs ws = Some r \<and>
      srm_expected r = map (\<lambda>w. real_of_int (sum_list obs) * w / sum_list ws) ws \<and>
      sum_list (srm_expected r) = real_of_int (sum_list obs) \<and>
      srm_chi_square r = sum_list (map2 (\<lambda>ob e. (real_of_int ob - e) ^ 2 / e) obs (srm_expected r)) \<and>
      (srm_chi_square r = 0 \<longleftrightarrow> map real_of_int obs = srm_expected r) \<and>
      (map real_of_int obs = srm_expected r \<longrightarrow> \<not> srm_mismatch r)"
    and "length obs < length ws \<Longrightarrow> check_srm (exact infty erfcf lgammaf) obs ws = None"
proof -
  have w: "0 < sum_list ws" by (rule sum_pos [OF assms(1,2)])
  have tot: "foldl (\<lambda>a b. wrap64 (a + b)) 0 obs = sum_list obs"
    using wrap_fold [of 0 obs] assms(3,4) by (simp add: wrap64_id int64_range_def)
  have ws: "foldl (+) 0 ws = sum_list ws" by (simp add: foldl_plus)
  show "length obs = length ws \<Longrightarrow> \<exists>r. check_srm (exact infty erfcf lgammaf) obs ws = Some r \<and>
      srm_expected r = map (\<lambda>w. real_of_int (sum_list obs) * w / sum_list ws) ws \<and>
      sum_list (srm_expected r) = real_of_int (sum_list obs) \<and>
      srm_chi_square r = sum_list (map2 (\<lambda>ob e. (real_of_int ob - e) ^ 2 / e) obs (srm_expected r)) \<and>
      (srm_chi_square r = 0 \<longleftrightarrow> map real_of_int obs = srm_expected r) \<and>
      (map real_of_int obs = srm_expected r \<longrightarrow> \<not> srm_mismatch r)"
  proof -
    assume len: "length obs = length ws"
    let ?es = "map (\<lambda>w. real_of_int (sum_list obs) * w / sum_list ws) ws"
    have pos: "\<forall>e \<in> set ?es. 0 < e" using assms(2,3) w by auto
    have z: "chi_terms (map real_of_int obs) ?es = 0 \<longleftrightarrow> map real_of_int obs = ?es"
      using chi_terms_zero [OF _ pos, of "map real_of_int obs"] len by simp
    have c: "chi_terms (map real_of_int obs) ?es = sum_list (map2 (\<lambda>ob e. (real_of_int ob - e) ^ 2 / e) obs ?es)"
      by (simp add: chi_terms_def zip_map1 comp_def case_prod_unfold)
    let ?r = "let p = 1 - chi_square_cdf (exact infty erfcf lgammaf) (chi_terms (map real_of_int obs) ?es) (int (length obs) - 1)
      in \<lparr>srm_observed = obs, srm_expected = ?es, srm_chi_square = chi_terms (map real_of_int obs) ?es,
          srm_p_value = p, srm_mismatch = p < of_rat 0.001\<rparr>"
    have "check_srm (exact infty erfcf lgammaf) obs ws = Some ?r"
      unfolding check_srm_def tot ws Let_def srm_loop_exact [OF len assms(3) w assms(2)] by simp
    moreover have "sum_list ?es = real_of_int (sum_list obs)" using w by (simp add: sum_scaled)
    moreover have "map real_of_int obs = ?es \<longrightarrow> \<not> srm_mismatch ?r"
    proof
      assume "map real_of_int obs = ?es"
      with z have "chi_terms (map real_of_int obs) ?es = 0" by blast
      then show "\<not> srm_mismatch ?r" unfolding Let_def by (simp add: chi_square_cdf_def of_rat_divide)
    qed
    ultimately show ?thesis using z c by (intro exI [of _ ?r]) (simp add: Let_def)
  qed
  show "length obs < length ws \<Longrightarrow> check_srm (exact infty erfcf lgammaf) obs ws = None"
    unfolding check_srm_def tot ws Let_def using srm_loop_short [OF _ assms(3) w assms(2)] by simp
qed

lemma srm_exact_witness:
  "(\<exists>r. check_srm (exact 0 id id) [30, 10] [3, 1] = Some r \<and> srm_chi_square r = 0 \<and> \<not> srm_mismatch r) \<and>
   check_srm (exact 0 id id) [30] [3, 1] = None"
  using srm_exact(1) [of "[3, 1]" "[30, 10]" 0 id id] srm_exact(2) [of "[3, 1]" "[30]" 0 id id] by auto

end
