(* ===== verification/Experiment.thy ===== *)
theory Experiment
  imports Analytics Stats Api
begin

text \<open>
  Experiments, \<open>internal/experiment\<close>: the in-memory store (\<open>store.go\<close>), the engine that computes results
  from the analytics events (\<open>engine.go\<close>), and the three handlers of \<open>internal/api/server.go\<close>.

  The engine's arithmetic is that of \<open>Stats\<close>, over any number type. \<open>MemEventStore\<close>, the only event store,
  never fails, so the engine's error branches are not there. A time is an instant in nanoseconds.

  The lemmas show that the engine never panics, whose events it counts, and what the interface can
  and cannot reach.
\<close>

section \<open>types.go\<close>

datatype experiment_status = StatusDraft | StatusRunning | StatusPaused | StatusStopped | StatusArchived
  | StatusOther string

record 'f metric =
  met_key :: string
  met_name :: string
  met_event_name :: string
  met_kind :: string
  met_is_guardrail :: bool
  met_mde :: 'f

record experiment_variation =
  xv_variation_index :: int
  xv_name :: string
  xv_is_control :: bool
  xv_weight :: int

record 'f ab_experiment =
  xp_key :: string
  xp_name :: string
  xp_description :: string
  xp_flag_key :: string
  xp_environment_key :: string
  xp_project_key :: string
  xp_variations :: "experiment_variation list"
  xp_metrics :: "'f metric list"
  xp_status :: experiment_status
  xp_alpha :: 'f
  xp_power :: 'f
  xp_started_at :: "int option"
  xp_stopped_at :: "int option"
  xp_created_at :: int
  xp_updated_at :: int

record 'f srm_summary =
  ss_chi_square :: 'f
  ss_p_value :: 'f
  ss_mismatch :: bool

record 'f variant_metric =
  vm_variation_index :: int
  vm_name :: string
  vm_control_n :: int
  vm_control_conv :: int
  vm_treatment_n :: int
  vm_treatment_conv :: int
  vm_control_rate :: 'f
  vm_treatment_rate :: 'f
  vm_absolute_effect :: 'f
  vm_relative_effect :: 'f
  vm_z_score :: 'f
  vm_p_value :: 'f
  vm_ci_lower :: 'f
  vm_ci_upper :: 'f
  vm_significant :: bool
  vm_always_valid_p_value :: 'f
  vm_seq_decision :: seq_decision
  vm_samples_required :: int

record 'f metric_result =
  mr_metric_key :: string
  mr_metric_name :: string
  mr_variants :: "'f variant_metric list"

record 'f experiment_results =
  er_experiment_key :: string
  er_computed_at :: int
  er_total_samples :: int
  er_srm_result :: "'f srm_summary option"
  er_metric_results :: "'f metric_result list"

section \<open>store.go\<close>

record 'f experiment_store =
  xs_experiments :: "'f ab_experiment gomap"
  xs_results :: "'f experiment_results list gomap"

datatype experiment_error = ExperimentExists string | ExperimentNotFound string | NoResults string

definition new_experiment_store :: "'f experiment_store" where
  "new_experiment_store = \<lparr>xs_experiments = [], xs_results = []\<rparr>"

text \<open>The caller's experiment is stamped, and it is the stored one: the store keeps the pointer.\<close>

definition exp_create :: "int \<Rightarrow> 'f experiment_store \<Rightarrow> 'f ab_experiment \<Rightarrow>
    experiment_error + ('f experiment_store \<times> 'f ab_experiment)" where
  "exp_create now s x =
     (if mget (xs_experiments s) (xp_key x) \<noteq> None then Inl (ExperimentExists (xp_key x))
      else let x' = x\<lparr>xp_created_at := now, xp_updated_at := now\<rparr>
           in Inr (s\<lparr>xs_experiments := mput (xp_key x) x' (xs_experiments s)\<rparr>, x'))"

definition exp_get :: "'f experiment_store \<Rightarrow> string \<Rightarrow> experiment_error + 'f ab_experiment" where
  "exp_get s k = (case mget (xs_experiments s) k of None \<Rightarrow> Inl (ExperimentNotFound k) | Some x \<Rightarrow> Inr x)"

definition exp_list :: "'f experiment_store \<Rightarrow> string \<Rightarrow> string \<Rightarrow> 'f ab_experiment list" where
  "exp_list s pk ek =
     filter (\<lambda>x. xp_project_key x = pk \<and> xp_environment_key x = ek) (map snd (xs_experiments s))"

definition exp_update :: "int \<Rightarrow> 'f experiment_store \<Rightarrow> 'f ab_experiment \<Rightarrow> experiment_error + 'f experiment_store" where
  "exp_update now s x =
     (if mget (xs_experiments s) (xp_key x) = None then Inl (ExperimentNotFound (xp_key x))
      else Inr (s\<lparr>xs_experiments := mput (xp_key x) (x\<lparr>xp_updated_at := now\<rparr>) (xs_experiments s)\<rparr>))"

definition exp_delete :: "'f experiment_store \<Rightarrow> string \<Rightarrow> 'f experiment_store" where
  "exp_delete s k = s\<lparr>xs_experiments := mdel k (xs_experiments s)\<rparr>"

definition record_results :: "'f experiment_store \<Rightarrow> 'f experiment_results \<Rightarrow> 'f experiment_store" where
  "record_results s r =
     (let k = er_experiment_key r; rs = (case mget (xs_results s) k of None \<Rightarrow> [] | Some rs \<Rightarrow> rs)
      in s\<lparr>xs_results := mput k (rs @ [r]) (xs_results s)\<rparr>)"

definition get_latest_results :: "'f experiment_store \<Rightarrow> string \<Rightarrow> experiment_error + 'f experiment_results" where
  "get_latest_results s k =
     (let rs = (case mget (xs_results s) k of None \<Rightarrow> [] | Some rs \<Rightarrow> rs)
      in if rs = [] then Inl (NoResults k) else Inr (last rs))"

section \<open>engine.go\<close>

text \<open>\<open>observedByVariation\<close>: a count for every index of the experiment's variations, 0 for the others.\<close>

definition observed_by_variation :: "'f ab_experiment \<Rightarrow> flag_insight \<Rightarrow> int \<Rightarrow> int" where
  "observed_by_variation x fi i =
     (if i \<in> xv_variation_index ` set (xp_variations x)
      then lookup0 (fi_variation_counts fi) (itoa i) else 0)"

definition control_index :: "experiment_variation list \<Rightarrow> int" where
  "control_index vs = (case List.find xv_is_control vs of None \<Rightarrow> 0 | Some v \<Rightarrow> xv_variation_index v)"

definition variant_result ::
    "'f :: {zero,one,plus,minus,uminus,times,inverse,ord} math \<Rightarrow> 'f ab_experiment \<Rightarrow> 'f metric \<Rightarrow> int \<Rightarrow> int \<Rightarrow>
     experiment_variation \<Rightarrow> int \<Rightarrow> int \<Rightarrow> 'f variant_metric" where
  "variant_result M x m control_n control_conv v treat_n treat_conv =
     (let alpha = (if xp_alpha x = 0 then m_const M 0.05 else xp_alpha x);
          z = two_proportion_z_test M control_n control_conv treat_n treat_conv alpha;
          sq = msprt M control_n control_conv treat_n treat_conv (m_const M 0.02) alpha;
          req = (if 0 < met_mde m
                 then required_sample_size M (m_int M control_conv / m_int M control_n) (met_mde m) alpha (xp_power x)
                 else 0)
      in \<lparr>vm_variation_index = xv_variation_index v, vm_name = xv_name v,
          vm_control_n = control_n, vm_control_conv = control_conv,
          vm_treatment_n = treat_n, vm_treatment_conv = treat_conv,
          vm_control_rate = pr_control_rate z, vm_treatment_rate = pr_treatment_rate z,
          vm_absolute_effect = pr_absolute_effect z, vm_relative_effect = pr_relative_effect z,
          vm_z_score = pr_z_score z, vm_p_value = pr_p_value z, vm_ci_lower = pr_ci_lower z,
          vm_ci_upper = pr_ci_upper z, vm_significant = pr_significant z,
          vm_always_valid_p_value = sq_p_value sq, vm_seq_decision = sq_decision sq,
          vm_samples_required = req\<rparr>)"

definition metric_variants ::
    "'f :: {zero,one,plus,minus,uminus,times,inverse,ord} math \<Rightarrow> track_event list \<Rightarrow> int \<Rightarrow> 'f ab_experiment \<Rightarrow>
     flag_insight \<Rightarrow> 'f metric \<Rightarrow> 'f variant_metric list" where
  "metric_variants M evs since x fi m =
     (let ci = control_index (xp_variations x);
          control_n = observed_by_variation x fi ci;
          conv = query_conversions evs (xp_project_key x) (xp_environment_key x) (xp_flag_key x)
                   (met_event_name m) since
      in List.map_filter (\<lambda>v.
           let treat_n = observed_by_variation x fi (xv_variation_index v)
           in if xv_is_control v then None
              else if control_n = 0 \<or> treat_n = 0 then None
              else Some (variant_result M x m control_n (lookup0 conv ci) v treat_n
                           (lookup0 conv (xv_variation_index v)))) (xp_variations x))"

definition since_of :: "'f ab_experiment \<Rightarrow> int" where
  "since_of x = (case xp_started_at x of None \<Rightarrow> 0 | Some t \<Rightarrow> t div 1000000)"

text \<open>\<open>None\<close> is a panic of the SRM check.\<close>

definition compute_results ::
    "'f :: {zero,one,plus,minus,uminus,times,inverse,ord} math \<Rightarrow> int \<Rightarrow> track_event list \<Rightarrow> 'f ab_experiment \<Rightarrow>
     'f experiment_results option" where
  "compute_results M now evs x =
     (let since = since_of x;
          insights = query_flag_insights evs (xp_project_key x) (xp_environment_key x) since
      in case List.find (\<lambda>i. fi_flag_key i = xp_flag_key x) insights of
           None \<Rightarrow> Some \<lparr>er_experiment_key = xp_key x, er_computed_at = now, er_total_samples = 0,
                         er_srm_result = None, er_metric_results = []\<rparr>
         | Some fi \<Rightarrow>
             map_option (\<lambda>srm. \<lparr>er_experiment_key = xp_key x, er_computed_at = now,
                 er_total_samples = fi_total_evals fi,
                 er_srm_result = Some \<lparr>ss_chi_square = srm_chi_square srm, ss_p_value = srm_p_value srm,
                                       ss_mismatch = srm_mismatch srm\<rparr>,
                 er_metric_results = map (\<lambda>m. \<lparr>mr_metric_key = met_key m, mr_metric_name = met_name m,
                     mr_variants = metric_variants M evs since x fi m\<rparr>) (xp_metrics x)\<rparr>)
               (check_srm M (map (\<lambda>v. observed_by_variation x fi (xv_variation_index v)) (xp_variations x))
                            (map (\<lambda>v. m_int M (xv_weight v)) (xp_variations x))))"

section \<open>The handlers\<close>

text \<open>The server's experiment store may be absent. The results are looked up by the experiment's key alone.\<close>

definition list_experiments :: "string \<Rightarrow> string \<Rightarrow> 'f experiment_store option \<Rightarrow> 'f ab_experiment list response" where
  "list_experiments pk ek st = (case st of None \<Rightarrow> Reply 200 [] | Some s \<Rightarrow> Reply 200 (exp_list s pk ek))"

definition create_experiment :: "int \<Rightarrow> string \<Rightarrow> 'f ab_experiment option \<Rightarrow> 'f experiment_store option \<Rightarrow>
    'f ab_experiment response \<times> 'f experiment_store option" where
  "create_experiment now pk body st =
     (case st of None \<Rightarrow> (Problem 503, None)
      | Some s \<Rightarrow>
          (case body of None \<Rightarrow> (Problem 400, Some s)
           | Some x \<Rightarrow>
               (case exp_create now s (x\<lparr>xp_project_key := pk\<rparr>) of
                  Inl _ \<Rightarrow> (Problem 409, Some s)
                | Inr (s', x') \<Rightarrow> (Reply 201 x', Some s'))))"

definition get_experiment_results :: "string \<Rightarrow> 'f experiment_store option \<Rightarrow> 'f experiment_results response" where
  "get_experiment_results k st =
     (case st of None \<Rightarrow> Problem 503
      | Some s \<Rightarrow> (case get_latest_results s k of Inl _ \<Rightarrow> Problem 404 | Inr r \<Rightarrow> Reply 200 r))"

section \<open>What the engine computes\<close>

lemma srm_loop_returns: "length ws \<le> length obs \<Longrightarrow> srm_loop M tot wsum obs ws chi \<noteq> None"
proof (induction ws arbitrary: obs chi)
  case (Cons w ws)
  then obtain ob obs' where o: "obs = ob # obs'" by (cases obs) auto
  have "srm_loop M tot wsum obs' ws c \<noteq> None" for c
    using Cons.IH [of obs'] Cons.prems o by simp
  then show ?case by (simp add: o Let_def option.map_disc_iff del: not_None_eq)
qed simp

lemma engine_returns: "\<exists>r. compute_results M now evs x = Some r"
proof -
  have "check_srm M (map f vs) (map g vs) \<noteq> None" for f g and vs :: "experiment_variation list"
    using srm_loop_returns [of "map g vs" "map f vs"]
    by (simp add: check_srm_def Let_def option.map_disc_iff del: not_None_eq)
  then have "compute_results M now evs x \<noteq> None"
    unfolding compute_results_def Let_def
    by (cases "List.find (\<lambda>i. fi_flag_key i = xp_flag_key x)
      (query_flag_insights evs (xp_project_key x) (xp_environment_key x) (since_of x))")
     (simp_all add: option.map_disc_iff del: not_None_eq)
  then show ?thesis by blast
qed

text \<open>The evaluations and the metric's events an experiment is about.\<close>

definition exp_evaluations :: "track_event list \<Rightarrow> 'f ab_experiment \<Rightarrow> track_event list" where
  "exp_evaluations evs x = filter (\<lambda>e. te_kind e = EvalEvent \<and> te_flag_key e = xp_flag_key x \<and>
     te_environment_key e = xp_environment_key x \<and> te_project_key e = xp_project_key x \<and>
     since_of x \<le> te_timestamp e) evs"

definition exp_metric_events :: "track_event list \<Rightarrow> 'f ab_experiment \<Rightarrow> string \<Rightarrow> track_event list" where
  "exp_metric_events evs x metric = filter (\<lambda>e. te_kind e = CustomEvent \<and> te_metric_name e = metric \<and>
     te_environment_key e = xp_environment_key x \<and> te_project_key e = xp_project_key x \<and>
     since_of x \<le> te_timestamp e) evs"

definition exposures :: "track_event list \<Rightarrow> 'f ab_experiment \<Rightarrow> int \<Rightarrow> int" where
  "exposures evs x i = tally (\<lambda>e. te_variation_index e = Some i) (exp_evaluations evs x)"

definition conversions :: "track_event list \<Rightarrow> 'f ab_experiment \<Rightarrow> string \<Rightarrow> int \<Rightarrow> int" where
  "conversions evs x metric i =
     tally (\<lambda>e. last_exposure (exp_evaluations evs x) (te_context_key e) = Some i) (exp_metric_events evs x metric)"

lemma found_insight:
  assumes "List.find (\<lambda>i. fi_flag_key i = xp_flag_key x)
      (query_flag_insights evs (xp_project_key x) (xp_environment_key x) (since_of x)) = Some fi"
  shows "fi_total_evals fi = int (length (exp_evaluations evs x))"
    and "lookup0 (fi_variation_counts fi) (itoa i) = exposures evs x i"
proof -
  have k: "fi_flag_key fi = xp_flag_key x"
    and m: "fi \<in> set (query_flag_insights evs (xp_project_key x) (xp_environment_key x) (since_of x))"
    using assms by (auto simp: find_Some_iff)
  have es: "filter (\<lambda>e. te_flag_key e = xp_flag_key x)
      (filter (\<lambda>e. eval_of (xp_project_key x) (xp_environment_key x) e \<and> \<not> te_timestamp e < since_of x) evs) =
      exp_evaluations evs x"
    by (auto simp: exp_evaluations_def eval_of_def not_less conj_ac intro!: arg_cong [where f = "\<lambda>P. filter P evs"])
  have i: "insight_for (xp_flag_key x)
      (filter (\<lambda>e. eval_of (xp_project_key x) (xp_environment_key x) e \<and> \<not> te_timestamp e < since_of x) evs) fi"
    using insights_facts(3) [OF m] unfolding k .
  show "fi_total_evals fi = int (length (exp_evaluations evs x))"
    and "lookup0 (fi_variation_counts fi) (itoa i) = exposures evs x i"
    using i unfolding insight_for_def Let_def es by (simp_all add: exposures_def)
qed

lemma experiment_counts_facts:
  shows "\<exists>r. compute_results M now evs x = Some r"
    and "compute_results M now evs x = Some r \<Longrightarrow>
      er_total_samples r = int (length (exp_evaluations evs x))"
    and "compute_results M now evs x = Some r \<Longrightarrow> mr \<in> set (er_metric_results r) \<Longrightarrow> vm \<in> set (mr_variants mr) \<Longrightarrow>
      \<exists>m \<in> set (xp_metrics x). \<exists>v \<in> set (xp_variations x).
        let c = control_index (xp_variations x); i = vm_variation_index vm
        in mr_metric_key mr = met_key m \<and> i = xv_variation_index v \<and> \<not> xv_is_control v \<and>
           0 < exposures evs x c \<and> 0 < exposures evs x i \<and>
           vm_control_n vm = exposures evs x c \<and> vm_treatment_n vm = exposures evs x i \<and>
           vm_control_conv vm = conversions evs x (met_event_name m) c \<and>
           vm_treatment_conv vm = conversions evs x (met_event_name m) i"
proof -
  show "\<exists>r. compute_results M now evs x = Some r" by (rule engine_returns)
  assume r: "compute_results M now evs x = Some r"
  let ?find = "List.find (\<lambda>i. fi_flag_key i = xp_flag_key x)
      (query_flag_insights evs (xp_project_key x) (xp_environment_key x) (since_of x))"
  show "er_total_samples r = int (length (exp_evaluations evs x))"
  proof (cases ?find)
    case None
    have "exp_evaluations evs x = []"
      using no_insight [where pk = "xp_project_key x" and ek = "xp_environment_key x" and since = "since_of x"
        and evs = evs and k = "xp_flag_key x"] None
      by (auto simp: exp_evaluations_def find_None_iff filter_empty_conv eval_of_def not_less)
    then show ?thesis using r None by (auto simp: compute_results_def Let_def)
  next
    case (Some fi)
    then show ?thesis using r found_insight(1) [OF Some] by (auto simp: compute_results_def Let_def)
  qed
  assume mr: "mr \<in> set (er_metric_results r)" and vm: "vm \<in> set (mr_variants mr)"
  then obtain fi where fi: "?find = Some fi"
    using r by (cases ?find) (auto simp: compute_results_def Let_def)
  obtain m where m: "m \<in> set (xp_metrics x)" "mr_metric_key mr = met_key m"
      "vm \<in> set (metric_variants M evs (since_of x) x fi m)"
    using r mr vm fi by (auto simp: compute_results_def Let_def)
  let ?c = "control_index (xp_variations x)"
  let ?conv = "query_conversions evs (xp_project_key x) (xp_environment_key x) (xp_flag_key x) (met_event_name m) (since_of x)"
  obtain v where v: "v \<in> set (xp_variations x)" "\<not> xv_is_control v"
      "observed_by_variation x fi ?c \<noteq> 0" "observed_by_variation x fi (xv_variation_index v) \<noteq> 0"
      "vm = variant_result M x m (observed_by_variation x fi ?c) (lookup0 ?conv ?c) v
         (observed_by_variation x fi (xv_variation_index v)) (lookup0 ?conv (xv_variation_index v))"
    using m(3) by (auto simp: metric_variants_def Let_def map_filter_def split: if_splits)
  have conv: "lookup0 ?conv i = conversions evs x (met_event_name m) i" for i
    unfolding conversions_def exp_evaluations_def exp_metric_events_def
      query_conversions_unfold convert_run(1) expose_run ..
  have obs: "observed_by_variation x fi i = exposures evs x i" if "observed_by_variation x fi i \<noteq> 0" for i
    using that found_insight(2) [OF fi] by (simp add: observed_by_variation_def split: if_splits)
  have pos: "0 < exposures evs x i" if "observed_by_variation x fi i \<noteq> 0" for i
    using obs [OF that] that by (simp add: exposures_def)
  have "vm_variation_index vm = xv_variation_index v" "vm_control_n vm = exposures evs x ?c"
    "vm_treatment_n vm = exposures evs x (xv_variation_index v)"
    "vm_control_conv vm = conversions evs x (met_event_name m) ?c"
    "vm_treatment_conv vm = conversions evs x (met_event_name m) (xv_variation_index v)"
    using obs [OF v(3)] obs [OF v(4)] by (simp_all add: v(5) variant_result_def Let_def conv)
  with m v(1,2) pos [OF v(3)] pos [OF v(4)]
  show "\<exists>m \<in> set (xp_metrics x). \<exists>v \<in> set (xp_variations x).
        let c = control_index (xp_variations x); i = vm_variation_index vm
        in mr_metric_key mr = met_key m \<and> i = xv_variation_index v \<and> \<not> xv_is_control v \<and>
           0 < exposures evs x c \<and> 0 < exposures evs x i \<and>
           vm_control_n vm = exposures evs x c \<and> vm_treatment_n vm = exposures evs x i \<and>
           vm_control_conv vm = conversions evs x (met_event_name m) c \<and>
           vm_treatment_conv vm = conversions evs x (met_event_name m) i"
    unfolding Let_def by (intro bexI [OF _ m(1)] bexI [OF _ v(1)]) simp
qed

text \<open>
  C32. The engine always returns. The samples it reports are the evaluations of the flag in the
  experiment's environment since its start; every comparison it makes is between the control and
  another variation that were both served, its sample sizes are the evaluations that served them, and
  its conversions the metric's events of the contexts whose last evaluation served them.
\<close>

theorem experiment_counts:
  "\<exists>r. compute_results M now evs x = Some r \<and> er_total_samples r = int (length (exp_evaluations evs x)) \<and>
    (\<forall>mr \<in> set (er_metric_results r). \<forall>vm \<in> set (mr_variants mr).
      \<exists>m \<in> set (xp_metrics x). \<exists>v \<in> set (xp_variations x).
        let c = control_index (xp_variations x); i = vm_variation_index vm
        in mr_metric_key mr = met_key m \<and> i = xv_variation_index v \<and> \<not> xv_is_control v \<and>
           0 < exposures evs x c \<and> 0 < exposures evs x i \<and>
           vm_control_n vm = exposures evs x c \<and> vm_treatment_n vm = exposures evs x i \<and>
           vm_control_conv vm = conversions evs x (met_event_name m) c \<and>
           vm_treatment_conv vm = conversions evs x (met_event_name m) i)"
  using experiment_counts_facts(1) [of M now evs x] experiment_counts_facts(2,3) [of M now evs x] by blast

definition sample_experiment :: "real ab_experiment" where
  "sample_experiment = \<lparr>xp_key = ''x'', xp_name = [], xp_description = [], xp_flag_key = ''f'',
     xp_environment_key = ''prod'', xp_project_key = ''p'',
     xp_variations = [\<lparr>xv_variation_index = 0, xv_name = ''a'', xv_is_control = True, xv_weight = 50000\<rparr>,
       \<lparr>xv_variation_index = 1, xv_name = ''b'', xv_is_control = False, xv_weight = 50000\<rparr>],
     xp_metrics = [\<lparr>met_key = ''m'', met_name = [], met_event_name = ''buy'', met_kind = ''conversion'',
       met_is_guardrail = False, met_mde = 0\<rparr>],
     xp_status = StatusRunning, xp_alpha = 0, xp_power = 0, xp_started_at = None, xp_stopped_at = None,
     xp_created_at = 0, xp_updated_at = 0\<rparr>"

definition sample_run :: "track_event list" where
  "sample_run = [sample_event EvalEvent ''u'' (Some 0) 5, sample_event EvalEvent ''v'' (Some 1) 6,
     sample_event CustomEvent ''v'' None 8, sample_event CustomEvent ''v'' None 9]"

lemma sample_counts:
  "exposures sample_run sample_experiment 0 = 1" "exposures sample_run sample_experiment 1 = 1"
  "conversions sample_run sample_experiment ''buy'' 0 = 0" "conversions sample_run sample_experiment ''buy'' 1 = 2"
  "length (exp_evaluations sample_run sample_experiment) = 2"
  by (simp_all add: exposures_def conversions_def exp_evaluations_def exp_metric_events_def sample_run_def
      sample_event_def sample_experiment_def since_of_def last_exposure_def Let_def)

lemma experiment_counts_witness:
  "\<exists>r. compute_results (exact 0 id id) 9 sample_run sample_experiment = Some r \<and> er_total_samples r = 2"
  using experiment_counts [of "exact 0 id id" 9 sample_run sample_experiment]
  by (auto simp: sample_counts)

text \<open>
  Conversions are counted per event and exposures per evaluation, so a rate can exceed one: the user \<open>v\<close>
  was served the treatment once and bought twice. The treatment's estimated variance is then negative,
  and its square root, and with it the confidence interval, are not numbers in \<open>float64\<close>.
\<close>

lemma insights_sample_run:
  "query_flag_insights sample_run ''p'' ''prod'' 0 =
     [\<lparr>fi_flag_key = ''f'', fi_environment_key = ''prod'', fi_variation_counts = [(''0'', 1), (''1'', 1)],
       fi_total_evals = 2, fi_unique_contexts = 2\<rparr>]"
  by (simp add: query_flag_insights_def sample_run_def sample_event_def eval_of_def insight_step_def
      Let_def count_event_def fresh_insight_def bump_def itoa_small)

lemma conversions_sample_run: "query_conversions sample_run ''p'' ''prod'' ''f'' ''buy'' 0 = [(1, 2)]"
  by (simp add: query_conversions_def sample_run_def sample_event_def exposure_of_def metric_of_def
      expose_def convert_def bump_def Let_def)

lemma treatment_rate:
  "cn \<noteq> 0 \<Longrightarrow> tn \<noteq> 0 \<Longrightarrow>
   vm_treatment_rate (variant_result M x m cn cc v tn tc) = m_int M tc / m_int M tn"
  by (simp add: variant_result_def two_proportion_z_test_def Let_def)

lemma rate_above_one:
  "map_option (\<lambda>r. map vm_treatment_rate (mr_variants (hd (er_metric_results r))))
     (compute_results (exact 0 id id) 9 sample_run sample_experiment) = Some [2]"
proof -
  note c = sample_experiment_def since_of_def
  have f: "List.find (\<lambda>i. fi_flag_key i = xp_flag_key sample_experiment)
      (query_flag_insights sample_run (xp_project_key sample_experiment) (xp_environment_key sample_experiment)
        (since_of sample_experiment)) =
      Some \<lparr>fi_flag_key = ''f'', fi_environment_key = ''prod'', fi_variation_counts = [(''0'', 1), (''1'', 1)],
       fi_total_evals = 2, fi_unique_contexts = 2\<rparr>" (is "_ = Some ?fi")
    using insights_sample_run by (simp add: c)
  obtain r where r: "compute_results (exact 0 id id) 9 sample_run sample_experiment = Some r"
    using engine_returns by blast
  have "er_metric_results r = map (\<lambda>m. \<lparr>mr_metric_key = met_key m, mr_metric_name = met_name m,
      mr_variants = metric_variants (exact 0 id id) sample_run (since_of sample_experiment) sample_experiment ?fi m\<rparr>)
      (xp_metrics sample_experiment)"
    using r f by (auto simp: compute_results_def Let_def)
  then have "map vm_treatment_rate (mr_variants (hd (er_metric_results r))) = map vm_treatment_rate
      (metric_variants (exact 0 id id) sample_run (since_of sample_experiment) sample_experiment ?fi
        (hd (xp_metrics sample_experiment)))"
    by (simp add: sample_experiment_def)
  also have "\<dots> = [2]"
    by (simp add: metric_variants_def c observed_by_variation_def control_index_def itoa_small
        map_filter_def Let_def lookup0_def conversions_sample_run treatment_rate)
  finally show ?thesis by (simp add: r)
qed

section \<open>What the interface reaches\<close>

text \<open>The requests on experiments.\<close>

datatype 'f exp_request = PostExperiment string "'f ab_experiment option" | GetExperiments string string
  | GetResults string string

fun exp_serve :: "int \<Rightarrow> 'f experiment_store option \<Rightarrow> 'f exp_request \<Rightarrow> 'f experiment_store option" where
  "exp_serve now st (PostExperiment pk body) = snd (create_experiment now pk body st)"
| "exp_serve now st _ = st"

lemma exp_serve_results:
  "map_option xs_results (foldl (exp_serve now) st reqs) = map_option xs_results st"
proof (induction reqs arbitrary: st)
  case (Cons r reqs)
  have "map_option xs_results (exp_serve now st r) = map_option xs_results st"
    by (cases r) (auto simp: create_experiment_def exp_create_def Let_def split: option.splits sum.splits if_splits)
  with Cons show ?case by simp
qed simp

text \<open>
  No request ever produces results: whatever experiments were created and whatever events were
  tracked, the results of an experiment answer 404 (503 without a store), because nothing calls the
  engine and nothing records what it computes.
\<close>

theorem results_never_available:
  "get_experiment_results k (foldl (exp_serve now) (Some new_experiment_store) reqs) = Problem 404"
  "get_experiment_results k (foldl (exp_serve now) None reqs) = Problem 503"
proof -
  have "map_option xs_results (foldl (exp_serve now) (Some new_experiment_store) reqs) = Some []"
    by (simp add: exp_serve_results new_experiment_store_def)
  then show "get_experiment_results k (foldl (exp_serve now) (Some new_experiment_store) reqs) = Problem 404"
    by (auto simp: get_experiment_results_def get_latest_results_def)
  have "map_option xs_results (foldl (exp_serve now) None reqs) = None"
    by (simp only: exp_serve_results) simp
  then show "get_experiment_results k (foldl (exp_serve now) None reqs) = Problem 503"
    by (simp add: get_experiment_results_def)
qed

text \<open>An experiment's key is unique over all projects; a listing shows those of one project and environment.\<close>

lemma experiment_keys_global:
  assumes "create_experiment now pk (Some x) (Some s) = (Reply c x', Some s')"
  shows "xp_key y = xp_key x \<Longrightarrow> create_experiment now' qk (Some y) (Some s') = (Problem 409, Some s')"
  using assms by (auto simp: create_experiment_def exp_create_def Let_def map_simps split: sum.splits if_splits)

end
