(* ===== verification/Decode.thy ===== *)
theory Decode
  imports Experiment "HOL-Library.Monad_Syntax"
begin

text \<open>
  What \<open>encoding/json\<close> reads back into the model's types from the documents the stores have written.

  The documents are those of \<open>Wire\<close> and \<open>Api\<close>, so no object has a name twice, every name is the exact one
  of the struct tag, and every number that is read into an integer was written from one. An absent member
  leaves the zero value, and so does a null one. \<open>parse\<close> reads a time.

  A database may store a document in another form than it was given: the interface of such a column is
  the locale \<open>json_column\<close>. The lemmas show that what is read back is what was written.
\<close>

section \<open>The decoder\<close>

fun members :: "json \<Rightarrow> (string \<times> json) list option" where
  "members (JObj ms) = Some ms"
| "members JNull = Some []"
| "members _ = None"

definition slot :: "(string \<times> json) list \<Rightarrow> string \<Rightarrow> json" where
  "slot ms k = (case map_of ms k of None \<Rightarrow> JNull | Some j \<Rightarrow> j)"

fun as_str :: "json \<Rightarrow> string option" where
  "as_str (JStr s) = Some s"
| "as_str JNull = Some []"
| "as_str _ = None"

fun as_bool :: "json \<Rightarrow> bool option" where
  "as_bool (JBool b) = Some b"
| "as_bool JNull = Some False"
| "as_bool _ = None"

fun as_int :: "json \<Rightarrow> int option" where
  "as_int (JNum q) = (if of_int \<lfloor>q\<rfloor> = q then Some \<lfloor>q\<rfloor> else None)"
| "as_int JNull = Some 0"
| "as_int _ = None"

fun as_list :: "(json \<Rightarrow> 'a option) \<Rightarrow> json \<Rightarrow> 'a list option" where
  "as_list d (JArr js) = those (map d js)"
| "as_list d JNull = Some []"
| "as_list d _ = None"

definition as_ptr :: "(json \<Rightarrow> 'a option) \<Rightarrow> json \<Rightarrow> 'a option option" where
  "as_ptr d j = (if j = JNull then Some None else map_option Some (d j))"

text \<open>A Go map has no order; the one that is read is listed by its keys.\<close>

definition as_map :: "(json \<Rightarrow> 'a option) \<Rightarrow> json \<Rightarrow> 'a gomap option" where
  "as_map d j = map_option (sort_key fst)
     (Option.bind (members j) (\<lambda>ms. those (map (\<lambda>(k, v). map_option (Pair k) (d v)) ms)))"

definition as_time :: "(string \<Rightarrow> int option) \<Rightarrow> json \<Rightarrow> int option" where
  "as_time parse j = (case j of JStr s \<Rightarrow> parse s | _ \<Rightarrow> None)"

text \<open>A \<open>RawMessage\<close> keeps the member, \<open>null\<close> included; an absent one leaves it nil.\<close>

definition raw_slot :: "(string \<times> json) list \<Rightarrow> string \<Rightarrow> raw" where
  "raw_slot ms k = map_of ms k"

definition read_op :: "string \<Rightarrow> operator" where
  "read_op s = (case map_of (map (\<lambda>p. (op_string p, p)) [OpIn, OpEndsWith, OpStartsWith, OpMatches, OpContains,
       OpLessThan, OpLessThanOrEq, OpGreaterThan, OpGreaterThanOrEq, OpBefore, OpAfter, OpSemVerEqual,
       OpSemVerLessThan, OpSemVerGreaterThan, OpSegmentMatch]) s of
     None \<Rightarrow> OpUnknown s | Some p \<Rightarrow> p)"

definition read_type :: "string \<Rightarrow> variation_type" where
  "read_type s = (case map_of (map (\<lambda>p. (type_string p, p)) [TypeBoolean, TypeString, TypeNumber, TypeJSON]) s of
     None \<Rightarrow> TypeOther s | Some p \<Rightarrow> p)"

section \<open>The structs\<close>

definition decode_clause :: "json \<Rightarrow> clause option" where
  "decode_clause j = do {
     ms \<leftarrow> members j;
     attr \<leftarrow> as_str (slot ms ''attribute'');
     op' \<leftarrow> as_str (slot ms ''op'');
     vs \<leftarrow> as_list (\<lambda>v. Some (Some v)) (slot ms ''values'');
     neg \<leftarrow> as_bool (slot ms ''negate'');
     Some \<lparr>cl_attribute = attr, cl_op = read_op op', cl_values = vs, cl_negate = neg\<rparr> }"

definition decode_variation :: "json \<Rightarrow> variation option" where
  "decode_variation j = do {
     ms \<leftarrow> members j;
     i \<leftarrow> as_str (slot ms ''id'');
     n \<leftarrow> as_str (slot ms ''name'');
     d \<leftarrow> as_str (slot ms ''description'');
     Some \<lparr>var_id = i, var_name = n, var_description = d, var_value = raw_slot ms ''value''\<rparr> }"

definition decode_weighted :: "json \<Rightarrow> weighted_variation option" where
  "decode_weighted j = do {
     ms \<leftarrow> members j;
     v \<leftarrow> as_int (slot ms ''variation'');
     w \<leftarrow> as_int (slot ms ''weight'');
     Some \<lparr>wv_variation = v, wv_weight = w\<rparr> }"

definition decode_rollout :: "json \<Rightarrow> rollout option" where
  "decode_rollout j = do {
     ms \<leftarrow> members j;
     vs \<leftarrow> as_list decode_weighted (slot ms ''variations'');
     b \<leftarrow> as_str (slot ms ''bucket_by'');
     s \<leftarrow> as_ptr as_int (slot ms ''seed'');
     e \<leftarrow> as_bool (slot ms ''is_experiment'');
     Some \<lparr>ro_variations = vs, ro_bucket_by = b, ro_seed = s, ro_is_experiment = e\<rparr> }"

definition decode_serve :: "(string \<times> json) list \<Rightarrow> variation_or_rollout option" where
  "decode_serve ms = do {
     v \<leftarrow> as_ptr as_int (slot ms ''variation'');
     r \<leftarrow> as_ptr decode_rollout (slot ms ''rollout'');
     Some \<lparr>vr_variation = v, vr_rollout = r\<rparr> }"

definition decode_rule :: "json \<Rightarrow> rule option" where
  "decode_rule j = do {
     ms \<leftarrow> members j;
     i \<leftarrow> as_str (slot ms ''id'');
     d \<leftarrow> as_str (slot ms ''description'');
     cs \<leftarrow> as_list decode_clause (slot ms ''clauses'');
     vr \<leftarrow> decode_serve ms;
     Some \<lparr>rule_id = i, rule_description = d, rule_clauses = cs, rule_serve = vr\<rparr> }"

definition decode_prerequisite :: "json \<Rightarrow> prerequisite option" where
  "decode_prerequisite j = do {
     ms \<leftarrow> members j;
     k \<leftarrow> as_str (slot ms ''flag_key'');
     v \<leftarrow> as_int (slot ms ''variation'');
     Some \<lparr>pq_flag_key = k, pq_variation = v\<rparr> }"

definition decode_target :: "json \<Rightarrow> target option" where
  "decode_target j = do {
     ms \<leftarrow> members j;
     v \<leftarrow> as_int (slot ms ''variation'');
     ks \<leftarrow> as_list as_str (slot ms ''context_keys'');
     Some \<lparr>tg_variation = v, tg_context_keys = ks\<rparr> }"

definition decode_config :: "json \<Rightarrow> flag_config option" where
  "decode_config j = do {
     ms \<leftarrow> members j;
     b \<leftarrow> as_bool (slot ms ''on'');
     ps \<leftarrow> as_list decode_prerequisite (slot ms ''prerequisites'');
     ts \<leftarrow> as_list decode_target (slot ms ''targets'');
     rs \<leftarrow> as_list decode_rule (slot ms ''rules'');
     fm \<leftarrow> members (slot ms ''fallthrough'');
     ft \<leftarrow> decode_serve fm;
     ov \<leftarrow> as_ptr as_int (slot ms ''off_variation'');
     sl \<leftarrow> as_str (slot ms ''salt'');
     te \<leftarrow> as_bool (slot ms ''track_events'');
     v \<leftarrow> as_int (slot ms ''version'');
     Some \<lparr>cfg_on = b, cfg_prerequisites = ps, cfg_targets = ts, cfg_rules = rs, cfg_fallthrough = ft,
       cfg_off_variation = ov, cfg_salt = sl, cfg_track_events = te, cfg_version = v\<rparr> }"

definition decode_segment_rule :: "json \<Rightarrow> segment_rule option" where
  "decode_segment_rule j = do {
     ms \<leftarrow> members j;
     i \<leftarrow> as_str (slot ms ''id'');
     cs \<leftarrow> as_list decode_clause (slot ms ''clauses'');
     w \<leftarrow> as_ptr as_int (slot ms ''weight'');
     b \<leftarrow> as_str (slot ms ''bucket_by'');
     Some \<lparr>sr_id = i, sr_clauses = cs, sr_weight = w, sr_bucket_by = b\<rparr> }"

definition decode_segment :: "json \<Rightarrow> segment option" where
  "decode_segment j = do {
     ms \<leftarrow> members j;
     k \<leftarrow> as_str (slot ms ''key'');
     n \<leftarrow> as_str (slot ms ''name'');
     d \<leftarrow> as_str (slot ms ''description'');
     inc \<leftarrow> as_list as_str (slot ms ''included'');
     exc \<leftarrow> as_list as_str (slot ms ''excluded'');
     rs \<leftarrow> as_list decode_segment_rule (slot ms ''rules'');
     sl \<leftarrow> as_str (slot ms ''salt'');
     v \<leftarrow> as_int (slot ms ''version'');
     Some \<lparr>seg_key = k, seg_name = n, seg_description = d, seg_included = inc, seg_excluded = exc,
       seg_rules = rs, seg_salt = sl, seg_version = v\<rparr> }"

definition decode_flag :: "(string \<Rightarrow> int option) \<Rightarrow> json \<Rightarrow> flag option" where
  "decode_flag parse j = do {
     ms \<leftarrow> members j;
     k \<leftarrow> as_str (slot ms ''key'');
     n \<leftarrow> as_str (slot ms ''name'');
     d \<leftarrow> as_str (slot ms ''description'');
     t \<leftarrow> as_str (slot ms ''type'');
     vs \<leftarrow> as_list decode_variation (slot ms ''variations'');
     tags \<leftarrow> as_list as_str (slot ms ''tags'');
     tmp \<leftarrow> as_bool (slot ms ''temporary'');
     arch \<leftarrow> as_bool (slot ms ''archived'');
     cr \<leftarrow> as_time parse (slot ms ''created_at'');
     up \<leftarrow> as_time parse (slot ms ''updated_at'');
     envs \<leftarrow> as_map (as_ptr decode_config) (slot ms ''environments'');
     Some \<lparr>flag_key = k, flag_name = n, flag_description = d, flag_type = read_type t, flag_variations = vs,
       flag_tags = tags, flag_temporary = tmp, flag_archived = arch, flag_created_at = cr,
       flag_updated_at = up, flag_environments = envs\<rparr> }"

definition decode_sdk_key :: "(string \<Rightarrow> int option) \<Rightarrow> json \<Rightarrow> sdk_key option" where
  "decode_sdk_key parse j = do {
     ms \<leftarrow> members j;
     v \<leftarrow> as_str (slot ms ''value'');
     t \<leftarrow> as_str (slot ms ''type'');
     c \<leftarrow> as_time parse (slot ms ''created_at'');
     Some \<lparr>sk_value = v, sk_type = key_type_of t, sk_created_at = c\<rparr> }"

definition decode_environment :: "(string \<Rightarrow> int option) \<Rightarrow> json \<Rightarrow> environment option" where
  "decode_environment parse j = do {
     ms \<leftarrow> members j;
     k \<leftarrow> as_str (slot ms ''key'');
     n \<leftarrow> as_str (slot ms ''name'');
     c \<leftarrow> as_str (slot ms ''color'');
     p \<leftarrow> as_str (slot ms ''project_key'');
     ks \<leftarrow> as_list (decode_sdk_key parse) (slot ms ''sdk_keys'');
     v \<leftarrow> as_int (slot ms ''version'');
     Some \<lparr>env_key = k, env_name = n, env_color = c, env_project_key = p, env_sdk_keys = ks, env_version = v\<rparr> }"

definition decode_project :: "(string \<Rightarrow> int option) \<Rightarrow> json \<Rightarrow> project option" where
  "decode_project parse j = do {
     ms \<leftarrow> members j;
     k \<leftarrow> as_str (slot ms ''key'');
     n \<leftarrow> as_str (slot ms ''name'');
     d \<leftarrow> as_str (slot ms ''description'');
     es \<leftarrow> as_list (decode_environment parse) (slot ms ''environments'');
     Some \<lparr>proj_key = k, proj_name = n, proj_description = d, proj_environments = es\<rparr> }"

section \<open>Columns\<close>

text \<open>
  What a column gives back for a document: arrays and scalars as they are, objects with the same members
  in any order.
\<close>

locale json_column =
  fixes w :: "json \<Rightarrow> json"
  assumes w_null: "w JNull = JNull"
    and w_bool: "w (JBool b) = JBool b"
    and w_num: "w (JNum q) = JNum q"
    and w_str: "w (JStr s) = JStr s"
    and w_arr: "w (JArr js) = JArr (map w js)"
    and w_obj: "distinct (map fst ms) \<Longrightarrow>
      \<exists>ms'. w (JObj ms) = JObj ms' \<and> mset ms' = mset (map (\<lambda>(k, j). (k, w j)) ms)"

text \<open>What is read of a raw value, and of the structs that hold some.\<close>

definition reread_raws :: "(json \<Rightarrow> json) \<Rightarrow> raw list \<Rightarrow> raw list" where
  "reread_raws w rs = map (\<lambda>r. Some (w (jraw r))) rs"

definition reread_clause :: "(json \<Rightarrow> json) \<Rightarrow> clause \<Rightarrow> clause" where
  "reread_clause w c = c\<lparr>cl_values := reread_raws w (cl_values c)\<rparr>"

definition reread_rule :: "(json \<Rightarrow> json) \<Rightarrow> rule \<Rightarrow> rule" where
  "reread_rule w r = r\<lparr>rule_clauses := map (reread_clause w) (rule_clauses r)\<rparr>"

definition reread_config :: "(json \<Rightarrow> json) \<Rightarrow> flag_config \<Rightarrow> flag_config" where
  "reread_config w c = c\<lparr>cfg_rules := map (reread_rule w) (cfg_rules c)\<rparr>"

definition reread_variation :: "(json \<Rightarrow> json) \<Rightarrow> variation \<Rightarrow> variation" where
  "reread_variation w v = v\<lparr>var_value := Some (w (jraw (var_value v)))\<rparr>"

definition reread_flag :: "(json \<Rightarrow> json) \<Rightarrow> flag \<Rightarrow> flag" where
  "reread_flag w f = f\<lparr>flag_variations := map (reread_variation w) (flag_variations f),
     flag_environments := sort_key fst (map (\<lambda>(k, c). (k, map_option (reread_config w) c)) (flag_environments f))\<rparr>"

definition reread_segment_rule :: "(json \<Rightarrow> json) \<Rightarrow> segment_rule \<Rightarrow> segment_rule" where
  "reread_segment_rule w r = r\<lparr>sr_clauses := map (reread_clause w) (sr_clauses r)\<rparr>"

definition reread_segment :: "(json \<Rightarrow> json) \<Rightarrow> segment \<Rightarrow> segment" where
  "reread_segment w g = g\<lparr>seg_rules := map (reread_segment_rule w) (seg_rules g)\<rparr>"

text \<open>Operators and types given by their constants, and times that are read back.\<close>

definition plain_ops :: "clause list \<Rightarrow> bool" where
  "plain_ops cs \<longleftrightarrow> (\<forall>c \<in> set cs. plain_op (cl_op c))"

definition storable_config :: "flag_config \<Rightarrow> bool" where
  "storable_config c \<longleftrightarrow> (\<forall>r \<in> set (cfg_rules c). plain_ops (rule_clauses r))"

definition storable_segment :: "segment \<Rightarrow> bool" where
  "storable_segment g \<longleftrightarrow> (\<forall>r \<in> set (seg_rules g). plain_ops (sr_clauses r))"

definition storable_flag :: "flag \<Rightarrow> bool" where
  "storable_flag f \<longleftrightarrow> plain_type (flag_type f) \<and> wf_map (flag_environments f) \<and>
     (\<forall>c. Some c \<in> snd ` set (flag_environments f) \<longrightarrow> storable_config c)"

definition plain_key_type :: "sdk_key_type \<Rightarrow> bool" where
  "plain_key_type t \<longleftrightarrow> (case t of SDKKeyOther s \<Rightarrow> s \<notin> {''server'', ''client'', ''mobile''} | _ \<Rightarrow> True)"

definition reads_time :: "(int \<Rightarrow> string) \<Rightarrow> (string \<Rightarrow> int option) \<Rightarrow> int \<Rightarrow> bool" where
  "reads_time time parse t \<longleftrightarrow> parse (time t) = Some t"

definition storable_env :: "(int \<Rightarrow> string) \<Rightarrow> (string \<Rightarrow> int option) \<Rightarrow> environment \<Rightarrow> bool" where
  "storable_env time parse e \<longleftrightarrow>
     (\<forall>k \<in> set (env_sdk_keys e). plain_key_type (sk_type k) \<and> reads_time time parse (sk_created_at k))"

definition wmembers :: "(json \<Rightarrow> json) \<Rightarrow> (string \<times> json) list \<Rightarrow> (string \<times> json) list" where
  "wmembers w ms = (case w (JObj ms) of JObj ms' \<Rightarrow> ms' | _ \<Rightarrow> [])"

subsection \<open>Reading what was written\<close>

lemma those_Some: "(\<And>x. x \<in> set xs \<Longrightarrow> f x = Some (g x)) \<Longrightarrow> those (map f xs) = Some (map g xs)"
  by (induction xs) auto

lemma as_list_Some:
  "(\<And>x. x \<in> set xs \<Longrightarrow> d (enc x) = Some (g x)) \<Longrightarrow> as_list d (JArr (map enc xs)) = Some (map g xs)"
  using those_Some [of xs "\<lambda>x. d (enc x)" g] by (simp add: comp_def)

lemma read_op_string: "plain_op p \<Longrightarrow> read_op (op_string p) = p"
  by (cases p) (auto simp: read_op_def plain_op_def)

lemma read_type_string: "plain_type t \<Longrightarrow> read_type (type_string t) = t"
  by (cases t) (auto simp: read_type_def plain_type_def)

lemma read_key_type: "plain_key_type t \<Longrightarrow> key_type_of (key_type_text t) = t"
  by (cases t) (auto simp: key_type_of_def plain_key_type_def)

lemma as_int_jint [simp]: "as_int (jint i) = Some i"
  by (simp add: jint_def)

lemma slot_simps [simp]: "slot [] k = JNull" "slot ((k', j) # ms) k = (if k' = k then j else slot ms k)"
  by (simp_all add: slot_def)

lemma as_ptr_jptr: "(\<And>x. y = Some x \<Longrightarrow> d (enc x) = Some (g x) \<and> enc x \<noteq> JNull) \<Longrightarrow>
    as_ptr d (jptr enc y) = Some (map_option g y)"
  by (cases y) (simp_all add: as_ptr_def jptr_def)

context json_column
begin

lemmas w_simps = w_null w_bool w_num w_str w_arr

lemma w_jint [simp]: "w (jint i) = jint i" by (simp add: jint_def w_num)
lemma w_jstrs [simp]: "w (jstrs ss) = jstrs ss" by (simp add: jstrs_def w_arr w_str)
lemma w_jptr: "w (jptr enc x) = jptr (\<lambda>v. w (enc v)) x" by (simp add: jptr_def w_null split: option.splits)

lemma obj:
  assumes "distinct (map fst ms)"
  shows "w (JObj ms) = JObj (wmembers w ms)" "members (w (JObj ms)) = Some (wmembers w ms)"
    and "map_of (wmembers w ms) k = map_option w (map_of ms k)"
    and "mset (wmembers w ms) = mset (map (\<lambda>(k, j). (k, w j)) ms)"
proof -
  obtain ms' where m: "w (JObj ms) = JObj ms'" "mset ms' = mset (map (\<lambda>(k, j). (k, w j)) ms)"
    using w_obj [OF assms] by blast
  have ws: "wmembers w ms = ms'" by (simp add: wmembers_def m(1))
  have "distinct (map fst ms')"
  proof -
    have "mset (map fst ms') = mset (map fst ms)"
      using arg_cong [OF m(2), of "image_mset fst"] by (simp add: comp_def case_prod_unfold flip: mset_map)
    then show ?thesis using assms by (metis mset_eq_imp_distinct_iff)
  qed
  moreover have "distinct (map fst (map (\<lambda>(k, j). (k, w j)) ms))" using assms by (simp add: comp_def case_prod_unfold)
  ultimately have "map_of ms' = map_of (map (\<lambda>(k, j). (k, w j)) ms)"
    using m(2) by (metis map_of_inject_set mset_eq_setD)
  moreover have "map_of (map (\<lambda>(k, j). (k, w j)) ms) k = map_option w (map_of ms k)"
    by (induction ms) auto
  ultimately show "map_of (wmembers w ms) k = map_option w (map_of ms k)" by (simp add: ws)
  show "w (JObj ms) = JObj (wmembers w ms)" "members (w (JObj ms)) = Some (wmembers w ms)"
    "mset (wmembers w ms) = mset (map (\<lambda>(k, j). (k, w j)) ms)"
    using m by (simp_all add: ws)
qed

lemma slot_obj: "distinct (map fst ms) \<Longrightarrow> slot (wmembers w ms) k = w (slot ms k)"
  by (simp add: slot_def obj w_null split: option.splits)

lemma raw_obj: "distinct (map fst ms) \<Longrightarrow> raw_slot (wmembers w ms) k = map_option w (map_of ms k)"
  by (simp add: raw_slot_def obj)

lemmas read = obj(2) slot_obj raw_obj w_simps

end

context json_column
begin

lemma decode_clause_w: "plain_op (cl_op c) \<Longrightarrow> decode_clause (w (clause_json c)) = Some (reread_clause w c)"
  using as_list_Some [of "cl_values c" "\<lambda>v. Some (Some v)" "\<lambda>r. w (jraw r)" "\<lambda>r. Some (w (jraw r))"]
  by (cases c) (simp add: decode_clause_def clause_json_def read reread_clause_def reread_raws_def
      read_op_string comp_def)

lemma decode_variation_w: "decode_variation (w (variation_json v)) = Some (reread_variation w v)"
  by (cases v) (simp add: decode_variation_def variation_json_def read reread_variation_def)

lemma decode_weighted_w: "decode_weighted (w (weighted_json x)) = Some x"
  by (cases x) (simp add: decode_weighted_def weighted_json_def read)

lemma decode_rollout_w: "decode_rollout (w (rollout_json r)) = Some r" "w (rollout_json r) \<noteq> JNull"
proof -
  have d: "distinct (map fst ([(''variations'', JArr (map weighted_json (ro_variations r))),
     (''bucket_by'', JStr (ro_bucket_by r)), (''seed'', jptr jint (ro_seed r))] @
     (if ro_is_experiment r then [(''is_experiment'', JBool True)] else [])))" by simp
  have vs: "as_list decode_weighted (JArr (map (\<lambda>x. w (weighted_json x)) (ro_variations r))) = Some (ro_variations r)"
    using as_list_Some [of "ro_variations r" decode_weighted "\<lambda>x. w (weighted_json x)" id] by (simp add: decode_weighted_w)
  have sd: "as_ptr as_int (jptr jint (ro_seed r)) = Some (ro_seed r)"
    using as_ptr_jptr [of "ro_seed r" as_int jint id] by (simp add: option.map_id)
  show "decode_rollout (w (rollout_json r)) = Some r"
    using vs sd by (cases r) (auto simp: decode_rollout_def rollout_json_def read w_jptr comp_def)
  show "w (rollout_json r) \<noteq> JNull" unfolding rollout_json_def obj(1) [OF d] by simp
qed

lemma decode_serve_w:
  assumes "distinct (map fst ms)" "slot ms ''variation'' = (case vr_variation vr of None \<Rightarrow> JNull | Some i \<Rightarrow> jint i)"
    "slot ms ''rollout'' = (case vr_rollout vr of None \<Rightarrow> JNull | Some r \<Rightarrow> rollout_json r)"
  shows "decode_serve (wmembers w ms) = Some vr"
  using assms by (cases vr)
    (auto simp: decode_serve_def slot_obj as_ptr_def w_simps decode_rollout_w split: option.splits)

lemma distinct_serve: "distinct (map fst (serve_members vr))"
  "set (map fst (serve_members vr)) \<subseteq> {''variation'', ''rollout''}"
  by (auto simp: serve_members_def omitempty_def split: option.splits)

lemma slot_serve: "slot (serve_members vr) ''variation'' = (case vr_variation vr of None \<Rightarrow> JNull | Some i \<Rightarrow> jint i)"
  "slot (serve_members vr) ''rollout'' = (case vr_rollout vr of None \<Rightarrow> JNull | Some r \<Rightarrow> rollout_json r)"
  by (simp_all add: serve_members_def omitempty_def split: option.splits)

lemma clauses_w: "plain_ops cs \<Longrightarrow>
    as_list decode_clause (JArr (map (\<lambda>c. w (clause_json c)) cs)) = Some (map (reread_clause w) cs)"
  by (rule as_list_Some) (simp add: plain_ops_def decode_clause_w)

lemma decode_rule_w:
  assumes "plain_ops (rule_clauses r)"
  shows "decode_rule (w (rule_json r)) = Some (reread_rule w r)"
proof -
  let ?ms = "[(''id'', JStr (rule_id r)), (''description'', JStr (rule_description r)),
     (''clauses'', JArr (map clause_json (rule_clauses r)))] @ serve_members (rule_serve r)"
  have d: "distinct (map fst ?ms)" using distinct_serve [of "rule_serve r"] by auto
  have "decode_serve (wmembers w ?ms) = Some (rule_serve r)"
    by (rule decode_serve_w [OF d]) (simp_all add: slot_serve)
  then show ?thesis
    using clauses_w [OF assms] d
    by (simp add: decode_rule_def rule_json_def read comp_def reread_rule_def)
qed

lemma decode_prerequisite_w: "decode_prerequisite (w (prerequisite_json p)) = Some p"
  by (cases p) (simp add: decode_prerequisite_def prerequisite_json_def read)

lemma strs_w: "as_list as_str (jstrs ss) = Some ss"
  using as_list_Some [of ss as_str JStr id] by (simp add: jstrs_def)

lemma decode_target_w: "decode_target (w (target_json t)) = Some t"
  by (cases t) (simp add: decode_target_def target_json_def read strs_w)

lemma ptr_int_w: "as_ptr as_int (jptr jint x) = Some x"
  using as_ptr_jptr [of x as_int jint id] by (simp add: option.map_id)

lemma decode_config_w:
  assumes "storable_config c"
  shows "decode_config (w (config_json c)) = Some (reread_config w c)" "w (config_json c) \<noteq> JNull"
proof -
  have l: "as_list decode_prerequisite (JArr (map (\<lambda>p. w (prerequisite_json p)) (cfg_prerequisites c))) = Some (cfg_prerequisites c)"
    "as_list decode_target (JArr (map (\<lambda>t. w (target_json t)) (cfg_targets c))) = Some (cfg_targets c)"
    "as_list decode_rule (JArr (map (\<lambda>r. w (rule_json r)) (cfg_rules c))) = Some (map (reread_rule w) (cfg_rules c))"
    using as_list_Some [of "cfg_prerequisites c" decode_prerequisite "\<lambda>p. w (prerequisite_json p)" id]
      as_list_Some [of "cfg_targets c" decode_target "\<lambda>t. w (target_json t)" id]
    apply (simp add: decode_prerequisite_w, simp add: decode_target_w)
    by (rule as_list_Some, rule decode_rule_w) (use assms in \<open>simp add: storable_config_def\<close>)
  have ft: "decode_serve (wmembers w (serve_members (cfg_fallthrough c))) = Some (cfg_fallthrough c)"
    by (rule decode_serve_w [OF distinct_serve(1)]) (simp_all add: slot_serve)
  show "decode_config (w (config_json c)) = Some (reread_config w c)"
    using l ft by (simp add: decode_config_def config_json_def read comp_def w_jptr ptr_int_w
        distinct_serve(1) reread_config_def)
  show "w (config_json c) \<noteq> JNull" unfolding config_json_def by (subst obj(1)) simp_all
qed

lemma decode_segment_rule_w:
  assumes "plain_ops (sr_clauses r)"
  shows "decode_segment_rule (w (segment_rule_json r)) = Some (reread_segment_rule w r)"
  using clauses_w [OF assms]
  by (cases "sr_weight r") (simp_all add: decode_segment_rule_def segment_rule_json_def read comp_def
      omitempty_def as_ptr_def reread_segment_rule_def)

lemma decode_segment_w:
  assumes "storable_segment g"
  shows "decode_segment (w (segment_json g)) = Some (reread_segment w g)"
proof -
  have "as_list decode_segment_rule (JArr (map (\<lambda>r. w (segment_rule_json r)) (seg_rules g))) =
      Some (map (reread_segment_rule w) (seg_rules g))"
    by (rule as_list_Some, rule decode_segment_rule_w) (use assms in \<open>simp add: storable_segment_def\<close>)
  then show ?thesis by (simp add: decode_segment_def segment_json_def read comp_def strs_w reread_segment_def)
qed

lemma envs_w:
  assumes "wf_map m" "\<And>c. Some c \<in> snd ` set m \<Longrightarrow> storable_config c"
  shows "as_map (as_ptr decode_config) (w (sorted_map (jptr config_json) m)) =
    Some (sort_key fst (map (\<lambda>(k, c). (k, map_option (reread_config w) c)) m))"
proof -
  let ?ms = "map (\<lambda>(k, c). (k, jptr config_json c)) (sort_key fst m)"
  have d: "distinct (map fst ?ms)"
    using assms(1) by (simp add: comp_def case_prod_unfold wf_map_def distinct_map)
  let ?d = "\<lambda>(k, v). map_option (Pair k) (as_ptr decode_config v)"
  let ?g = "\<lambda>(k, v). (k, the (as_ptr decode_config v))"
  have el: "as_ptr decode_config (w (jptr config_json c)) = Some (map_option (reread_config w) c)"
    if "c \<in> snd ` set m" for c
    unfolding w_jptr by (rule as_ptr_jptr) (use assms(2) that in \<open>auto simp: decode_config_w\<close>)
  have in_w: "\<exists>c. (k, c) \<in> set m \<and> v = w (jptr config_json c)" if "(k, v) \<in> set (wmembers w ?ms)" for k v
  proof -
    have "(k, v) \<in> set (map (\<lambda>(k, j). (k, w j)) ?ms)"
      using that mset_eq_setD [OF obj(4) [OF d]] by simp
    then show ?thesis by auto
  qed
  have th: "those (map ?d (wmembers w ?ms)) = Some (map ?g (wmembers w ?ms))"
  proof (rule those_Some)
    fix x assume x: "x \<in> set (wmembers w ?ms)"
    obtain k v where kv: "x = (k, v)" by fastforce
    with in_w [of k v] x obtain c where "x = (k, w (jptr config_json c))" "(k, c) \<in> set m" by blast
    then show "?d x = Some (?g x)" using el [of c] by (force simp: image_iff)
  qed
  have "mset (map ?g (wmembers w ?ms)) = mset (map ?g (map (\<lambda>(k, j). (k, w j)) ?ms))"
    using obj(4) [OF d] by (metis mset_map)
  also have "\<dots> = mset (map (\<lambda>(k, c). (k, map_option (reread_config w) c)) (sort_key fst m))"
  proof (rule arg_cong [where f = mset])
    show "map ?g (map (\<lambda>(k, j). (k, w j)) ?ms) = map (\<lambda>(k, c). (k, map_option (reread_config w) c)) (sort_key fst m)"
      using el by (force simp: image_iff)
  qed
  finally have ms: "mset (map ?g (wmembers w ?ms)) = mset (map (\<lambda>(k, c). (k, map_option (reread_config w) c)) m)"
    by simp
  have "sort_key fst (map ?g (wmembers w ?ms)) = sort_key fst (map (\<lambda>(k, c). (k, map_option (reread_config w) c)) m)"
  proof (rule sort_key_unique)
    show wf: "wf_map (map (\<lambda>(k, c). (k, map_option (reread_config w) c)) m)"
      using assms(1) by (simp add: wf_map_def comp_def case_prod_unfold)
    have "mset (map fst (map ?g (wmembers w ?ms))) = mset (map fst (map (\<lambda>(k, c). (k, map_option (reread_config w) c)) m))"
      using arg_cong [OF ms, of "image_mset fst"] by (simp only: mset_map)
    then show wf': "wf_map (map ?g (wmembers w ?ms))"
      using wf unfolding wf_map_def by (metis mset_eq_imp_distinct_iff)
    show "mget (map ?g (wmembers w ?ms)) = mget (map (\<lambda>(k, c). (k, map_option (reread_config w) c)) m)"
      using wf wf' mset_eq_setD [OF ms] unfolding wf_map_def by (metis map_of_inject_set)
  qed
  then show ?thesis
    using obj(2) [OF d] th by (simp add: as_map_def sorted_map_def)
qed

lemma decode_flag_w:
  assumes "storable_flag f" "reads_time time parse (flag_created_at f)" "reads_time time parse (flag_updated_at f)"
  shows "decode_flag parse (w (flag_json time f)) = Some (reread_flag w f)"
proof -
  have vs: "as_list decode_variation (JArr (map (\<lambda>v. w (variation_json v)) (flag_variations f))) =
      Some (map (reread_variation w) (flag_variations f))"
    by (rule as_list_Some) (rule decode_variation_w)
  show ?thesis
    using vs envs_w [of "flag_environments f"] assms
    by (simp add: decode_flag_def flag_json_def read comp_def strs_w as_time_def reads_time_def
        read_type_string reread_flag_def storable_flag_def)
qed

lemma decode_environment_w:
  assumes "storable_env time parse e"
  shows "decode_environment parse (w (environment_json time e)) = Some e"
proof -
  have k: "as_list (decode_sdk_key parse) (JArr (map (\<lambda>k. w (sdk_key_json time k)) (env_sdk_keys e))) = Some (map id (env_sdk_keys e))"
  proof (rule as_list_Some)
    fix k assume "k \<in> set (env_sdk_keys e)"
    then show "decode_sdk_key parse (w (sdk_key_json time k)) = Some (id k)"
      using assms by (cases k) (auto simp: decode_sdk_key_def sdk_key_json_def read as_time_def storable_env_def
          reads_time_def read_key_type)
  qed
  then show ?thesis by (simp add: decode_environment_def environment_json_def read comp_def)
qed

lemma decode_project_w:
  assumes "\<forall>e \<in> set (proj_environments p). storable_env time parse e"
  shows "decode_project parse (w (project_json time p)) = Some p"
proof -
  have "as_list (decode_environment parse) (JArr (map (\<lambda>e. w (environment_json time e)) (proj_environments p))) =
      Some (map id (proj_environments p))"
    by (rule as_list_Some) (use assms in \<open>simp add: decode_environment_w\<close>)
  then show ?thesis by (simp add: decode_project_def project_json_def read comp_def)
qed

end

section \<open>Two columns\<close>

text \<open>SQLite keeps a document as the text it was given.\<close>

interpretation text_column: json_column "\<lambda>j. j"
  by unfold_locales simp_all

text \<open>PostgreSQL's \<open>JSONB\<close> keeps neither the order of members nor duplicates; this is such a column.\<close>

fun ordered_json :: "json \<Rightarrow> json" where
  "ordered_json (JArr js) = JArr (map ordered_json js)"
| "ordered_json (JObj ms) = JObj (sort_key fst (last_wins (map (\<lambda>(k, j). (k, ordered_json j)) ms)))"
| "ordered_json j = j"

lemma last_wins_distinct: "distinct (map fst ms) \<Longrightarrow> mset (last_wins ms) = mset ms"
proof -
  assume d: "distinct (map fst ms)"
  then have "mget (last_wins ms) = mget ms" using mget_last_wins_wf [of ms] by (simp add: wf_map_def)
  moreover have "distinct (map fst (last_wins ms))" using wf_last_wins [of ms] by (simp add: wf_map_def)
  ultimately have "set (last_wins ms) = set ms" using d by (metis map_of_inject_set)
  then show ?thesis
    using d \<open>distinct (map fst (last_wins ms))\<close> by (simp add: distinct_map set_eq_iff_mset_eq_distinct [symmetric])
qed

interpretation ordered_column: json_column ordered_json
proof (unfold_locales, goal_cases)
  case (6 ms)
  then have "distinct (map fst (map (\<lambda>(k, j). (k, ordered_json j)) ms))" by (simp add: comp_def case_prod_unfold)
  from last_wins_distinct [OF this] show ?case by simp
qed simp_all

lemma stored_round_trip_facts:
  assumes "json_column w"
  shows "storable_flag f \<Longrightarrow> parse (time (flag_created_at f)) = Some (flag_created_at f) \<Longrightarrow>
      parse (time (flag_updated_at f)) = Some (flag_updated_at f) \<Longrightarrow>
      decode_flag parse (w (flag_json time f)) = Some (reread_flag w f)"
    and "storable_segment g \<Longrightarrow> decode_segment (w (segment_json g)) = Some (reread_segment w g)"
    and "storable_config c \<Longrightarrow> decode_config (w (config_json c)) = Some (reread_config w c)"
  using json_column.decode_flag_w [OF assms, of f time parse] json_column.decode_segment_w [OF assms]
    json_column.decode_config_w(1) [OF assms] by (simp_all add: reads_time_def)

text \<open>
  C6. Writing a flag, a segment or a configuration as JSON into a column and reading it back gives the
  same value, whatever order the column gives the members: only the raw documents inside, variation
  values and clause values, are those the column gives back, a nil one becoming \<open>null\<close>.
\<close>

theorem stored_round_trip:
  assumes "json_column w"
  shows "(storable_flag f \<and> parse (time (flag_created_at f)) = Some (flag_created_at f) \<and>
        parse (time (flag_updated_at f)) = Some (flag_updated_at f) \<longrightarrow>
      decode_flag parse (w (flag_json time f)) = Some (reread_flag w f)) \<and>
    (storable_segment g \<longrightarrow> decode_segment (w (segment_json g)) = Some (reread_segment w g)) \<and>
    (storable_config c \<longrightarrow> decode_config (w (config_json c)) = Some (reread_config w c))"
  by (simp add: stored_round_trip_facts [OF assms])

definition two_env_flag :: flag where
  "two_env_flag = (bool_flag ''f'' [(''prod'', Some sample_config), (''dev'', None)])"

lemma stored_round_trip_witness:
  "decode_flag (\<lambda>s. Some 0) (ordered_json (flag_json (\<lambda>t. ''T'') two_env_flag)) =
     Some (reread_flag ordered_json two_env_flag)"
proof (rule mp [OF conjunct1 [OF stored_round_trip [OF ordered_column.json_column_axioms]]], intro conjI)
  show "storable_flag two_env_flag"
    by (simp add: storable_flag_def two_env_flag_def bool_flag_def plain_type_def wf_map_def storable_config_def
        sample_config_def)
qed (simp_all add: two_env_flag_def bool_flag_def)

end
