(* ===== verification/SqlStore.thy ===== *)
theory SqlStore
  imports Decode
begin

text \<open>
  The SQL configuration stores, \<open>internal/store/sqlite.go\<close> and \<open>internal/store/postgres.go\<close>, and the choice
  between the three stores, \<open>internal/store/factory.go\<close>.

  The two files execute the same statements on the same tables, so every method is one definition over
  what differs between the engines (record \<open>sql\<close>), named \<open>sql_\<close> for SQLite and \<open>pg_\<close> for PostgreSQL. A table
  is the list of its rows under their primary key. The columns \<open>created_at\<close> and \<open>updated_at\<close> of \<open>flags\<close>, which
  no statement reads, are left out.

  A call into the engine can fail for reasons of its own (the disk, the connection, a text it does not
  accept): \<open>io k\<close> says whether the \<open>k\<close>-th call of a method succeeds. A failed statement changes nothing,
  and the statements of a transaction take effect together, when it commits.
\<close>

section \<open>Tables and engines\<close>

text \<open>
  \<open>q_col\<close> is what the column \<open>data\<close> gives back for a document, \<open>q_rank\<close> the collation's rank of a key,
  \<open>q_time\<close> and \<open>q_parse\<close> write and read a time in JSON.
\<close>

record sql =
  q_col :: "json \<Rightarrow> json"
  q_rank :: "string \<Rightarrow> string"
  q_time :: "int \<Rightarrow> string"
  q_parse :: "string \<Rightarrow> int option"

record sql_db =
  t_projects :: "(string \<times> json) list"
  t_environments :: "((string \<times> string) \<times> json) list"
  t_flags :: "((string \<times> string) \<times> json) list"
  t_flag_configs :: "((string \<times> string \<times> string) \<times> json) list"
  t_segments :: "((string \<times> string) \<times> json) list"
  t_env_versions :: "((string \<times> string) \<times> int) list"
  t_audit_log :: "(int \<times> audit_entry) list"
  t_audit_seq :: int

definition empty_db :: sql_db where
  "empty_db = \<lparr>t_projects = [], t_environments = [], t_flags = [], t_flag_configs = [], t_segments = [],
     t_env_versions = [], t_audit_log = [], t_audit_seq = 0\<rparr>"

type_synonym engine = "nat \<Rightarrow> bool"

text \<open>\<open>QueryRow\<close> and \<open>Scan\<close> of one document; a document that does not decode is an error.\<close>

definition fetch :: "engine \<Rightarrow> (json \<Rightarrow> 'a option) \<Rightarrow> ('k \<times> json) list \<Rightarrow> 'k \<Rightarrow> store_error \<Rightarrow> store_error + 'a" where
  "fetch io dec t k missing =
     (if \<not> io 0 then Inl StorageError
      else case map_of t k of None \<Rightarrow> Inl missing
           | Some j \<Rightarrow> (case dec j of None \<Rightarrow> Inl StorageError | Some v \<Rightarrow> Inr v))"

text \<open>\<open>Query\<close>, the loop over the rows, and \<open>rows.Err\<close>.\<close>

definition fetch_all :: "engine \<Rightarrow> (json \<Rightarrow> 'a option) \<Rightarrow> json list \<Rightarrow> store_error + 'a list" where
  "fetch_all io dec rows =
     (if \<not> io 0 then Inl StorageError
      else case those (map dec rows) of None \<Rightarrow> Inl StorageError
           | Some vs \<Rightarrow> if io 1 then Inr vs else Inl StorageError)"

definition of_project :: "sql \<Rightarrow> string \<Rightarrow> ((string \<times> string) \<times> 'v) list \<Rightarrow> 'v list" where
  "of_project Q pk t = map snd (sort_key (\<lambda>r. q_rank Q (snd (fst r))) (filter (\<lambda>r. fst (fst r) = pk) t))"

text \<open>\<open>INSERT\<close>: the code reports any error of the statement as the row being there already.\<close>

definition insert_row :: "engine \<Rightarrow> 'k \<Rightarrow> 'v \<Rightarrow> ('k \<times> 'v) list \<Rightarrow> store_error \<Rightarrow> store_error + ('k \<times> 'v) list" where
  "insert_row io k v t exists =
     (if \<not> io 0 \<or> map_of t k \<noteq> None then Inl exists else Inr (t @ [(k, v)]))"

definition update_row :: "engine \<Rightarrow> 'k \<Rightarrow> 'v \<Rightarrow> ('k \<times> 'v) list \<Rightarrow> store_error \<Rightarrow> store_error + ('k \<times> 'v) list" where
  "update_row io k v t missing =
     (if \<not> io 0 then Inl StorageError
      else if map_of t k = None then Inl missing else Inr (AList.update k v t))"

definition upsert_row :: "engine \<Rightarrow> 'k \<Rightarrow> 'v \<Rightarrow> ('k \<times> 'v) list \<Rightarrow> store_error + ('k \<times> 'v) list" where
  "upsert_row io k v t = (if \<not> io 0 then Inl StorageError else Inr (AList.update k v t))"

definition delete_where :: "('k \<Rightarrow> bool) \<Rightarrow> ('k \<times> 'v) list \<Rightarrow> ('k \<times> 'v) list" where
  "delete_where P t = filter (\<lambda>r. \<not> P (fst r)) t"

definition delete_rows :: "engine \<Rightarrow> ('k \<Rightarrow> bool) \<Rightarrow> ('k \<times> 'v) list \<Rightarrow> store_error + ('k \<times> 'v) list" where
  "delete_rows io P t = (if \<not> io 0 then Inl StorageError else Inr (delete_where P t))"

text \<open>
  A transaction: \<open>Begin\<close>, the statements with the error each is reported as, \<open>Commit\<close>. Whatever fails, the
  deferred rollback leaves the tables as they were.
\<close>

fun run_tx :: "engine \<Rightarrow> nat \<Rightarrow> (store_error \<times> (sql_db \<Rightarrow> sql_db option)) list \<Rightarrow> sql_db \<Rightarrow> store_error + sql_db" where
  "run_tx io k [] db = (if io k then Inr db else Inl StorageError)"
| "run_tx io k ((err, f) # fs) db =
     (if \<not> io k then Inl err
      else case f db of None \<Rightarrow> Inl err | Some db' \<Rightarrow> run_tx io (Suc k) fs db')"

definition transaction :: "engine \<Rightarrow> (store_error \<times> (sql_db \<Rightarrow> sql_db option)) list \<Rightarrow> sql_db \<Rightarrow> store_error + sql_db" where
  "transaction io fs db = (if \<not> io 0 then Inl StorageError else run_tx io 1 fs db)"

section \<open>Projects and environments\<close>

definition sql_get_project :: "sql \<Rightarrow> engine \<Rightarrow> sql_db \<Rightarrow> string \<Rightarrow> store_error + project" where
  "sql_get_project Q io db k = fetch io (decode_project (q_parse Q)) (t_projects db) k (ProjectNotFound k)"

definition sql_list_projects :: "sql \<Rightarrow> engine \<Rightarrow> sql_db \<Rightarrow> store_error + project list" where
  "sql_list_projects Q io db =
     fetch_all io (decode_project (q_parse Q)) (map snd (sort_key (\<lambda>r. q_rank Q (fst r)) (t_projects db)))"

definition sql_create_project :: "sql \<Rightarrow> engine \<Rightarrow> sql_db \<Rightarrow> project \<Rightarrow> store_error + sql_db" where
  "sql_create_project Q io db p =
     map_sum id (\<lambda>t. db\<lparr>t_projects := t\<rparr>)
       (insert_row io (proj_key p) (q_col Q (project_json (q_time Q) p)) (t_projects db) (ProjectExists (proj_key p)))"

definition sql_update_project :: "sql \<Rightarrow> engine \<Rightarrow> sql_db \<Rightarrow> project \<Rightarrow> store_error + sql_db" where
  "sql_update_project Q io db p =
     map_sum id (\<lambda>t. db\<lparr>t_projects := t\<rparr>)
       (update_row io (proj_key p) (q_col Q (project_json (q_time Q) p)) (t_projects db) (ProjectNotFound (proj_key p)))"

definition sql_delete_project :: "engine \<Rightarrow> sql_db \<Rightarrow> string \<Rightarrow> store_error + sql_db" where
  "sql_delete_project io db k =
     transaction io (map (Pair StorageError)
       [\<lambda>d. Some (d\<lparr>t_flag_configs := delete_where (\<lambda>(p, _). p = k) (t_flag_configs d)\<rparr>),
        \<lambda>d. Some (d\<lparr>t_env_versions := delete_where (\<lambda>(p, _). p = k) (t_env_versions d)\<rparr>),
        \<lambda>d. Some (d\<lparr>t_segments := delete_where (\<lambda>(p, _). p = k) (t_segments d)\<rparr>),
        \<lambda>d. Some (d\<lparr>t_flags := delete_where (\<lambda>(p, _). p = k) (t_flags d)\<rparr>),
        \<lambda>d. Some (d\<lparr>t_environments := delete_where (\<lambda>(p, _). p = k) (t_environments d)\<rparr>),
        \<lambda>d. Some (d\<lparr>t_audit_log := filter (\<lambda>r. au_project_key (snd r) \<noteq> k) (t_audit_log d)\<rparr>),
        \<lambda>d. Some (d\<lparr>t_projects := delete_where (\<lambda>p. p = k) (t_projects d)\<rparr>)]) db"

definition sql_get_environment :: "sql \<Rightarrow> engine \<Rightarrow> sql_db \<Rightarrow> string \<Rightarrow> string \<Rightarrow> store_error + environment" where
  "sql_get_environment Q io db pk ek =
     fetch io (decode_environment (q_parse Q)) (t_environments db) (pk, ek) (EnvNotFound pk ek)"

definition sql_list_environments :: "sql \<Rightarrow> engine \<Rightarrow> sql_db \<Rightarrow> string \<Rightarrow> store_error + environment list" where
  "sql_list_environments Q io db pk =
     fetch_all io (decode_environment (q_parse Q)) (of_project Q pk (t_environments db))"

definition sql_create_environment :: "sql \<Rightarrow> engine \<Rightarrow> sql_db \<Rightarrow> string \<Rightarrow> environment \<Rightarrow> store_error + sql_db" where
  "sql_create_environment Q io db pk e =
     (let k = (pk, env_key e); j = q_col Q (environment_json (q_time Q) e)
      in transaction io
           [(EnvExists pk (env_key e), \<lambda>d. if map_of (t_environments d) k \<noteq> None then None
               else Some (d\<lparr>t_environments := t_environments d @ [(k, j)]\<rparr>)),
            (StorageError, \<lambda>d. Some (if map_of (t_env_versions d) k \<noteq> None then d
               else d\<lparr>t_env_versions := t_env_versions d @ [(k, 0)]\<rparr>))] db)"

definition sql_update_environment :: "sql \<Rightarrow> engine \<Rightarrow> sql_db \<Rightarrow> string \<Rightarrow> environment \<Rightarrow> store_error + sql_db" where
  "sql_update_environment Q io db pk e =
     map_sum id (\<lambda>t. db\<lparr>t_environments := t\<rparr>)
       (update_row io (pk, env_key e) (q_col Q (environment_json (q_time Q) e)) (t_environments db)
         (EnvNotFound pk (env_key e)))"

definition sql_delete_environment :: "engine \<Rightarrow> sql_db \<Rightarrow> string \<Rightarrow> string \<Rightarrow> store_error + sql_db" where
  "sql_delete_environment io db pk ek =
     transaction io (map (Pair StorageError)
       [\<lambda>d. Some (d\<lparr>t_flag_configs := delete_where (\<lambda>(p, e, _). p = pk \<and> e = ek) (t_flag_configs d)\<rparr>),
        \<lambda>d. Some (d\<lparr>t_env_versions := delete_where (\<lambda>k. k = (pk, ek)) (t_env_versions d)\<rparr>),
        \<lambda>d. Some (d\<lparr>t_environments := delete_where (\<lambda>k. k = (pk, ek)) (t_environments d)\<rparr>)]) db"

section \<open>Flags, configurations, segments\<close>

definition sql_get_flag :: "sql \<Rightarrow> engine \<Rightarrow> sql_db \<Rightarrow> string \<Rightarrow> string \<Rightarrow> store_error + flag" where
  "sql_get_flag Q io db pk fk = fetch io (decode_flag (q_parse Q)) (t_flags db) (pk, fk) (FlagNotFound pk fk)"

definition sql_list_flags :: "sql \<Rightarrow> engine \<Rightarrow> sql_db \<Rightarrow> string \<Rightarrow> store_error + flag list" where
  "sql_list_flags Q io db pk = fetch_all io (decode_flag (q_parse Q)) (of_project Q pk (t_flags db))"

definition sql_create_flag :: "sql \<Rightarrow> engine \<Rightarrow> int \<Rightarrow> sql_db \<Rightarrow> string \<Rightarrow> flag \<Rightarrow> store_error + sql_db" where
  "sql_create_flag Q io now db pk f =
     (let f' = f\<lparr>flag_created_at := now, flag_updated_at := now\<rparr>
      in map_sum id (\<lambda>t. db\<lparr>t_flags := t\<rparr>)
           (insert_row io (pk, flag_key f) (q_col Q (flag_json (q_time Q) f')) (t_flags db) (FlagExists pk (flag_key f))))"

definition sql_update_flag :: "sql \<Rightarrow> engine \<Rightarrow> int \<Rightarrow> sql_db \<Rightarrow> string \<Rightarrow> flag \<Rightarrow> store_error + sql_db" where
  "sql_update_flag Q io now db pk f =
     (let f' = f\<lparr>flag_updated_at := now\<rparr>
      in map_sum id (\<lambda>t. db\<lparr>t_flags := t\<rparr>)
           (update_row io (pk, flag_key f) (q_col Q (flag_json (q_time Q) f')) (t_flags db) (FlagNotFound pk (flag_key f))))"

definition sql_delete_flag :: "engine \<Rightarrow> sql_db \<Rightarrow> string \<Rightarrow> string \<Rightarrow> store_error + sql_db" where
  "sql_delete_flag io db pk fk =
     map_sum id (\<lambda>t. db\<lparr>t_flags := t\<rparr>) (delete_rows io (\<lambda>k. k = (pk, fk)) (t_flags db))"

definition sql_get_flag_config ::
    "engine \<Rightarrow> sql_db \<Rightarrow> string \<Rightarrow> string \<Rightarrow> string \<Rightarrow> store_error + flag_config" where
  "sql_get_flag_config io db pk ek fk = fetch io decode_config (t_flag_configs db) (pk, ek, fk) (ConfigNotFound ek fk)"

definition sql_upsert_flag_config ::
    "sql \<Rightarrow> engine \<Rightarrow> sql_db \<Rightarrow> string \<Rightarrow> string \<Rightarrow> string \<Rightarrow> flag_config \<Rightarrow> store_error + sql_db" where
  "sql_upsert_flag_config Q io db pk ek fk c =
     map_sum id (\<lambda>t. db\<lparr>t_flag_configs := t\<rparr>)
       (upsert_row io (pk, ek, fk) (q_col Q (config_json c)) (t_flag_configs db))"

definition sql_get_segment :: "engine \<Rightarrow> sql_db \<Rightarrow> string \<Rightarrow> string \<Rightarrow> store_error + segment" where
  "sql_get_segment io db pk sk = fetch io decode_segment (t_segments db) (pk, sk) (SegmentNotFound pk sk)"

definition sql_list_segments :: "sql \<Rightarrow> engine \<Rightarrow> sql_db \<Rightarrow> string \<Rightarrow> store_error + segment list" where
  "sql_list_segments Q io db pk = fetch_all io decode_segment (of_project Q pk (t_segments db))"

definition sql_create_segment :: "sql \<Rightarrow> engine \<Rightarrow> sql_db \<Rightarrow> string \<Rightarrow> segment \<Rightarrow> store_error + sql_db" where
  "sql_create_segment Q io db pk g =
     map_sum id (\<lambda>t. db\<lparr>t_segments := t\<rparr>)
       (insert_row io (pk, seg_key g) (q_col Q (segment_json g)) (t_segments db) (SegmentExists pk (seg_key g)))"

definition sql_update_segment :: "sql \<Rightarrow> engine \<Rightarrow> sql_db \<Rightarrow> string \<Rightarrow> segment \<Rightarrow> store_error + sql_db" where
  "sql_update_segment Q io db pk g =
     map_sum id (\<lambda>t. db\<lparr>t_segments := t\<rparr>)
       (update_row io (pk, seg_key g) (q_col Q (segment_json g)) (t_segments db) (SegmentNotFound pk (seg_key g)))"

definition sql_delete_segment :: "engine \<Rightarrow> sql_db \<Rightarrow> string \<Rightarrow> string \<Rightarrow> store_error + sql_db" where
  "sql_delete_segment io db pk sk =
     map_sum id (\<lambda>t. db\<lparr>t_segments := t\<rparr>) (delete_rows io (\<lambda>k. k = (pk, sk)) (t_segments db))"

section \<open>Versions and the audit log\<close>

definition sql_get_env_version :: "engine \<Rightarrow> sql_db \<Rightarrow> string \<Rightarrow> string \<Rightarrow> store_error + int" where
  "sql_get_env_version io db pk ek =
     (if \<not> io 0 then Inl StorageError
      else Inr (case map_of (t_env_versions db) (pk, ek) of None \<Rightarrow> 0 | Some v \<Rightarrow> v))"

text \<open>A counter that has reached the largest 64-bit integer cannot be read any more: an error.\<close>

definition sql_increment_env_version ::
    "engine \<Rightarrow> sql_db \<Rightarrow> string \<Rightarrow> string \<Rightarrow> store_error + (int \<times> sql_db)" where
  "sql_increment_env_version io db pk ek =
     (let v = (case map_of (t_env_versions db) (pk, ek) of None \<Rightarrow> 1 | Some n \<Rightarrow> n + 1)
      in if \<not> io 0 \<or> \<not> int64_range v then Inl StorageError
         else Inr (v, db\<lparr>t_env_versions := AList.update (pk, ek) v (t_env_versions db)\<rparr>))"

definition sql_append_audit :: "engine \<Rightarrow> sql_db \<Rightarrow> audit_entry \<Rightarrow> store_error + sql_db" where
  "sql_append_audit io db e =
     (if \<not> io 0 then Inl StorageError
      else Inr (db\<lparr>t_audit_log := t_audit_log db @ [(t_audit_seq db + 1, e)], t_audit_seq := t_audit_seq db + 1\<rparr>))"

text \<open>The query selects neither the row's id nor the project, so these fields stay empty.\<close>

definition sql_list_audit :: "engine \<Rightarrow> sql_db \<Rightarrow> string \<Rightarrow> int \<Rightarrow> store_error + audit_entry list" where
  "sql_list_audit io db pk n =
     (let m = (if n \<le> 0 then 100 else n);
          rows = take (nat m) (rev (sort_key fst (filter (\<lambda>r. au_project_key (snd r) = pk) (t_audit_log db))))
      in if \<not> io 0 \<or> \<not> io 1 then Inl StorageError
         else Inr (map (\<lambda>r. (snd r)\<lparr>au_id := [], au_project_key := []\<rparr>) rows))"

section \<open>postgres.go\<close>

text \<open>
  The methods of \<open>PostgresStore\<close>: statement for statement those above, with the placeholders and the
  conflict clauses of PostgreSQL. What the engines do differently is in the record \<open>sql\<close>.
\<close>

definition pg_get_project where
  "pg_get_project = sql_get_project"
definition pg_list_projects where
  "pg_list_projects = sql_list_projects"
definition pg_create_project where
  "pg_create_project = sql_create_project"
definition pg_update_project where
  "pg_update_project = sql_update_project"
definition pg_delete_project where
  "pg_delete_project = sql_delete_project"
definition pg_get_environment where
  "pg_get_environment = sql_get_environment"
definition pg_list_environments where
  "pg_list_environments = sql_list_environments"
definition pg_create_environment where
  "pg_create_environment = sql_create_environment"
definition pg_update_environment where
  "pg_update_environment = sql_update_environment"
definition pg_delete_environment where
  "pg_delete_environment = sql_delete_environment"
definition pg_get_flag where
  "pg_get_flag = sql_get_flag"
definition pg_list_flags where
  "pg_list_flags = sql_list_flags"
definition pg_create_flag where
  "pg_create_flag = sql_create_flag"
definition pg_update_flag where
  "pg_update_flag = sql_update_flag"
definition pg_delete_flag where
  "pg_delete_flag = sql_delete_flag"
definition pg_get_flag_config where
  "pg_get_flag_config = sql_get_flag_config"
definition pg_upsert_flag_config where
  "pg_upsert_flag_config = sql_upsert_flag_config"
definition pg_get_segment where
  "pg_get_segment = sql_get_segment"
definition pg_list_segments where
  "pg_list_segments = sql_list_segments"
definition pg_create_segment where
  "pg_create_segment = sql_create_segment"
definition pg_update_segment where
  "pg_update_segment = sql_update_segment"
definition pg_delete_segment where
  "pg_delete_segment = sql_delete_segment"
definition pg_get_env_version where
  "pg_get_env_version = sql_get_env_version"
definition pg_increment_env_version where
  "pg_increment_env_version = sql_increment_env_version"
definition pg_append_audit where
  "pg_append_audit = sql_append_audit"
definition pg_list_audit where
  "pg_list_audit = sql_list_audit"

lemmas pg_defs = pg_get_project_def pg_list_projects_def pg_create_project_def pg_update_project_def pg_delete_project_def pg_get_environment_def pg_list_environments_def pg_create_environment_def pg_update_environment_def pg_delete_environment_def pg_get_flag_def pg_list_flags_def pg_create_flag_def pg_update_flag_def pg_delete_flag_def pg_get_flag_config_def pg_upsert_flag_config_def pg_get_segment_def pg_list_segments_def pg_create_segment_def pg_update_segment_def pg_delete_segment_def pg_get_env_version_def pg_increment_env_version_def pg_append_audit_def pg_list_audit_def

section \<open>factory.go\<close>

text \<open>The environment variables that are not set are empty; \<open>open_pg\<close> and \<open>open_lite\<close> connect and migrate.\<close>

datatype any_store = PostgresStore sql_db | SqliteStore sql_db | MemoryStore mem_store

definition new_store ::
    "(string \<Rightarrow> 'e + sql_db) \<Rightarrow> (string \<Rightarrow> 'e + sql_db) \<Rightarrow> string \<Rightarrow> string \<Rightarrow> 'e + any_store" where
  "new_store open_pg open_lite database_url sqlite_path =
     (if database_url \<noteq> [] then map_sum id PostgresStore (open_pg database_url)
      else if sqlite_path \<noteq> [] then map_sum id SqliteStore (open_lite sqlite_path)
      else Inr (MemoryStore new_memory_store))"

section \<open>The methods as steps\<close>

fun sql_apply :: "sql \<Rightarrow> engine \<Rightarrow> sql_db \<Rightarrow> store_op \<Rightarrow> store_error + sql_db" where
  "sql_apply Q io db (CreateProject p) = sql_create_project Q io db p"
| "sql_apply Q io db (UpdateProject p) = sql_update_project Q io db p"
| "sql_apply Q io db (DeleteProject k) = sql_delete_project io db k"
| "sql_apply Q io db (CreateEnvironment k e) = sql_create_environment Q io db k e"
| "sql_apply Q io db (UpdateEnvironment k e) = sql_update_environment Q io db k e"
| "sql_apply Q io db (DeleteEnvironment k e) = sql_delete_environment io db k e"
| "sql_apply Q io db (CreateFlag now k f) = sql_create_flag Q io now db k f"
| "sql_apply Q io db (UpdateFlag now k f) = sql_update_flag Q io now db k f"
| "sql_apply Q io db (DeleteFlag k f) = sql_delete_flag io db k f"
| "sql_apply Q io db (UpsertFlagConfig k e f c) = sql_upsert_flag_config Q io db k e f c"
| "sql_apply Q io db (CreateSegment k g) = sql_create_segment Q io db k g"
| "sql_apply Q io db (UpdateSegment k g) = sql_update_segment Q io db k g"
| "sql_apply Q io db (DeleteSegment k g) = sql_delete_segment io db k g"
| "sql_apply Q io db (IncrementEnvVersion k e) = map_sum id snd (sql_increment_env_version io db k e)"
| "sql_apply Q io db (AppendAudit e) = sql_append_audit io db e"

text \<open>An engine whose calls all succeed.\<close>

definition up :: engine where
  "up = (\<lambda>_. True)"

lemma up_simp [simp]: "up k"
  by (simp add: up_def)

section \<open>Rows\<close>

lemma map_of_snoc: "map_of t k = None \<Longrightarrow> map_of (t @ [(k, v)]) k' = (if k' = k then Some v else map_of t k')"
  by (auto simp: map_of_append map_add_def split: option.split)

lemma map_of_delete_where: "map_of (delete_where P t) k = (if P k then None else map_of t k)"
  by (induction t) (auto simp: delete_where_def)

lemma insert_row_up [simp]: "insert_row up k v t e = (if map_of t k \<noteq> None then Inl e else Inr (t @ [(k, v)]))"
  by (simp add: insert_row_def)

lemma update_row_up [simp]:
  "update_row up k v t e = (if map_of t k = None then Inl e else Inr (AList.update k v t))"
  by (simp add: update_row_def)

lemma other_rows_up [simp]: "upsert_row up k v t = Inr (AList.update k v t)"
  "delete_rows up P t = Inr (delete_where P t)"
  by (simp_all add: upsert_row_def delete_rows_def)

section \<open>The memory store as the specification\<close>

text \<open>A project's rows in a table hold the encoded entries of the project's map.\<close>

definition rel_table :: "('v \<Rightarrow> 'd) \<Rightarrow> ((string \<times> string) \<times> 'd) list \<Rightarrow> 'v gomap option \<Rightarrow> string \<Rightarrow> bool" where
  "rel_table enc t m p \<longleftrightarrow> (\<exists>x. m = Some x \<and> (\<forall>k. map_of t (p, k) = map_option enc (mget x k)))"

definition rel_configs :: "sql \<Rightarrow> ((string \<times> string \<times> string) \<times> json) list \<Rightarrow> flag_config gomap gomap option \<Rightarrow> string \<Rightarrow> bool" where
  "rel_configs Q t m p \<longleftrightarrow> (\<exists>x. m = Some x \<and>
     (\<forall>e k. map_of t (p, e, k) = map_option (\<lambda>c. q_col Q (config_json c)) (mget (inner x e) k)))"

definition same_project :: "sql \<Rightarrow> sql_db \<Rightarrow> mem_store \<Rightarrow> string \<Rightarrow> bool" where
  "same_project Q db s p \<longleftrightarrow>
     rel_table (\<lambda>f. q_col Q (flag_json (q_time Q) f)) (t_flags db) (mget (ms_flags s) p) p \<and>
     rel_table (\<lambda>g. q_col Q (segment_json g)) (t_segments db) (mget (ms_segments s) p) p \<and>
     rel_configs Q (t_flag_configs db) (mget (ms_configs s) p) p \<and>
     rel_table id (t_env_versions db) (mget (ms_versions s) p) p"

lemma rel_insert:
  "rel_table enc t (Some x) p \<Longrightarrow> mget x k = None \<Longrightarrow> rel_table enc (t @ [((p, k), enc v)]) (Some (mput k v x)) p"
  by (auto simp: rel_table_def map_simps map_add_def split: option.split)

lemma rel_update: "rel_table enc t (Some x) p \<Longrightarrow> rel_table enc (AList.update (p, k) (enc v) t) (Some (mput k v x)) p"
  by (auto simp: rel_table_def map_simps update_conv')

lemma rel_delete:
  "rel_table enc t (Some x) p \<Longrightarrow> rel_table enc (delete_where (\<lambda>j. j = (p, k)) t) (Some (mdel k x)) p"
  by (auto simp: rel_table_def map_simps map_of_delete_where)

lemma rel_upsert:
  "rel_configs Q t (Some x) p \<Longrightarrow>
   rel_configs Q (AList.update (p, e, k) (q_col Q (config_json c)) t) (Some (mput e (mput k c (inner x e)) x)) p"
  by (auto simp: rel_configs_def map_simps update_conv' inner_def)

text \<open>The operations on the contents of one project.\<close>

fun contents_op :: "string \<Rightarrow> store_op \<Rightarrow> bool" where
  "contents_op p (CreateFlag _ q _) = (q = p)"
| "contents_op p (UpdateFlag _ q _) = (q = p)"
| "contents_op p (DeleteFlag q _) = (q = p)"
| "contents_op p (UpsertFlagConfig q _ _ _) = (q = p)"
| "contents_op p (CreateSegment q _) = (q = p)"
| "contents_op p (UpdateSegment q _) = (q = p)"
| "contents_op p (DeleteSegment q _) = (q = p)"
| "contents_op p (IncrementEnvVersion q _) = (q = p)"
| "contents_op p _ = False"

definition agrees :: "sql \<Rightarrow> string \<Rightarrow> store_error + mem_store \<Rightarrow> store_error + sql_db \<Rightarrow> bool" where
  "agrees Q p m d \<longleftrightarrow> (case m of Inl _ \<Rightarrow> \<exists>e. d = Inl e | Inr s \<Rightarrow> \<exists>db. d = Inr db \<and> same_project Q db s p)"

lemma agrees_flags:
  assumes "same_project Q db s p"
  shows "agrees Q p (mem_create_flag now s p f) (sql_create_flag Q up now db p f)"
    and "agrees Q p (mem_update_flag now s p f) (sql_update_flag Q up now db p f)"
    and "agrees Q p (mem_delete_flag s p k) (sql_delete_flag up db p k)"
proof -
  let ?enc = "\<lambda>f. q_col Q (flag_json (q_time Q) f)"
  obtain fs where fs: "mget (ms_flags s) p = Some fs" "rel_table ?enc (t_flags db) (Some fs) p"
    using assms by (auto simp: same_project_def rel_table_def)
  have k: "map_of (t_flags db) (p, k) = None \<longleftrightarrow> mget fs k = None" for k using fs(2) by (simp add: rel_table_def)
  note d = agrees_def same_project_def fs(1) map_simps Let_def
  show "agrees Q p (mem_create_flag now s p f) (sql_create_flag Q up now db p f)"
    using assms rel_insert [OF fs(2), of "flag_key f" "f\<lparr>flag_created_at := now, flag_updated_at := now\<rparr>"] k [of "flag_key f"]
    by (cases "mget fs (flag_key f)") (simp_all add: d mem_create_flag_def sql_create_flag_def)
  show "agrees Q p (mem_update_flag now s p f) (sql_update_flag Q up now db p f)"
    using assms rel_update [OF fs(2), of "flag_key f" "f\<lparr>flag_updated_at := now\<rparr>"] k [of "flag_key f"]
    by (cases "mget fs (flag_key f)") (simp_all add: d mem_update_flag_def sql_update_flag_def)
  show "agrees Q p (mem_delete_flag s p k) (sql_delete_flag up db p k)"
    using assms rel_delete [OF fs(2), of k] by (simp add: d mem_delete_flag_def sql_delete_flag_def)
qed

lemma agrees_segments:
  assumes "same_project Q db s p"
  shows "agrees Q p (mem_create_segment s p g) (sql_create_segment Q up db p g)"
    and "agrees Q p (mem_update_segment s p g) (sql_update_segment Q up db p g)"
    and "agrees Q p (mem_delete_segment s p k) (sql_delete_segment up db p k)"
proof -
  let ?enc = "\<lambda>g. q_col Q (segment_json g)"
  obtain gs where gs: "mget (ms_segments s) p = Some gs" "rel_table ?enc (t_segments db) (Some gs) p"
    using assms by (auto simp: same_project_def rel_table_def)
  have k: "map_of (t_segments db) (p, k) = None \<longleftrightarrow> mget gs k = None" for k using gs(2) by (simp add: rel_table_def)
  note d = agrees_def same_project_def gs(1) map_simps
  show "agrees Q p (mem_create_segment s p g) (sql_create_segment Q up db p g)"
    using assms rel_insert [OF gs(2), of "seg_key g" g] k [of "seg_key g"]
    by (cases "mget gs (seg_key g)") (simp_all add: d mem_create_segment_def sql_create_segment_def)
  show "agrees Q p (mem_update_segment s p g) (sql_update_segment Q up db p g)"
    using assms rel_update [OF gs(2), of "seg_key g" g] k [of "seg_key g"]
    by (cases "mget gs (seg_key g)") (simp_all add: d mem_update_segment_def sql_update_segment_def)
  show "agrees Q p (mem_delete_segment s p k) (sql_delete_segment up db p k)"
    using assms rel_delete [OF gs(2), of k] by (simp add: d mem_delete_segment_def sql_delete_segment_def)
qed

lemma agrees_configs:
  assumes "same_project Q db s p"
  shows "agrees Q p (mem_upsert_flag_config s p e k c) (sql_upsert_flag_config Q up db p e k c)"
proof -
  obtain es where es: "mget (ms_configs s) p = Some es" "rel_configs Q (t_flag_configs db) (Some es) p"
    using assms by (auto simp: same_project_def rel_configs_def)
  show ?thesis using assms rel_upsert [OF es(2), of e k c]
    by (simp add: agrees_def same_project_def es(1) map_simps mem_upsert_flag_config_def sql_upsert_flag_config_def)
qed

lemma agrees_versions:
  assumes "same_project Q db s p" "version_at s p e = Some v" "int64_range (v + 1)"
  shows "agrees Q p (map_sum id snd (mem_increment_env_version s p e)) (map_sum id snd (sql_increment_env_version up db p e))"
proof -
  obtain vs where vs: "mget (ms_versions s) p = Some vs" "rel_table id (t_env_versions db) (Some vs) p"
    using assms(1) by (auto simp: same_project_def rel_table_def)
  have v: "mget vs e = Some v" using assms(2) by (simp add: version_at_bind vs(1))
  then have "map_of (t_env_versions db) (p, e) = Some v" using vs(2) by (simp add: rel_table_def)
  then show ?thesis using assms(1,3) rel_update [OF vs(2), of e "v + 1"]
    by (simp add: agrees_def same_project_def vs(1) v map_simps mem_increment_env_version_def
        sql_increment_env_version_def wrap64_id Let_def)
qed

lemma agrees_apply:
  assumes "same_project Q db s p" "contents_op p op"
    and "\<forall>e. op = IncrementEnvVersion p e \<longrightarrow> (\<exists>v. version_at s p e = Some v \<and> int64_range (v + 1))"
  shows "agrees Q p (mem_apply s op) (sql_apply Q up db op)"
  using assms agrees_flags [OF assms(1)] agrees_segments [OF assms(1)] agrees_configs [OF assms(1)]
    agrees_versions [OF assms(1)]
  by (cases op) auto

lemma fetch_up: "fetch up dec t k e =
    (case map_of t k of None \<Rightarrow> Inl e | Some j \<Rightarrow> (case dec j of None \<Rightarrow> Inl StorageError | Some v \<Rightarrow> Inr v))"
  by (simp add: fetch_def)

lemma reads_flag:
  assumes "same_project Q db s p" "json_column (q_col Q)" "mem_get_flag s p k = Inr f" "storable_flag f"
    "reads_time (q_time Q) (q_parse Q) (flag_created_at f)" "reads_time (q_time Q) (q_parse Q) (flag_updated_at f)"
  shows "sql_get_flag Q up db p k = Inr (reread_flag (q_col Q) f)"
  using assms(1,3) json_column.decode_flag_w [OF assms(2,4-6)]
  by (auto simp: same_project_def rel_table_def sql_get_flag_def fetch_up mem_get_flag_def split: option.splits)

lemma reads_segment:
  assumes "same_project Q db s p" "json_column (q_col Q)" "mem_get_segment s p k = Inr g" "storable_segment g"
  shows "sql_get_segment up db p k = Inr (reread_segment (q_col Q) g)"
  using assms(1,3) json_column.decode_segment_w [OF assms(2,4)]
  by (auto simp: same_project_def rel_table_def sql_get_segment_def fetch_up mem_get_segment_def split: option.splits)

lemma reads_config:
  assumes "same_project Q db s p" "json_column (q_col Q)" "mem_get_flag_config s p e k = Inr c" "storable_config c"
  shows "sql_get_flag_config up db p e k = Inr (reread_config (q_col Q) c)"
proof -
  obtain es cs where m: "mget (ms_configs s) p = Some es" "mget es e = Some cs" "mget cs k = Some c"
    using assms(3) by (auto simp: mem_get_flag_config_def split: option.splits)
  then have "map_of (t_flag_configs db) (p, e, k) = Some (q_col Q (config_json c))"
    using assms(1) by (auto simp: same_project_def rel_configs_def inner_def)
  then show ?thesis
    by (simp add: sql_get_flag_config_def fetch_up json_column.decode_config_w(1) [OF assms(2,4)])
qed

lemma sql_refines_memory_facts:
  assumes "same_project Q db s p"
  shows "contents_op p op \<Longrightarrow>
      \<forall>e. op = IncrementEnvVersion p e \<longrightarrow> (\<exists>v. version_at s p e = Some v \<and> int64_range (v + 1)) \<Longrightarrow>
      (case mem_apply s op of Inl _ \<Rightarrow> \<exists>e. sql_apply Q up db op = Inl e
       | Inr s' \<Rightarrow> \<exists>db'. sql_apply Q up db op = Inr db' \<and> same_project Q db' s' p)"
    and "json_column (q_col Q) \<Longrightarrow> mem_get_flag s p k = Inr f \<Longrightarrow> storable_flag f \<Longrightarrow>
      reads_time (q_time Q) (q_parse Q) (flag_created_at f) \<Longrightarrow>
      reads_time (q_time Q) (q_parse Q) (flag_updated_at f) \<Longrightarrow>
      sql_get_flag Q up db p k = Inr (reread_flag (q_col Q) f)"
    and "json_column (q_col Q) \<Longrightarrow> mem_get_segment s p k = Inr g \<Longrightarrow> storable_segment g \<Longrightarrow>
      sql_get_segment up db p k = Inr (reread_segment (q_col Q) g)"
    and "json_column (q_col Q) \<Longrightarrow> mem_get_flag_config s p e k = Inr c \<Longrightarrow> storable_config c \<Longrightarrow>
      sql_get_flag_config up db p e k = Inr (reread_config (q_col Q) c)"
  using agrees_apply [OF assms, of op, unfolded agrees_def] reads_flag [OF assms] reads_segment [OF assms]
    reads_config [OF assms] by blast+

text \<open>
  C5. For the contents of a project the SQL stores are the memory store: flags, segments, configurations
  and versions. From a state in which a project's rows are the encoded entries of the memory store's
  maps, every operation on the contents fails in both or succeeds in both and leads to such a state, and
  what is then read by key is what the memory store returns, up to the form in which the column keeps
  raw documents. (A version must have been created, and not be at the end of its range.)
\<close>

theorem sql_refines_memory:
  assumes "same_project Q db s p"
  shows "(contents_op p op \<and> (\<forall>e. op = IncrementEnvVersion p e \<longrightarrow> (\<exists>v. version_at s p e = Some v \<and> int64_range (v + 1))) \<longrightarrow>
      (case mem_apply s op of Inl _ \<Rightarrow> \<exists>e. sql_apply Q up db op = Inl e
       | Inr s' \<Rightarrow> \<exists>db'. sql_apply Q up db op = Inr db' \<and> same_project Q db' s' p)) \<and>
    (json_column (q_col Q) \<longrightarrow>
      (mem_get_flag s p k = Inr f \<and> storable_flag f \<and> reads_time (q_time Q) (q_parse Q) (flag_created_at f) \<and>
        reads_time (q_time Q) (q_parse Q) (flag_updated_at f) \<longrightarrow>
        sql_get_flag Q up db p k = Inr (reread_flag (q_col Q) f)) \<and>
      (mem_get_segment s p k = Inr g \<and> storable_segment g \<longrightarrow>
        sql_get_segment up db p k = Inr (reread_segment (q_col Q) g)) \<and>
      (mem_get_flag_config s p e k = Inr c \<and> storable_config c \<longrightarrow>
        sql_get_flag_config up db p e k = Inr (reread_config (q_col Q) c)))"
  by (intro conjI impI; elim conjE; rule sql_refines_memory_facts [OF assms]; assumption)

definition sample_sql :: sql where
  "sample_sql = \<lparr>q_col = \<lambda>j. j, q_rank = \<lambda>k. k, q_time = \<lambda>_. ''T'', q_parse = \<lambda>_. Some 7\<rparr>"

text \<open>A new project without environments is the same in both.\<close>

lemma new_project_same:
  assumes "proj_environments p = []"
  shows "\<exists>db s. sql_create_project Q up empty_db p = Inr db \<and> mem_create_project new_memory_store p = Inr s \<and>
    same_project Q db s (proj_key p)"
  using assms by (simp add: sql_create_project_def mem_create_project_def empty_db_def new_memory_store_def
      same_project_def rel_table_def rel_configs_def inner_def Let_def)

lemma sql_refines_memory_witness:
  "\<exists>db s. sql_create_project sample_sql up empty_db (sample_project\<lparr>proj_environments := []\<rparr>) = Inr db \<and>
     mem_create_project new_memory_store (sample_project\<lparr>proj_environments := []\<rparr>) = Inr s \<and>
     (\<exists>db'. sql_apply sample_sql up db (CreateFlag 7 ''p'' (bool_flag ''f'' [])) = Inr db' \<and>
        sql_get_flag sample_sql up db' ''p'' ''f'' =
          Inr (reread_flag (\<lambda>j. j) ((bool_flag ''f'' [])\<lparr>flag_created_at := 7, flag_updated_at := 7\<rparr>)))"
proof -
  let ?f = "(bool_flag ''f'' [])\<lparr>flag_created_at := 7, flag_updated_at := 7\<rparr>"
  obtain db s where c: "sql_create_project sample_sql up empty_db (sample_project\<lparr>proj_environments := []\<rparr>) = Inr db"
      "mem_create_project new_memory_store (sample_project\<lparr>proj_environments := []\<rparr>) = Inr s"
      "same_project sample_sql db s ''p''"
    using new_project_same [of "sample_project\<lparr>proj_environments := []\<rparr>" sample_sql] by (auto simp: sample_project_def)
  have "mget (ms_flags s) ''p'' = Some []"
    using c(2) by (auto simp: mem_create_project_def new_memory_store_def sample_project_def Let_def)
  then have m: "mem_apply s (CreateFlag 7 ''p'' (bool_flag ''f'' [])) =
      Inr (s\<lparr>ms_flags := mput ''p'' [(''f'', ?f)] (ms_flags s)\<rparr>)" (is "_ = Inr ?s'")
    by (simp add: mem_create_flag_def bool_flag_def)
  obtain db' where d: "sql_apply sample_sql up db (CreateFlag 7 ''p'' (bool_flag ''f'' [])) = Inr db'"
      "same_project sample_sql db' ?s' ''p''"
    using mp [OF conjunct1 [OF sql_refines_memory [OF c(3), where op = "CreateFlag 7 ''p'' (bool_flag ''f'' [])"]],
        unfolded m] by auto
  have g: "mem_get_flag ?s' ''p'' ''f'' = Inr ?f" by (simp add: mem_get_flag_def map_simps)
  have "json_column (q_col sample_sql)" "storable_flag ?f"
      "reads_time (q_time sample_sql) (q_parse sample_sql) (flag_created_at ?f)"
      "reads_time (q_time sample_sql) (q_parse sample_sql) (flag_updated_at ?f)"
    by (simp_all add: sample_sql_def text_column.json_column_axioms storable_flag_def bool_flag_def plain_type_def
        reads_time_def)
  then have "sql_get_flag sample_sql up db' ''p'' ''f'' = Inr (reread_flag (q_col sample_sql) ?f)"
    using sql_refines_memory [OF d(2), where k = "''f''" and f = ?f] g by blast
  then show ?thesis using c(1,2) d(1) by (auto simp: sample_sql_def)
qed

section \<open>All or nothing\<close>

lemma run_tx_up: "run_tx io k fs db = Inr db' \<Longrightarrow> run_tx up k fs db = Inr db'"
  by (induction io k fs db rule: run_tx.induct) (auto split: if_splits option.splits)

lemma transaction_up: "transaction io fs db = Inr db' \<Longrightarrow> transaction up fs db = Inr db'"
  by (auto simp: transaction_def intro: run_tx_up split: if_splits)

lemma map_sum_Inr: "map_sum id f x = Inr y \<longleftrightarrow> (\<exists>z. x = Inr z \<and> y = f z)"
  by (cases x) auto

lemma rows_whole:
  "map_sum id f (insert_row io k v t e) = Inr d \<Longrightarrow> map_sum id f (insert_row up k v t e) = Inr d"
  "map_sum id f (update_row io k v t e) = Inr d \<Longrightarrow> map_sum id f (update_row up k v t e) = Inr d"
  "map_sum id f (upsert_row io k v t) = Inr d \<Longrightarrow> map_sum id f (upsert_row up k v t) = Inr d"
  "map_sum id f (delete_rows io P t) = Inr d \<Longrightarrow> map_sum id f (delete_rows up P t) = Inr d"
  by (auto simp: map_sum_Inr insert_row_def update_row_def upsert_row_def delete_rows_def split: if_splits)

lemmas sql_rows = sql_create_project_def sql_update_project_def sql_update_environment_def
  sql_create_flag_def sql_update_flag_def sql_delete_flag_def sql_upsert_flag_config_def sql_create_segment_def
  sql_update_segment_def sql_delete_segment_def


definition failing_commit :: engine where
  "failing_commit k = (k \<noteq> 3)"


text \<open>
  What the caller is told is another matter: a failed \<open>INSERT\<close> is always reported as the row being there
  already, and the handler answers 409 Conflict to a full disk or a lost connection.
\<close>

lemma create_reports_conflict:
  "\<not> io 0 \<Longrightarrow> sql_create_flag Q io now db pk f = Inl (FlagExists pk (flag_key f))"
  "\<not> io 0 \<Longrightarrow> sql_create_project Q io db p = Inl (ProjectExists (proj_key p))"
  by (simp_all add: sql_create_flag_def sql_create_project_def insert_row_def Let_def)

section \<open>Where the stores differ\<close>

text \<open>
  The memory store keeps the environments in their project, the SQL stores in a table of their own that
  \<open>CreateProject\<close> does not fill; and only the memory store looks for the project of a flag.
\<close>

lemma environments_not_listed:
  "sql_create_project Q up empty_db p = Inr db \<Longrightarrow>
   sql_list_environments Q up db (proj_key p) = Inr [] \<and> sql_get_env_version up db (proj_key p) e = Inr 0"
  by (auto simp: sql_create_project_def empty_db_def sql_list_environments_def fetch_all_def of_project_def
      sql_get_env_version_def)

lemma environments_listed:
  "mem_create_project new_memory_store p = Inr s \<Longrightarrow> mem_list_environments s (proj_key p) = Inr (proj_environments p)"
  by (auto simp: mem_create_project_def new_memory_store_def mem_list_environments_def Let_def)

lemma orphan_flags:
  "\<exists>db. sql_create_flag Q up now empty_db p f = Inr db"
  "mem_create_flag now new_memory_store p f = Inl (ProjectNotFound p)"
  by (simp_all add: sql_create_flag_def empty_db_def mem_create_flag_def new_memory_store_def Let_def)

text \<open>
  The stores do not keep the same contract. A project created with environments has them, with
  version 0, in the memory store; in a SQL store it lists none, and their version is 0 like that of any
  name. A flag of a project that does not exist is refused by the memory store and accepted by the others.
\<close>

theorem store_contracts_differ:
  shows "mem_create_project new_memory_store p = Inr s \<Longrightarrow> sql_create_project Q up empty_db p = Inr db \<Longrightarrow>
      mem_list_environments s (proj_key p) = Inr (proj_environments p) \<and>
      sql_list_environments Q up db (proj_key p) = Inr [] \<and> sql_get_env_version up db (proj_key p) e = Inr 0"
    and "mem_create_flag now new_memory_store k f = Inl (ProjectNotFound k)"
    and "\<exists>db. sql_create_flag Q up now empty_db k f = Inr db"
  by (simp_all add: environments_listed environments_not_listed orphan_flags)

lemma store_contracts_differ_witness:
  "\<exists>s db. mem_create_project new_memory_store sample_project = Inr s \<and>
     sql_create_project sample_sql up empty_db sample_project = Inr db \<and>
     mem_list_environments s ''p'' = Inr [sample_env] \<and> sql_list_environments sample_sql up db ''p'' = Inr []"
proof -
  obtain s where s: "mem_create_project new_memory_store sample_project = Inr s"
    by (simp add: mem_create_project_def new_memory_store_def Let_def)
  obtain db where db: "sql_create_project sample_sql up empty_db sample_project = Inr db"
    by (simp add: sql_create_project_def empty_db_def)
  from store_contracts_differ(1) [OF s db] s db show ?thesis by (simp add: sample_project_def)
qed

text \<open>Deleting a flag leaves its configurations, and a flag created anew under the key gets them back.\<close>

lemma config_survives:
  "mem_delete_flag s p k = Inr s1 \<Longrightarrow> mem_create_flag now s1 p f = Inr s2 \<Longrightarrow>
   mem_get_flag_config s2 p e k = mem_get_flag_config s p e k"
  "sql_delete_flag io db p k = Inr db1 \<Longrightarrow> sql_create_flag Q io now db1 p f = Inr db2 \<Longrightarrow>
   sql_get_flag_config up db2 p e k = sql_get_flag_config up db p e k"
  by (auto simp: mem_delete_flag_def mem_create_flag_def mem_get_flag_config_def sql_delete_flag_def
      sql_create_flag_def sql_get_flag_config_def map_sum_Inr Let_def split: option.splits if_splits)

section \<open>The audit log\<close>

definition blank :: "audit_entry \<Rightarrow> audit_entry" where
  "blank e = e\<lparr>au_id := [], au_project_key := []\<rparr>"

definition audit_db :: "audit_entry list \<Rightarrow> sql_db" where
  "audit_db es = foldl (\<lambda>db e. case sql_append_audit up db e of Inl _ \<Rightarrow> db | Inr db' \<Rightarrow> db') empty_db es"

definition audit_mem :: "audit_entry list \<Rightarrow> mem_store" where
  "audit_mem es = foldl mem_append_audit new_memory_store es"

lemma audit_db_rows:
  "t_audit_log (audit_db es) = map (\<lambda>(i, e). (int i + 1, e)) (enumerate 0 es) \<and>
   t_audit_seq (audit_db es) = int (length es)"
proof (induction es rule: rev_induct)
  case Nil show ?case by (simp add: audit_db_def empty_db_def)
next
  case (snoc e es)
  then show ?case by (simp add: audit_db_def sql_append_audit_def enumerate_append_eq add.commute)
qed

lemma sort_key_sorted: "sorted (map f xs) \<Longrightarrow> sort_key f xs = xs"
  by (induction xs) (auto simp: insort_is_Cons)

lemma audit_db_project:
  "map snd (sort_key fst (filter (\<lambda>r. au_project_key (snd r) = p) (t_audit_log (audit_db es)))) =
     filter (\<lambda>e. au_project_key e = p) es"
proof -
  have "map fst (t_audit_log (audit_db es)) = map (\<lambda>i. int i + 1) [0..<length es]"
    by (simp add: audit_db_rows case_prod_unfold comp_def)
      (metis (no_types, lifting) list.map_comp map_eq_conv map_fst_enumerate add_0 comp_apply)
  then have "sorted (map fst (t_audit_log (audit_db es)))" by (simp add: sorted_iff_nth_mono)
  then have "sort_key fst (filter (\<lambda>r. au_project_key (snd r) = p) (t_audit_log (audit_db es))) =
      filter (\<lambda>r. au_project_key (snd r) = p) (t_audit_log (audit_db es))"
    by (intro sort_key_sorted sorted_filter)
  moreover have "map snd (t_audit_log (audit_db es)) = es"
    by (simp add: audit_db_rows case_prod_unfold comp_def)
  moreover have "map snd (filter (\<lambda>r. au_project_key (snd r) = p) xs) = filter (\<lambda>e. au_project_key e = p) (map snd xs)"
    for xs :: "(int \<times> audit_entry) list"
    by (simp add: filter_map comp_def)
  ultimately show ?thesis by (simp only:)
qed

lemma audit_mem_project:
  "map blank (case mget (ms_audits (audit_mem es)) p of None \<Rightarrow> [] | Some xs \<Rightarrow> xs) =
     map blank (filter (\<lambda>e. au_project_key e = p) es)"
proof (induction es rule: rev_induct)
  case Nil show ?case by (simp add: audit_mem_def new_memory_store_def)
next
  case (snoc e es)
  then show ?case
    by (simp add: audit_mem_def mem_append_audit_def Let_def map_simps blank_def split: option.splits)
qed

text \<open>
  The two kinds of store list the audit log in opposite orders: after the same entries, and for the same
  limit, the SQL stores return the newest entries first and the memory store the same entries oldest
  first; the SQL stores also leave out their ids and project.
\<close>

theorem audit_orders_differ:
  assumes "0 < n"
  shows "\<exists>es. sql_list_audit up (audit_db entries) p n = Inr es \<and>
      map blank (mem_list_audit (audit_mem entries) p n) = rev es \<and>
      length es = min (nat n) (length (filter (\<lambda>e. au_project_key e = p) entries))"
proof -
  let ?ms = "case mget (ms_audits (audit_mem entries)) p of None \<Rightarrow> [] | Some xs \<Rightarrow> xs"
  let ?fs = "filter (\<lambda>e. au_project_key e = p) entries"
  let ?rows = "sort_key fst (filter (\<lambda>r. au_project_key (snd r) = p) (t_audit_log (audit_db entries)))"
  have len: "length ?ms = length ?fs" using arg_cong [OF audit_mem_project [of entries p], of length] by simp
  have m: "mem_list_audit (audit_mem entries) p n = drop (length ?fs - nat n) ?ms"
    unfolding mem_list_audit_def Let_def len using assms by (cases "n < int (length ?fs)") simp_all
  have "map (\<lambda>r. (snd r)\<lparr>au_id := [], au_project_key := []\<rparr>) (take (nat n) (rev ?rows)) =
      map blank (take (nat n) (rev (map snd ?rows)))"
    by (simp add: blank_def rev_map take_map)
  then have s: "sql_list_audit up (audit_db entries) p n = Inr (map blank (take (nat n) (rev ?fs)))"
    using assms unfolding sql_list_audit_def Let_def audit_db_project by simp
  have "map blank (drop (length ?fs - nat n) ?ms) = drop (length ?fs - nat n) (map blank ?fs)"
    by (simp only: drop_map [symmetric] audit_mem_project)
  also have "\<dots> = rev (map blank (take (nat n) (rev ?fs)))"
    by (simp add: rev_map take_rev drop_map)
  finally have "map blank (drop (length ?fs - nat n) ?ms) = rev (map blank (take (nat n) (rev ?fs)))" .
  then show ?thesis unfolding m s by (simp add: min.commute)
qed

definition two_entries :: "audit_entry list" where
  "two_entries = map (\<lambda>a. \<lparr>au_id = [], au_project_key = ''p'', au_actor = [], au_action = a, au_resource = [],
     au_resource_id = [], au_before = [], au_after = [], au_at = 0\<rparr>) [''create'', ''delete'']"

lemma audit_orders_differ_witness:
  "\<exists>es. sql_list_audit up (audit_db two_entries) ''p'' 5 = Inr es \<and> length es = 2 \<and>
     map blank (mem_list_audit (audit_mem two_entries) ''p'' 5) = rev es"
  using audit_orders_differ [of 5 two_entries "''p''"] by (auto simp: two_entries_def)

end
