(* ===== verification/Startup.thy ===== *)
theory Startup
  imports Edge SqlStore
begin

text \<open>
  How the server process starts: \<open>main\<close>, \<open>seedAdminUser\<close> and \<open>seedDemoData\<close> of \<open>cmd/server/main.go\<close> with the
  choice of the stores.

  The environment of the process is a record, opening a database and bcrypt's hash are arguments, and
  \<open>io\<close> says for each of the two store calls of the seeding whether the engine's calls succeed. The listeners,
  TLS and the signals that end the process are I/O. The lemmas compare the first start with the next one
  on the same database.
\<close>

section \<open>The configuration stores behind one interface\<close>

definition any_create_project :: "sql \<Rightarrow> engine \<Rightarrow> any_store \<Rightarrow> project \<Rightarrow> store_error + any_store" where
  "any_create_project Q io st p =
     (case st of PostgresStore db \<Rightarrow> map_sum id PostgresStore (pg_create_project Q io db p)
      | SqliteStore db \<Rightarrow> map_sum id SqliteStore (sql_create_project Q io db p)
      | MemoryStore s \<Rightarrow> map_sum id MemoryStore (mem_create_project s p))"

definition any_create_environment ::
    "sql \<Rightarrow> engine \<Rightarrow> any_store \<Rightarrow> string \<Rightarrow> environment \<Rightarrow> store_error + any_store" where
  "any_create_environment Q io st pk e =
     (case st of PostgresStore db \<Rightarrow> map_sum id PostgresStore (pg_create_environment Q io db pk e)
      | SqliteStore db \<Rightarrow> map_sum id SqliteStore (sql_create_environment Q io db pk e)
      | MemoryStore s \<Rightarrow> map_sum id MemoryStore (mem_create_environment s pk e))"

section \<open>Seeding\<close>

text \<open>The zero \<open>time.Time\<close>, the first of January of the year 1, in nanoseconds.\<close>

definition zero_time :: int where
  "zero_time = - 62135596800 * nanos"

definition demo_project :: project where
  "demo_project = \<lparr>proj_key = ''default'', proj_name = ''Default Project'', proj_description = [],
     proj_environments = []\<rparr>"

definition demo_environment :: environment where
  "demo_environment = \<lparr>env_key = ''production'', env_name = ''Production'', env_color = [], env_project_key = [],
     env_sdk_keys = [\<lparr>sk_value = ''sdk-server-default-prod'', sk_type = SDKKeyServer, sk_created_at = zero_time\<rparr>,
       \<lparr>sk_value = ''sdk-client-default-prod'', sk_type = SDKKeyClient, sk_created_at = zero_time\<rparr>],
     env_version = 0\<rparr>"

definition demo_key :: "string \<Rightarrow> string \<Rightarrow> sdk_key_record" where
  "demo_key v t = \<lparr>kr_value = v, kr_project_key = ''default'', kr_env_key = ''production'', kr_type = t,
     kr_revoked = False\<rparr>"

definition seed_demo_data ::
    "sql \<Rightarrow> (nat \<Rightarrow> engine) \<Rightarrow> any_store \<Rightarrow> authenticator \<Rightarrow> any_store \<times> authenticator" where
  "seed_demo_data Q io st keys =
     (case any_create_project Q (io 0) st demo_project of Inl _ \<Rightarrow> (st, keys)
      | Inr st1 \<Rightarrow>
          (case any_create_environment Q (io 1) st1 ''default'' demo_environment of Inl _ \<Rightarrow> (st1, keys)
           | Inr st2 \<Rightarrow>
               (st2, register (register keys (demo_key ''sdk-server-default-prod'' ''server''))
                       (demo_key ''sdk-client-default-prod'' ''client''))))"

datatype any_users = MemUsers user_store | SqliteUsers sqlite_user_store

definition any_create_user :: "int \<Rightarrow> any_users \<Rightarrow> user \<Rightarrow> any_users option" where
  "any_create_user now us u =
     (case us of MemUsers s \<Rightarrow> map_option MemUsers (create_user now [] s u)
      | SqliteUsers s \<Rightarrow> map_option SqliteUsers (sqlite_create_user now [] s u))"

definition admin_user :: "string \<Rightarrow> user" where
  "admin_user hash = \<lparr>usr_id = ''admin-0'', usr_email = ''admin@pennant.local'', usr_name = ''Admin'',
     usr_role = RoleOwner, usr_password_hash = hash, usr_created_at = zero_time\<rparr>"

definition seed_admin_user :: "(string \<Rightarrow> string option) \<Rightarrow> int \<Rightarrow> any_users \<Rightarrow> any_users" where
  "seed_admin_user bcrypt now us =
     (case bcrypt ''admin'' of None \<Rightarrow> us
      | Some h \<Rightarrow> (case any_create_user now us (admin_user h) of None \<Rightarrow> us | Some us' \<Rightarrow> us'))"

section \<open>The process\<close>

record config =
  cf_database_url :: string
  cf_sqlite_path :: string
  cf_jwt_secret :: string
  cf_cors_origins :: string
  cf_admin_token :: string

record process =
  pr_store :: any_store
  pr_hub :: "snapshot hub"
  pr_ingestor :: ingestor
  pr_keys :: authenticator
  pr_users :: any_users
  pr_secret :: string
  pr_origins :: "string list"
  pr_admin_token :: string
  pr_experiments :: "rat experiment_store"

definition open_users :: "(string \<Rightarrow> 'e + sqlite_user_store) \<Rightarrow> string \<Rightarrow> any_users" where
  "open_users open_lite path =
     (if path \<noteq> [] then (case open_lite (path @ ''.users'') of Inl _ \<Rightarrow> MemUsers new_user_store | Inr us \<Rightarrow> SqliteUsers us)
      else MemUsers new_user_store)"

definition start ::
    "sql \<Rightarrow> (nat \<Rightarrow> engine) \<Rightarrow> (string \<Rightarrow> string option) \<Rightarrow> int \<Rightarrow> (string \<Rightarrow> 'e + sql_db) \<Rightarrow> (string \<Rightarrow> 'e + sql_db) \<Rightarrow>
     (string \<Rightarrow> 'e + sqlite_user_store) \<Rightarrow> config \<Rightarrow> 'e + process" where
  "start Q io bcrypt now open_pg open_lite open_user_db cf =
     (case new_store open_pg open_lite (cf_database_url cf) (cf_sqlite_path cf) of Inl e \<Rightarrow> Inl e
      | Inr st \<Rightarrow>
          (case seed_demo_data Q io st new_authenticator of
             (st', keys) \<Rightarrow>
               Inr \<lparr>pr_store = st', pr_hub = new_hub, pr_ingestor = new_ingestor 500, pr_keys = keys,
                 pr_users = seed_admin_user bcrypt now (open_users open_user_db (cf_sqlite_path cf)),
                 pr_secret = new_jwt_service (cf_jwt_secret cf), pr_origins = cors_origins (cf_cors_origins cf),
                 pr_admin_token = cf_admin_token cf, pr_experiments = new_experiment_store\<rparr>))"

section \<open>The first start\<close>

lemma demo_keys: "authenticate_sdk (register (register a (demo_key ''sdk-server-default-prod'' ''server''))
      (demo_key ''sdk-client-default-prod'' ''client'')) (''Bearer '' @ ''sdk-server-default-prod'') =
    Some (demo_key ''sdk-server-default-prod'' ''server'')"
  by (simp add: authenticate_sdk_def extract_bearer_def bearer_prefix_def lookup_key_def register_def demo_key_def
      map_simps)

text \<open>Seeding a database: what is there decides.\<close>

definition has_project :: "string \<Rightarrow> sql_db \<Rightarrow> bool" where
  "has_project k db \<longleftrightarrow> map_of (t_projects db) k \<noteq> None"

fun db_of :: "any_store \<Rightarrow> sql_db option" where
  "db_of (PostgresStore db) = Some db"
| "db_of (SqliteStore db) = Some db"
| "db_of (MemoryStore s) = None"

lemma seed_refused:
  assumes "db_of st = Some db" "has_project ''default'' db"
  shows "seed_demo_data Q io st keys = (st, keys)"
proof -
  have "\<exists>e. sql_create_project Q (io 0) db demo_project = Inl e"
    using assms(2) by (simp add: sql_create_project_def insert_row_def demo_project_def has_project_def del: not_None_eq)
  then show ?thesis
    using assms(1) by (cases st) (auto simp: seed_demo_data_def any_create_project_def pg_create_project_def)
qed

lemma seed_project:
  assumes "\<not> has_project ''default'' db"
  shows "\<exists>db'. sql_create_project Q up db demo_project = Inr db' \<and> has_project ''default'' db' \<and>
    t_environments db' = t_environments db"
  using assms by (simp add: sql_create_project_def insert_row_def demo_project_def has_project_def map_add_def)

lemma seed_environment:
  assumes "map_of (t_environments db) (''default'', ''production'') = None"
  shows "\<exists>db'. sql_create_environment Q up db ''default'' demo_environment = Inr db' \<and> t_projects db' = t_projects db"
  using assms by (simp add: sql_create_environment_def transaction_def demo_environment_def Let_def)

lemma seed_fresh:
  assumes "db_of st = Some db" "\<not> has_project ''default'' db" "map_of (t_environments db) (''default'', ''production'') = None"
    and "\<forall>k. io k = up"
  shows "\<exists>db'. db_of (fst (seed_demo_data Q io st keys)) = Some db' \<and> has_project ''default'' db' \<and>
    snd (seed_demo_data Q io st keys) = register (register keys (demo_key ''sdk-server-default-prod'' ''server''))
      (demo_key ''sdk-client-default-prod'' ''client'')"
proof -
  obtain db1 where p: "sql_create_project Q up db demo_project = Inr db1" "has_project ''default'' db1"
      "t_environments db1 = t_environments db"
    using seed_project [OF assms(2)] by blast
  obtain db2 where e: "sql_create_environment Q up db1 ''default'' demo_environment = Inr db2" "t_projects db2 = t_projects db1"
    using seed_environment [of db1 Q] assms(3) p(3) by auto
  have "has_project ''default'' db2" using p(2) e(2) by (simp add: has_project_def)
  with assms(1,4) p(1) e(1) show ?thesis
    by (cases st) (simp_all add: seed_demo_data_def any_create_project_def any_create_environment_def
        pg_create_project_def pg_create_environment_def)
qed

section \<open>The next start\<close>

lemma run_tx_keeps:
  "run_tx io k fs db = Inr db' \<Longrightarrow> (\<And>e f d d'. (e, f) \<in> set fs \<Longrightarrow> f d = Some d' \<Longrightarrow> P d \<Longrightarrow> P d') \<Longrightarrow> P db \<Longrightarrow> P db'"
proof (induction io k fs db rule: run_tx.induct)
  case (2 io k err f fs db)
  then show ?case by (auto split: if_splits option.splits)
qed (auto split: if_splits)

lemma keeps_project:
  assumes "sql_apply Q io db op = Inr db'" "has_project k db" "op \<noteq> DeleteProject k"
  shows "has_project k db'"
proof (cases op)
  case (DeleteProject j)
  have other: "map_of (delete_where (\<lambda>p. p = j) t) k = map_of t k" for t :: "(string \<times> json) list"
    using assms(3) DeleteProject by (induction t) (auto simp: delete_where_def)
  show ?thesis
    using assms(1,2) unfolding DeleteProject sql_apply.simps sql_delete_project_def transaction_def
    by (auto split: if_splits elim!: run_tx_keeps [where P = "has_project k"] simp: has_project_def other)
next
  case (CreateEnvironment pk e)
  show ?thesis
    using assms(1,2) unfolding CreateEnvironment sql_apply.simps sql_create_environment_def transaction_def Let_def
    by (auto split: if_splits elim!: run_tx_keeps [where P = "has_project k"] simp: has_project_def)
next
  case (DeleteEnvironment pk e)
  show ?thesis
    using assms(1,2) unfolding DeleteEnvironment sql_apply.simps sql_delete_environment_def transaction_def
    by (auto split: if_splits elim!: run_tx_keeps [where P = "has_project k"] simp: has_project_def)
next
  case (CreateProject p)
  then show ?thesis
    using assms(1,2) by (auto simp: sql_create_project_def map_sum_Inr insert_row_def has_project_def map_add_def
        split: if_splits option.splits)
next
  case (UpdateProject p)
  then show ?thesis
    using assms(1,2) by (auto simp: sql_update_project_def map_sum_Inr update_row_def has_project_def update_conv'
        split: if_splits)
next
  case (IncrementEnvVersion pk e)
  then show ?thesis
    using assms(1,2) by (auto simp: sql_increment_env_version_def has_project_def Let_def split: if_splits option.splits)
qed (use assms(1,2) in \<open>auto simp: map_sum_Inr has_project_def sql_update_environment_def sql_create_flag_def
  sql_update_flag_def sql_delete_flag_def sql_upsert_flag_config_def sql_create_segment_def sql_update_segment_def
  sql_delete_segment_def sql_append_audit_def Let_def split: if_splits\<close>)

text \<open>What a process does to the database: methods that succeed, on whatever engine.\<close>

inductive evolves :: "sql \<Rightarrow> (store_op \<Rightarrow> bool) \<Rightarrow> sql_db \<Rightarrow> sql_db \<Rightarrow> bool" for Q P where
  evolves_refl: "evolves Q P db db"
| evolves_step: "evolves Q P db db1 \<Longrightarrow> P op \<Longrightarrow> sql_apply Q io db1 op = Inr db2 \<Longrightarrow> evolves Q P db db2"

lemma evolves_keeps_project:
  "evolves Q P db db' \<Longrightarrow> \<not> P (DeleteProject k) \<Longrightarrow> has_project k db \<Longrightarrow> has_project k db'"
  by (induction rule: evolves.induct) (auto intro: keeps_project)

lemma start_cases:
  "start Q io bcrypt now open_pg open_lite open_user_db cf = Inr p \<Longrightarrow>
   new_store open_pg open_lite (cf_database_url cf) (cf_sqlite_path cf) = Inr st \<Longrightarrow>
   pr_store p = fst (seed_demo_data Q io st new_authenticator) \<and> pr_keys p = snd (seed_demo_data Q io st new_authenticator)"
  by (auto simp: start_def split: prod.splits)

text \<open>
  C36. SDK keys do not survive a restart. On an empty database the first process accepts the demo keys, as
  every client was told. Whatever it then does to the database short of deleting the demo project, the next
  process to start on it finds the project there, gives up the seeding before it registers a key, and
  refuses every SDK key there is: those of the seeding and those that were created and handed out since.
\<close>

theorem restart_forgets_keys:
  assumes "start Q io bcrypt now open_pg open_lite open_user_db cf = Inr p"
    and "new_store open_pg open_lite (cf_database_url cf) (cf_sqlite_path cf) = Inr st" "db_of st = Some db"
    and "\<not> has_project ''default'' db" "map_of (t_environments db) (''default'', ''production'') = None" "\<forall>k. io k = up"
    and "db_of (pr_store p) = Some db1" "evolves Q (\<lambda>op. op \<noteq> DeleteProject ''default'') db1 db2"
    and "start Q io' bcrypt now' open_pg' open_lite' open_user_db' cf' = Inr p'"
    and "new_store open_pg' open_lite' (cf_database_url cf') (cf_sqlite_path cf') = Inr st'" "db_of st' = Some db2"
  shows "authenticate_sdk (pr_keys p) (''Bearer '' @ ''sdk-server-default-prod'') =
      Some (demo_key ''sdk-server-default-prod'' ''server'') \<and>
    authenticate_sdk (pr_keys p') header = None \<and> pr_store p' = st'"
proof -
  note p = start_cases [OF assms(1,2)] and p' = start_cases [OF assms(9,10)]
  obtain db0 where s: "db_of (pr_store p) = Some db0" "has_project ''default'' db0"
      "pr_keys p = register (register new_authenticator (demo_key ''sdk-server-default-prod'' ''server''))
        (demo_key ''sdk-client-default-prod'' ''client'')"
    using seed_fresh [OF assms(3-6), of Q new_authenticator] p by auto
  have "has_project ''default'' db2"
    using evolves_keeps_project [OF assms(8), of "''default''"] s(1,2) assms(7) by simp
  with seed_refused [OF assms(11)] p' have "pr_keys p' = new_authenticator" "pr_store p' = st'" by simp_all
  then show ?thesis
    using s(3) demo_keys by (simp add: authenticate_sdk_def lookup_key_def new_authenticator_def Let_def)
qed

definition lite_config :: config where
  "lite_config = \<lparr>cf_database_url = [], cf_sqlite_path = ''p'', cf_jwt_secret = [], cf_cors_origins = [], cf_admin_token = []\<rparr>"

definition start_lite :: "sql_db \<Rightarrow> unit + process" where
  "start_lite db = start sample_sql (\<lambda>_. up) (\<lambda>_. None) 0 (\<lambda>_. Inl ()) (\<lambda>_. Inr db) (\<lambda>_. Inl ()) lite_config"

lemma open_lite: "new_store (\<lambda>_. Inl ()) (\<lambda>_. Inr db) (cf_database_url lite_config) (cf_sqlite_path lite_config) =
    Inr (SqliteStore db)"
  by (simp add: new_store_def lite_config_def)

lemma restart_forgets_keys_witness:
  "\<exists>p p' db. start_lite empty_db = Inr p \<and> db_of (pr_store p) = Some db \<and> start_lite db = Inr p' \<and>
     authenticate_sdk (pr_keys p) (''Bearer '' @ ''sdk-server-default-prod'') =
       Some (demo_key ''sdk-server-default-prod'' ''server'') \<and>
     authenticate_sdk (pr_keys p') (''Bearer '' @ ''sdk-server-default-prod'') = None"
proof -
  have runs: "\<exists>p. start_lite db = Inr p" for db
    by (simp add: start_lite_def start_def open_lite split: prod.split)
  obtain p where p: "start_lite empty_db = Inr p" using runs by blast
  have e: "db_of (SqliteStore empty_db) = Some empty_db" "\<not> has_project ''default'' empty_db"
      "map_of (t_environments empty_db) (''default'', ''production'') = None" "\<forall>k :: nat. (\<lambda>_. up) k = up"
    by (simp_all add: has_project_def empty_db_def)
  obtain db where db: "db_of (pr_store p) = Some db"
    using start_cases [OF p [unfolded start_lite_def] open_lite] seed_fresh [OF e, of sample_sql new_authenticator] by auto
  obtain p' where p': "start_lite db = Inr p'" using runs by blast
  have "db_of (SqliteStore db) = Some db" by simp
  from restart_forgets_keys [OF p [unfolded start_lite_def] open_lite e db evolves_refl p' [unfolded start_lite_def] open_lite this]
  show ?thesis using p db p' by blast
qed

section \<open>What the configuration does\<close>

text \<open>
  The documented administrator is there after the first start; without a configured secret the tokens are
  signed with the constant of the source; and the documented static token of an administrator has no
  effect: it is stored and no handler, all of which take claims from \<open>server_claims\<close>, is given it.
\<close>

lemma default_admin:
  assumes "bcrypt ''admin'' = Some h" "lib_bcrypt A h ''admin''"
  shows "\<exists>us u. seed_admin_user bcrypt now (MemUsers new_user_store) = MemUsers us \<and>
    get_by_email us ''admin@pennant.local'' = Some u \<and> usr_role u = RoleOwner \<and>
    check_password A (usr_password_hash u) ''admin''"
  using assms by (simp add: seed_admin_user_def any_create_user_def create_user_def new_user_store_def admin_user_def
      get_by_email_def check_password_def Let_def map_simps)

lemma admin_token_unused:
  "start Q io bcrypt now open_pg open_lite open_user_db (cf\<lparr>cf_admin_token := t\<rparr>) =
   map_sum id (\<lambda>p. p\<lparr>pr_admin_token := t\<rparr>) (start Q io bcrypt now open_pg open_lite open_user_db cf)"
  by (simp add: start_def split: sum.split prod.split)

end
