(* ===== verification/Bus.thy ===== *)
theory Bus
  imports Prelude
begin

text \<open>
  The event bus, \<open>internal/events/bus.go\<close>.

  A subscriber list is a slice: an array on a heap, shared by every copy of the slice, and a length.
  \<open>Subscribe\<close> appends, in place while the array has room (\<open>grow\<close> is the capacity the runtime chooses for a new
  one), \<open>Unsubscribe\<close> shifts the rest down in place, and \<open>Publish\<close> copies the slice under the lock and walks
  the array without it. A channel is its capacity and what it buffers.

  The lemmas show that the operations one by one keep, for every topic, the list of its subscribers, and
  what the walk without the lock makes of it. (The server creates a bus and hands it to the hub, which does
  not use it.)
\<close>

section \<open>Slices and channels\<close>

record 'a bus =
  bs_arrays :: "nat list list"
  bs_subs :: "(nat \<times> nat) gomap"
  bs_chans :: "(nat \<times> 'a list) list"

definition new_bus :: "'a bus" where
  "new_bus = \<lparr>bs_arrays = [], bs_subs = [], bs_chans = []\<rparr>"

text \<open>The subscribers of a topic.\<close>

definition subscribers :: "'a bus \<Rightarrow> string \<Rightarrow> nat list" where
  "subscribers b topic = (case mget (bs_subs b) topic of None \<Rightarrow> [] | Some (a, n) \<Rightarrow> take n (bs_arrays b ! a))"

definition append_chan :: "(nat \<Rightarrow> nat) \<Rightarrow> 'a bus \<Rightarrow> string \<Rightarrow> nat \<Rightarrow> 'a bus" where
  "append_chan grow b topic ch =
     (let fresh = length (bs_arrays b);
          anew = (\<lambda>xs. b\<lparr>bs_arrays := bs_arrays b @ [xs @ ch # replicate (grow (length xs)) 0],
                        bs_subs := mput topic (fresh, Suc (length xs)) (bs_subs b)\<rparr>)
      in case mget (bs_subs b) topic of None \<Rightarrow> anew []
         | Some (a, n) \<Rightarrow>
             if n < length (bs_arrays b ! a)
             then b\<lparr>bs_arrays := (bs_arrays b)[a := (bs_arrays b ! a)[n := ch]],
                    bs_subs := mput topic (a, Suc n) (bs_subs b)\<rparr>
             else anew (take n (bs_arrays b ! a)))"

definition bus_subscribe :: "(nat \<Rightarrow> nat) \<Rightarrow> 'a bus \<Rightarrow> string \<Rightarrow> nat \<Rightarrow> 'a bus \<times> nat" where
  "bus_subscribe grow b topic buf =
     (let ch = length (bs_chans b)
      in (append_chan grow (b\<lparr>bs_chans := bs_chans b @ [(buf, [])]\<rparr>) topic ch, ch))"

fun index_from :: "nat \<Rightarrow> nat list \<Rightarrow> nat \<Rightarrow> nat option" where
  "index_from i [] ch = None"
| "index_from i (x # xs) ch = (if x = ch then Some i else index_from (Suc i) xs ch)"

definition bus_unsubscribe :: "'a bus \<Rightarrow> string \<Rightarrow> nat \<Rightarrow> 'a bus" where
  "bus_unsubscribe b topic ch =
     (case mget (bs_subs b) topic of None \<Rightarrow> b
      | Some (a, n) \<Rightarrow>
          let arr = bs_arrays b ! a
          in (case index_from 0 (take n arr) ch of None \<Rightarrow> b
              | Some i \<Rightarrow>
                  b\<lparr>bs_arrays := (bs_arrays b)[a := take i arr @ drop (Suc i) (take n arr) @ drop (n - 1) arr],
                    bs_subs := mput topic (a, n - 1) (bs_subs b)\<rparr>))"

text \<open>A send that does not block, and one step of \<open>Publish\<close>: the element at an index of the copied slice.\<close>

definition send :: "'a \<Rightarrow> 'a bus \<Rightarrow> nat \<Rightarrow> 'a bus" where
  "send payload b ch =
     (case bs_chans b ! ch of (cap, q) \<Rightarrow>
        if length q < cap then b\<lparr>bs_chans := (bs_chans b)[ch := (cap, q @ [payload])]\<rparr> else b)"

definition publish_at :: "'a \<Rightarrow> nat \<Rightarrow> 'a bus \<Rightarrow> nat \<Rightarrow> 'a bus" where
  "publish_at payload a b i = send payload b (bs_arrays b ! a ! i)"

text \<open>\<open>Publish\<close> when nothing happens meanwhile.\<close>

definition bus_publish :: "'a bus \<Rightarrow> string \<Rightarrow> 'a \<Rightarrow> 'a bus" where
  "bus_publish b topic payload =
     (case mget (bs_subs b) topic of None \<Rightarrow> b
      | Some (a, n) \<Rightarrow> foldl (publish_at payload a) b [0..<n])"

section \<open>The lists of subscribers\<close>

text \<open>Every slice lies within its array, and no two topics share one.\<close>

definition bus_inv :: "'a bus \<Rightarrow> bool" where
  "bus_inv b \<longleftrightarrow> wf_map (bs_subs b) \<and>
     (\<forall>t a n. mget (bs_subs b) t = Some (a, n) \<longrightarrow> a < length (bs_arrays b) \<and> n \<le> length (bs_arrays b ! a)) \<and>
     (\<forall>t t' a n n'. mget (bs_subs b) t = Some (a, n) \<and> mget (bs_subs b) t' = Some (a, n') \<longrightarrow> t = t')"

lemma index_from_remove:
  "index_from i xs ch = (if ch \<in> set xs then Some (i + length (takeWhile (\<lambda>x. x \<noteq> ch) xs)) else None)"
  by (induction xs arbitrary: i) auto

lemma remove1_split: "ch \<in> set xs \<Longrightarrow> remove1 ch xs =
    take (length (takeWhile (\<lambda>x. x \<noteq> ch) xs)) xs @ drop (Suc (length (takeWhile (\<lambda>x. x \<noteq> ch) xs))) xs"
  by (induction xs) auto

lemma inv_slice:
  assumes "bus_inv b" "mget (bs_subs b) t = Some (a, n)"
  shows "a < length (bs_arrays b)" "n \<le> length (bs_arrays b ! a)"
  using assms by (auto simp: bus_inv_def)

lemma inv_other:
  "bus_inv b \<Longrightarrow> mget (bs_subs b) t = Some (a, n) \<Longrightarrow> mget (bs_subs b) t' = Some (a', n') \<Longrightarrow> t \<noteq> t' \<Longrightarrow> a \<noteq> a'"
  by (auto simp: bus_inv_def)

text \<open>Giving a topic a new slice of an array of its own keeps the others.\<close>

lemma set_slice:
  assumes "bus_inv b"
    and "a < length arrs" "n \<le> length (arrs ! a)"
    and same: "\<And>t x m. t \<noteq> topic \<Longrightarrow> mget (bs_subs b) t = Some (x, m) \<Longrightarrow> x \<noteq> a \<and> x < length arrs \<and> arrs ! x = bs_arrays b ! x"
  shows "bus_inv (b\<lparr>bs_arrays := arrs, bs_subs := mput topic (a, n) (bs_subs b)\<rparr>) \<and>
    subscribers (b\<lparr>bs_arrays := arrs, bs_subs := mput topic (a, n) (bs_subs b)\<rparr>) t =
      (if t = topic then take n (arrs ! a) else subscribers b t)"
proof
  have one: "t1 = t2" if "t1 \<noteq> topic" "t2 \<noteq> topic" "mget (bs_subs b) t1 = Some (x, m)" "mget (bs_subs b) t2 = Some (x, m')"
    for t1 t2 x m m' using assms(1) that by (auto simp: bus_inv_def)
  show "bus_inv (b\<lparr>bs_arrays := arrs, bs_subs := mput topic (a, n) (bs_subs b)\<rparr>)"
    unfolding bus_inv_def
  proof (intro conjI allI impI)
    show "wf_map (bs_subs (b\<lparr>bs_arrays := arrs, bs_subs := mput topic (a, n) (bs_subs b)\<rparr>))"
      using assms(1) by (simp add: bus_inv_def map_simps)
  next
    fix t x m assume "mget (bs_subs (b\<lparr>bs_arrays := arrs, bs_subs := mput topic (a, n) (bs_subs b)\<rparr>)) t = Some (x, m)"
    then have "t = topic \<and> x = a \<and> m = n \<or> t \<noteq> topic \<and> mget (bs_subs b) t = Some (x, m)"
      by (auto simp: map_simps split: if_splits)
    then show "x < length (bs_arrays (b\<lparr>bs_arrays := arrs, bs_subs := mput topic (a, n) (bs_subs b)\<rparr>))"
        "m \<le> length (bs_arrays (b\<lparr>bs_arrays := arrs, bs_subs := mput topic (a, n) (bs_subs b)\<rparr>) ! x)"
      using assms(2,3) same [of t x m] inv_slice [OF assms(1), of t x m] by auto
  next
    fix t t' x m m'
    assume "mget (bs_subs (b\<lparr>bs_arrays := arrs, bs_subs := mput topic (a, n) (bs_subs b)\<rparr>)) t = Some (x, m) \<and>
      mget (bs_subs (b\<lparr>bs_arrays := arrs, bs_subs := mput topic (a, n) (bs_subs b)\<rparr>)) t' = Some (x, m')"
    then show "t = t'" using one [of t t' x m m'] same [of t x m] same [of t' x m']
      by (auto simp: map_simps split: if_splits)
  qed
  show "subscribers (b\<lparr>bs_arrays := arrs, bs_subs := mput topic (a, n) (bs_subs b)\<rparr>) t =
      (if t = topic then take n (arrs ! a) else subscribers b t)"
    using same [of t] by (auto simp: subscribers_def map_simps split: option.split)
qed

lemma takeWhile_less: "ch \<in> set xs \<Longrightarrow> length (takeWhile (\<lambda>x. x \<noteq> ch) xs) < length xs"
  by (induction xs) auto

lemma shift_down:
  assumes "i < n" "n \<le> length arr"
  shows "take (n - 1) (take i arr @ drop (Suc i) (take n arr) @ drop (n - 1) arr) = take i arr @ drop (Suc i) (take n arr)"
    and "length (take i arr @ drop (Suc i) (take n arr) @ drop (n - 1) arr) = length arr"
proof -
  have "length (take i arr @ drop (Suc i) (take n arr)) = n - 1" using assms by simp
  then show "take (n - 1) (take i arr @ drop (Suc i) (take n arr) @ drop (n - 1) arr) = take i arr @ drop (Suc i) (take n arr)"
    using take_append [of "n - 1" "take i arr @ drop (Suc i) (take n arr)" "drop (n - 1) arr"]
    by (simp only: append_assoc diff_self_eq_0 take_0 append_Nil2 take_all order_refl)
  show "length (take i arr @ drop (Suc i) (take n arr) @ drop (n - 1) arr) = length arr" using assms by simp
qed

lemma append_chan_inv:
  assumes "bus_inv b"
  shows "bus_inv (append_chan grow b topic ch) \<and>
    subscribers (append_chan grow b topic ch) t = (if t = topic then subscribers b t @ [ch] else subscribers b t)"
proof -
  let ?new = "\<lambda>xs. bs_arrays b @ [xs @ ch # replicate (grow (length xs)) 0]"
  have anew: "bus_inv (b\<lparr>bs_arrays := ?new xs, bs_subs := mput topic (length (bs_arrays b), Suc (length xs)) (bs_subs b)\<rparr>) \<and>
      subscribers (b\<lparr>bs_arrays := ?new xs, bs_subs := mput topic (length (bs_arrays b), Suc (length xs)) (bs_subs b)\<rparr>) t =
        (if t = topic then xs @ [ch] else subscribers b t)" for xs
    using set_slice [OF assms, of "length (bs_arrays b)" "?new xs" "Suc (length xs)" topic t] inv_slice [OF assms]
    by (fastforce simp: nth_append)
  show ?thesis
  proof (cases "mget (bs_subs b) topic")
    case None
    then have "subscribers b topic = []" by (simp add: subscribers_def)
    then show ?thesis using anew [of "[]"] None by (simp add: append_chan_def Let_def)
  next
    case (Some an)
    obtain a n where an: "an = (a, n)" by fastforce
    have s: "subscribers b topic = take n (bs_arrays b ! a)" by (simp add: subscribers_def Some an)
    note sl = inv_slice [OF assms Some [unfolded an]]
    show ?thesis
    proof (cases "n < length (bs_arrays b ! a)")
      case False
      then show ?thesis using anew [of "take n (bs_arrays b ! a)"] Some sl s
        by (simp add: append_chan_def Let_def an)
    next
      case True
      let ?arrs = "(bs_arrays b)[a := (bs_arrays b ! a)[n := ch]]"
      have same: "x \<noteq> a \<and> x < length ?arrs \<and> ?arrs ! x = bs_arrays b ! x"
        if "t' \<noteq> topic" "mget (bs_subs b) t' = Some (x, m)" for t' x m
        using inv_other [OF assms that(2) Some [unfolded an] that(1)] inv_slice(1) [OF assms that(2)] by simp
      have "take (Suc n) (?arrs ! a) = take n (bs_arrays b ! a) @ [ch]"
        using True sl by (simp add: take_Suc_conv_app_nth)
      then show ?thesis
        using set_slice [OF assms, of a ?arrs "Suc n" topic t, OF _ _ same] True sl Some s
        by (simp add: append_chan_def Let_def an)
    qed
  qed
qed

lemma unsubscribe_inv:
  assumes "bus_inv b"
  shows "bus_inv (bus_unsubscribe b topic ch) \<and>
    subscribers (bus_unsubscribe b topic ch) t = (if t = topic then remove1 ch (subscribers b t) else subscribers b t)"
proof (cases "mget (bs_subs b) topic")
  case None
  then show ?thesis using assms by (simp add: bus_unsubscribe_def subscribers_def)
next
  case (Some an)
  obtain a n where an: "an = (a, n)" by fastforce
  have s: "subscribers b topic = take n (bs_arrays b ! a)" by (simp add: subscribers_def Some an)
  note sl = inv_slice [OF assms Some [unfolded an]]
  show ?thesis
  proof (cases "ch \<in> set (take n (bs_arrays b ! a))")
    case False
    then show ?thesis using assms Some s
      by (simp add: bus_unsubscribe_def an index_from_remove Let_def remove1_idem)
  next
    case True
    let ?arr = "bs_arrays b ! a"
    let ?i = "length (takeWhile (\<lambda>x. x \<noteq> ch) (take n ?arr))"
    let ?new = "take ?i ?arr @ drop (Suc ?i) (take n ?arr) @ drop (n - 1) ?arr"
    let ?arrs = "(bs_arrays b)[a := ?new]"
    have i: "?i < n" using takeWhile_less [OF True] sl by simp
    have "remove1 ch (take n ?arr) = take ?i ?arr @ drop (Suc ?i) (take n ?arr)"
      unfolding remove1_split [OF True] using i by (simp add: min_def)
    then have t: "take (n - 1) ?new = remove1 ch (take n ?arr)" and l: "n - 1 \<le> length ?new"
      using shift_down [OF i sl(2)] sl(2) by simp_all
    have same: "x \<noteq> a \<and> x < length ?arrs \<and> ?arrs ! x = bs_arrays b ! x"
      if "t' \<noteq> topic" "mget (bs_subs b) t' = Some (x, m)" for t' x m
      using inv_other [OF assms that(2) Some [unfolded an] that(1)] inv_slice(1) [OF assms that(2)] by simp
    have "bus_unsubscribe b topic ch = b\<lparr>bs_arrays := ?arrs, bs_subs := mput topic (a, n - 1) (bs_subs b)\<rparr>"
      using True Some by (simp add: bus_unsubscribe_def an index_from_remove Let_def)
    then show ?thesis
      using set_slice [OF assms, of a ?arrs "n - 1" topic t, OF _ _ same] sl t l s by (simp del: take_append)
  qed
qed

section \<open>Runs\<close>

datatype 'a bus_op = Sub string nat | Unsub string nat | Pub string 'a

fun bus_apply :: "(nat \<Rightarrow> nat) \<Rightarrow> 'a bus \<Rightarrow> 'a bus_op \<Rightarrow> 'a bus" where
  "bus_apply grow b (Sub t buf) = fst (bus_subscribe grow b t buf)"
| "bus_apply grow b (Unsub t ch) = bus_unsubscribe b t ch"
| "bus_apply grow b (Pub t p) = bus_publish b t p"

text \<open>The bus without arrays: the next channel, the subscribers of each topic, and the contents of the channels.\<close>

record 'a plain_bus =
  pb_subs :: "string \<Rightarrow> nat list"
  pb_chans :: "(nat \<times> 'a list) list"

definition deliver :: "'a \<Rightarrow> nat list \<Rightarrow> (nat \<times> 'a list) list \<Rightarrow> (nat \<times> 'a list) list" where
  "deliver p subs chans =
     map (\<lambda>(ch, cap, q). (cap, if ch \<in> set subs \<and> length q < cap then q @ [p] else q)) (enumerate 0 chans)"

fun plain_apply :: "'a plain_bus \<Rightarrow> 'a bus_op \<Rightarrow> 'a plain_bus" where
  "plain_apply b (Sub t buf) =
     \<lparr>pb_subs = (pb_subs b)(t := pb_subs b t @ [length (pb_chans b)]), pb_chans = pb_chans b @ [(buf, [])]\<rparr>"
| "plain_apply b (Unsub t ch) = b\<lparr>pb_subs := (pb_subs b)(t := remove1 ch (pb_subs b t))\<rparr>"
| "plain_apply b (Pub t p) = b\<lparr>pb_chans := deliver p (pb_subs b t) (pb_chans b)\<rparr>"

definition bus_same :: "'a bus \<Rightarrow> 'a plain_bus \<Rightarrow> bool" where
  "bus_same b a \<longleftrightarrow> bus_inv b \<and> subscribers b = pb_subs a \<and> bs_chans b = pb_chans a \<and>
     (\<forall>t. distinct (pb_subs a t) \<and> (\<forall>ch \<in> set (pb_subs a t). ch < length (pb_chans a)))"

lemma bus_inv_chans [simp]: "bus_inv (b\<lparr>bs_chans := x\<rparr>) = bus_inv b"
  "subscribers (b\<lparr>bs_chans := x\<rparr>) = subscribers b"
  by (simp_all add: bus_inv_def subscribers_def fun_eq_iff split: option.split)

lemma length_deliver [simp]: "length (deliver p xs chans) = length chans"
  by (simp add: deliver_def)

lemma nth_deliver: "ch < length chans \<Longrightarrow> deliver p xs chans ! ch =
    (fst (chans ! ch), if ch \<in> set xs \<and> length (snd (chans ! ch)) < fst (chans ! ch) then snd (chans ! ch) @ [p] else snd (chans ! ch))"
  by (simp add: deliver_def nth_enumerate_eq case_prod_beta)

lemma send_fields [simp]: "bs_arrays (send p b ch) = bs_arrays b" "bs_subs (send p b ch) = bs_subs b"
  by (simp_all add: send_def split: prod.split)

lemma send_chans: "(send p b x)\<lparr>bs_chans := y\<rparr> = b\<lparr>bs_chans := y\<rparr>"
  by (simp add: send_def split: prod.split)

lemma length_send [simp]: "length (bs_chans (send p b x)) = length (bs_chans b)"
  by (simp add: send_def split: prod.split)

lemma deliver_send:
  assumes "x \<notin> set xs" "x < length (bs_chans b)"
  shows "deliver p xs (bs_chans (send p b x)) = deliver p (x # xs) (bs_chans b)"
proof (rule nth_equalityI)
  show "length (deliver p xs (bs_chans (send p b x))) = length (deliver p (x # xs) (bs_chans b))" by simp
  fix ch assume "ch < length (deliver p xs (bs_chans (send p b x)))"
  then have "ch < length (bs_chans b)" by simp
  then show "deliver p xs (bs_chans (send p b x)) ! ch = deliver p (x # xs) (bs_chans b) ! ch"
    using assms by (cases "bs_chans b ! x") (auto simp: send_def nth_deliver nth_list_update)
qed

lemma deliver_none: "deliver p [] chans = chans"
  by (rule nth_equalityI) (simp_all add: nth_deliver)

lemma sends:
  "distinct xs \<Longrightarrow> \<forall>ch \<in> set xs. ch < length (bs_chans b) \<Longrightarrow>
   foldl (send p) b xs = b\<lparr>bs_chans := deliver p xs (bs_chans b)\<rparr>"
  by (induction xs arbitrary: b) (simp_all add: deliver_none deliver_send send_chans)

lemma sends_arrays: "bs_arrays (foldl (send p) c xs) = bs_arrays c"
  by (induction xs arbitrary: c) simp_all

lemma publish_walk:
  "n \<le> length (bs_arrays c ! a) \<Longrightarrow> foldl (publish_at p a) c [0..<n] = foldl (send p) c (take n (bs_arrays c ! a)) \<and>
   bs_arrays (foldl (publish_at p a) c [0..<n]) = bs_arrays c"
  by (induction n) (simp_all add: publish_at_def take_Suc_conv_app_nth sends_arrays)

lemma publish_sends: "bus_inv b \<Longrightarrow> bus_publish b t p = foldl (send p) b (subscribers b t)"
  using publish_walk inv_slice(2) by (fastforce simp: bus_publish_def subscribers_def split: option.split)

lemma bus_step:
  assumes "bus_same b a"
  shows "bus_same (bus_apply grow b op) (plain_apply a op)"
proof (cases op)
  case (Sub t buf)
  let ?b = "b\<lparr>bs_chans := bs_chans b @ [(buf, [])]\<rparr>"
  have c: "bs_chans (append_chan grow ?b t ch) = bs_chans b @ [(buf, [])]" for ch
    by (simp add: append_chan_def Let_def split: option.split)
  have "bus_inv ?b" using assms by (simp add: bus_same_def)
  from append_chan_inv [OF this, of grow t "length (bs_chans b)"] c assms show ?thesis
    by (auto simp: Sub bus_same_def bus_subscribe_def Let_def fun_eq_iff less_Suc_eq)
next
  case (Unsub t ch)
  have c: "bs_chans (bus_unsubscribe b t ch) = bs_chans b"
    by (simp add: bus_unsubscribe_def Let_def split: option.split)
  from unsubscribe_inv [of b t ch] c assms show ?thesis
    by (auto simp: Unsub bus_same_def fun_eq_iff dest: notin_set_remove1 [THEN contrapos_pp] set_remove1_subset [THEN subsetD])
next
  case (Pub t p)
  have "bus_publish b t p = b\<lparr>bs_chans := deliver p (subscribers b t) (bs_chans b)\<rparr>"
    using publish_sends [of b t p] sends [of "subscribers b t" b p] assms by (simp add: bus_same_def)
  then show ?thesis using assms by (simp add: Pub bus_same_def)
qed

text \<open>
  Run one operation at a time, the bus is the plain one: whatever the growth of the arrays, each topic has
  its subscribers in the order they came, less those that left, untouched by what happens to other topics
  although the arrays are updated in place, and a publication reaches every subscriber of its topic
  exactly once unless its channel is full, and nobody else.
\<close>

theorem bus_refines:
  fixes ops :: "'a bus_op list" and grow :: "nat \<Rightarrow> nat"
  defines "b \<equiv> foldl (bus_apply grow) new_bus ops"
    and "a \<equiv> foldl plain_apply \<lparr>pb_subs = \<lambda>_. [], pb_chans = []\<rparr> ops"
  shows "subscribers b = pb_subs a \<and> bs_chans b = pb_chans a"
proof -
  have "bus_same new_bus \<lparr>pb_subs = \<lambda>_. [], pb_chans = []\<rparr>"
    by (simp add: bus_same_def bus_inv_def new_bus_def subscribers_def fun_eq_iff)
  then have "bus_same b a"
    unfolding b_def a_def by (induction ops rule: rev_induct) (auto intro: bus_step)
  then show ?thesis by (simp add: bus_same_def)
qed

text \<open>
  The walk without the lock: a publisher that has served the first of three subscribers when that one
  unsubscribes finds the array shifted under it, sends to the third twice and to the second not at all.
\<close>

lemma publish_races_unsubscribe:
  "let b = foldl (bus_apply (\<lambda>n. n)) new_bus [Sub ''t'' 4, Sub ''t'' 4, Sub ''t'' 4];
       served = publish_at ''x'' (fst (the (mget (bs_subs b) ''t''))) b 0;
       moved = bus_unsubscribe served ''t'' 0;
       done = foldl (publish_at ''x'' (fst (the (mget (bs_subs b) ''t'')))) moved [1, 2]
   in map snd (bs_chans done) = [[''x''], [], [''x'', ''x'']]"
  by code_simp

end
