(* ===== verification/Spec2Isabelle.thy ===== *)
theory Spec2Isabelle
  imports Rollouts ClientLoop Startup Bus
begin

text \<open>
  A verification development for pennant, a feature-flag server with its Go SDK. It translates the Go program
  under \<open>cmd/server\<close>, \<open>internal\<close> and \<open>sdk/go\<close>, one theory per component, and proves what makes each
  component correct and what their composition guarantees.

  \<^bold>\<open>The program.\<close> A flag has variations and, per environment, a configuration: on or off, prerequisites,
  targets, rules over the attributes of a context, and a fallthrough, any of which may be a percentage
  rollout. The server keeps projects, environments, flags and segments in a store, serves a management API to
  users with roles and an SDK API to clients with SDK keys, and streams snapshots and deltas of an environment
  to the clients, which evaluate flags on their own copy with the evaluator that the server also uses.
  Clients report events, from which insights and the statistics of experiments are computed.

  \<^bold>\<open>Foundations.\<close>
  \<^item> \<open>Prelude\<close>: Go strings, maps (association lists with their lookup rules collected in \<open>map_simps\<close>), \<open>int64\<close>
    with its wrap-around, decimal text, loops that may not return.
  \<^item> \<open>GoFloat\<close>: \<open>float64\<close> as the rationals it can hold with infinities and NaN, rounding written out; the
    locale \<open>rounding\<close> collects what proofs use of it. \<open>Values\<close>: JSON documents and values of type \<open>any\<close>.
  \<^item> \<open>Model\<close>: \<open>internal/model\<close>, the types and their validation. \<open>Wire\<close>: the JSON the struct tags give,
    injective. \<open>Decode\<close>: what is read back from it, for every column of a database that keeps or reorders the
    members of an object (locale \<open>json_column\<close>, two interpretations).

  \<^bold>\<open>Evaluation\<close> (\<open>internal/eval\<close>).
  \<^item> \<open>Operators\<close> (\<open>operators.go\<close>), \<open>Sha1\<close> and \<open>Bucket\<close> (\<open>bucket.go\<close>), \<open>Clauses\<close> (\<open>clause.go\<close>), \<open>Evaluate\<close>
    (\<open>evaluate.go\<close>), \<open>Explain\<close> (\<open>explain.go\<close>).
  \<^item> \<open>Evaluate\<close> proves the order in which the parts of a configuration decide, the prerequisite gate, and that
    evaluation returns; \<open>Clauses\<close>, that a segment which refers to itself makes it diverge; \<open>Prereqs\<close>, over any
    source of flags (locale \<open>keyed_source\<close>), that on acyclic prerequisites the bounded recursion is the
    recursive specification; \<open>Rollouts\<close>, that growing a variation's weight moves nobody away from it and when a
    flag can not be malformed.

  \<^bold>\<open>Stores\<close> (\<open>internal/store\<close>).
  \<^item> \<open>MemStore\<close>: the memory store, its invariant over every reachable state, flags and segments as instances of
    the locale \<open>keyed_table\<close>. \<open>SqlStore\<close>: the SQLite and PostgreSQL stores over tables of encoded rows, with
    engine calls that may fail, and the choice of the store; a simulation shows that they implement the
    memory store for the contents of a project, another theorem that a failing method has no effect, and
    lemmas where the contracts differ.

  \<^bold>\<open>Distribution\<close> (\<open>internal/snapshot\<close>, \<open>internal/stream\<close>, \<open>internal/sdkauth\<close>, \<open>internal/api/server.go\<close>).
  \<^item> \<open>Canonical\<close> and \<open>Snapshot\<close>: building a snapshot, its checksum (SHA-256 written out), deltas and their
    application, a round trip.
  \<^item> \<open>Ring\<close>: the replay buffer against a log that is bounded (locale \<open>bounded_log\<close>). \<open>Hub\<close>: subscriptions,
    delivery and slow clients. \<open>SdkAuth\<close>: keys. \<open>Streaming\<close>: \<open>publishFlagChange\<close>, \<open>sdkStream\<close>, \<open>sdkSnapshot\<close> and
    \<open>sdkEvaluate\<close>, the interleavings of a publisher and a stream, and the gaps they leave.
  \<^item> \<open>SdkClient\<close>: the Go client's parser of the event stream, its handling of events, evaluation and typed
    variations, the back-off; a client catches up with the server and evaluates as the server does.
    \<open>ClientLoop\<close>: connecting, reconnecting, \<open>New\<close>; an outage costs a client only time.
  \<^item> \<open>Bus\<close>: the event bus, on arrays that slices share.

  \<^bold>\<open>Access and administration\<close> (\<open>internal/auth\<close>, \<open>internal/ratelimit\<close>, \<open>internal/api\<close>, \<open>cmd/server\<close>).
  \<^item> \<open>Auth\<close>: roles, sessions, both user stores (locale \<open>refresh_tokens\<close>, interpreted on each). \<open>RateLimit\<close>: the
    table of limiters and the middlewares, over any limiter that keeps its promise (locale \<open>rate_limiter\<close>).
  \<^item> \<open>Api\<close>: every management handler behind its role check; the state changes only for who may change it and
    not at all on an error, invariants survive every request, changes reach the subscribers. \<open>Edge\<close>: CORS,
    the address limit and the rest of the chain in front of the handlers. \<open>Startup\<close>: how a process starts, and
    what a restart forgets.

  \<^bold>\<open>Events and experiments\<close> (\<open>internal/analytics\<close>, \<open>internal/stats\<close>, \<open>internal/experiment\<close>).
  \<^item> \<open>Analytics\<close>: the ingestor under the interleavings of its goroutines, and the queries. \<open>Stats\<close>: running
    statistics, tests and sample sizes over any arithmetic, so that the same definitions compute in
    \<open>float64\<close> and are proved right over the reals. \<open>Experiment\<close>: store, engine and handlers, composed with both.
\<close>

text \<open>
  \<^bold>\<open>Conventions.\<close> Definitions have the source's names, in lower case with underscores. A state is a record that
  operations return updated; an error is \<open>Inl\<close> or \<open>None\<close>; a handler returns its status with the next state. A
  lock makes an operation one step; what happens outside of a lock is several, and a run is any sequence
  of steps. Code that is not in the repository is an argument: the regular expressions, number, time and version
  parsers of the operators (record \<open>libs\<close>), bcrypt and the JWT package (\<open>auth_libs\<close>), the functions of package
  \<open>math\<close> (\<open>math\<close>), the limiter of \<open>x/time/rate\<close>, the SQL engines (\<open>sql\<close>, \<open>engine\<close>), the texts of numbers and
  times in JSON, clocks and random draws. Hypotheses about them state documented behaviour only.

  \<^bold>\<open>Bounds.\<close> The recursion through \<open>segmentMatch\<close> clauses has no bound in the code; \<open>segment_matches\<close> takes a fuel
  and returns \<open>None\<close> when it runs out, and \<open>evaluate_returns\<close> shows that on
  segments without a reference cycle a fuel above their rank, the length of the longest chain of references,
  is enough. The depth of prerequisites, 20, the capacity of the replay buffer,
  256, and of a channel, 32, the scanner's line length, 64 KiB, and the 200 iterations of the incomplete gamma
  function are the code's own. Numbers of events and samples are assumed below \<open>2 ^ 63\<close> where a counter of
  the code would wrap.

  \<^bold>\<open>Not modelled.\<close> The routing library chi and its middlewares; HTTP, TLS, listeners, signals and the command
  line; opening, migrating and closing databases; logging; the Prometheus collectors other than the request
  counter; the start and stop of goroutines and tickers, which are the beginning and the end of a
  run; the limit of a request's body, whose effect is a body that does not decode. \<open>cmd/loadgen\<close> only sends
  requests and prints. The TypeScript SDK and the dashboard are not Go.
\<close>

end
